(* ===== verification/Prelude.thy ===== *)
theory Prelude
  imports Main "HOL-Library.Word" "HOL-Library.Sublist"
begin

unbundle bit_operations_syntax

text \<open>
  Shared foundations of the development: the named theorem collections, the types that every
  component uses (bytes, 16-bit words, durations), Go's signed 64-bit wrap-around, the big-endian
  codec of \<^verbatim>\<open>encoding/binary\<close>, the byte-stream connection on which the wire protocols run,
  and the two interface locales that several components provide: a bounded exponential
  \<open>backoff\<close> and an order-preserving duplicate-free \<open>collector\<close>.
\<close>

named_theorems go_simps \<open>rewrite rules for the Go standard library functions\<close>
named_theorems wire_simps \<open>rewrite rules for byte-level encodings\<close>
named_theorems conn_simps \<open>rewrite rules for connection operations\<close>

type_synonym byte = "8 word"
type_synonym u16 = "16 word"
type_synonym u64 = "64 word"

text \<open>A \<^verbatim>\<open>time.Duration\<close> or a \<^verbatim>\<open>time.Time\<close> is a signed number of nanoseconds.\<close>

type_synonym duration = int
type_synonym instant = int

section \<open>Definitions\<close>

subsection \<open>Signed 64-bit integers\<close>

definition wrap64 :: "int \<Rightarrow> int" where
  "wrap64 x = (x + 2 ^ 63) mod 2 ^ 64 - 2 ^ 63"

definition second :: duration where
  "second = 1000000000"

definition millisecond :: duration where
  "millisecond = 1000000"

definition minute :: duration where
  "minute = 60 * second"

text \<open>\<^verbatim>\<open>config.SecondsDefault\<close> and the many inline variants of it: a non-positive value is
  replaced by the default.\<close>

definition pos_or :: "int \<Rightarrow> int \<Rightarrow> int" where
  "pos_or v d = (if v \<le> 0 then d else v)"

subsection \<open>Big-endian 16-bit encoding\<close>

definition put_be16 :: "u16 \<Rightarrow> byte list" where
  "put_be16 w = [ucast (drop_bit 8 w), ucast w]"

definition get_be16 :: "byte \<Rightarrow> byte \<Rightarrow> u16" where
  "get_be16 hi lo = push_bit 8 (ucast hi) OR ucast lo"

subsection \<open>Bytes and strings\<close>

definition byte_of_char :: "char \<Rightarrow> byte" where
  "byte_of_char c = word_of_nat (of_char c)"

definition char_of_byte :: "byte \<Rightarrow> char" where
  "char_of_byte b = char_of (unat b)"

definition bytes_of :: "string \<Rightarrow> byte list" where
  "bytes_of s = map byte_of_char s"

definition string_of :: "byte list \<Rightarrow> string" where
  "string_of bs = map char_of_byte bs"

subsection \<open>Connections\<close>

text \<open>
  A \<^verbatim>\<open>net.Conn\<close> seen by one endpoint: the bytes the peer will deliver before it closes, the
  bytes written so far, how many more writes the transport accepts before it fails, and whether
  the endpoint closed it. \<open>read_full n\<close> is \<^verbatim>\<open>io.ReadFull\<close> into a buffer of \<open>n\<close> bytes: it
  fails when the peer closes early, having consumed what was there.
\<close>

record conn =
  inp :: "byte list"
  outp :: "byte list"
  writes_left :: nat
  closed :: bool

datatype io_error = UnexpectedEOF | WriteFailed

definition read_full :: "nat \<Rightarrow> conn \<Rightarrow> (io_error + byte list) \<times> conn" where
  "read_full n c =
     (if n \<le> length (inp c) then (Inr (take n (inp c)), c\<lparr>inp := drop n (inp c)\<rparr>)
      else (Inl UnexpectedEOF, c\<lparr>inp := []\<rparr>))"

definition write_all :: "byte list \<Rightarrow> conn \<Rightarrow> (io_error + unit) \<times> conn" where
  "write_all bs c =
     (case writes_left c of
        0 \<Rightarrow> (Inl WriteFailed, c)
      | Suc k \<Rightarrow> (Inr (), c\<lparr>outp := outp c @ bs, writes_left := k\<rparr>))"

definition close_conn :: "conn \<Rightarrow> conn" where
  "close_conn c = c\<lparr>closed := True\<rparr>"

text \<open>Sequencing of fallible connection steps, Go's \<^verbatim>\<open>if err != nil { return err }\<close>.\<close>

definition bind_io ::
  "('e + 'a) \<times> conn \<Rightarrow> ('a \<Rightarrow> conn \<Rightarrow> ('e + 'b) \<times> conn) \<Rightarrow> ('e + 'b) \<times> conn" where
  "bind_io r k = (case r of (Inl e, c) \<Rightarrow> (Inl e, c) | (Inr a, c) \<Rightarrow> k a c)"

subsection \<open>Maps\<close>

text \<open>
  A Go map is an association list with distinct keys, read by \<open>map_of\<close>; its order stands for the
  iteration order, which Go leaves open.
\<close>

definition map_delete :: "'k \<Rightarrow> ('k \<times> 'v) list \<Rightarrow> ('k \<times> 'v) list" where
  "map_delete k es = filter (\<lambda>(k', _). k' \<noteq> k) es"

fun map_store :: "'k \<Rightarrow> 'v \<Rightarrow> ('k \<times> 'v) list \<Rightarrow> ('k \<times> 'v) list" where
  "map_store k v [] = [(k, v)]"
| "map_store k v ((k', v') # es) = (if k' = k then (k, v) # es else (k', v') # map_store k v es)"

section \<open>Lemmas\<close>

subsection \<open>Integers\<close>

lemma wrap64_id [simp]: "- (2 ^ 63) \<le> x \<Longrightarrow> x < 2 ^ 63 \<Longrightarrow> wrap64 x = x"
  by (simp add: wrap64_def)

lemma wrap64_range: "- (2 ^ 63) \<le> wrap64 x" "wrap64 x < 2 ^ 63"
  using pos_mod_sign [of "2 ^ 64" "x + 2 ^ 63"] pos_mod_bound [of "2 ^ 64" "x + 2 ^ 63"]
  by (simp_all add: wrap64_def)

lemma pos_or_pos: "0 < d \<Longrightarrow> 0 < pos_or v d"
  by (simp add: pos_or_def)

lemma pos_or_id [simp]: "0 < v \<Longrightarrow> pos_or v d = v"
  by (simp add: pos_or_def)

lemma pos_or_default [simp]: "v \<le> 0 \<Longrightarrow> pos_or v d = d"
  by (simp add: pos_or_def)

lemma pos_or_idem [simp]: "pos_or (pos_or v d) d = pos_or v d"
  by (simp add: pos_or_def)

subsection \<open>Codec\<close>

lemma get_put_be16 [simp, wire_simps]:
  "get_be16 (ucast (drop_bit 8 w)) (ucast w) = w"
  unfolding get_be16_def
  by (rule bit_word_eqI) (auto simp: bit_simps)

lemma put_get_be16 [simp, wire_simps]: "put_be16 (get_be16 hi lo) = [hi, lo]"
  unfolding put_be16_def get_be16_def
  by (auto intro!: bit_word_eqI simp: bit_simps) (use bit_imp_le_length in fastforce)+

lemma length_put_be16 [simp]: "length (put_be16 w) = 2"
  by (simp add: put_be16_def)

lemma unat_get_be16: "unat (get_be16 hi lo) = 256 * unat hi + unat lo"
proof -
  have dis: "push_bit 8 (ucast hi) AND ucast lo = (0 :: u16)"
    by (rule bit_word_eqI) (auto simp: bit_simps dest: bit_imp_le_length)
  have hb: "unat hi < 256" and lb: "unat lo < 256"
    using unsigned_less [of hi, where ?'a = nat] unsigned_less [of lo, where ?'a = nat] by simp_all
  have "unat (push_bit 8 (ucast hi) :: u16) = 256 * unat hi"
    unfolding unsigned_push_bit_eq unsigned_ucast_eq
    using hb by (simp add: push_bit_eq_mult take_bit_eq_mod)
  moreover have "unat (ucast lo :: u16) = unat lo"
    using lb by (simp add: unsigned_ucast_eq take_bit_eq_mod)
  moreover have "get_be16 hi lo = push_bit 8 (ucast hi) + ucast lo"
    unfolding get_be16_def using disjunctive_add_eq_or [OF dis] by simp
  ultimately show ?thesis
    using hb lb by (simp add: unat_word_ariths)
qed

subsection \<open>Bytes and strings\<close>

lemma char_of_byte_of_char [simp]: "char_of_byte (byte_of_char c) = c"
proof -
  have "of_char c < (256 :: nat)" by simp
  then show ?thesis
    by (simp add: char_of_byte_def byte_of_char_def unat_of_nat)
qed

lemma byte_of_char_of_byte [simp]: "byte_of_char (char_of_byte b) = b"
proof -
  have "unat b < 256" using unsigned_less [of b, where ?'a = nat] by simp
  then show ?thesis
    by (simp add: char_of_byte_def byte_of_char_def of_char_of take_bit_eq_mod)
qed

lemma string_of_bytes_of [simp]: "string_of (bytes_of s) = s"
  by (simp add: string_of_def bytes_of_def comp_def)

lemma bytes_of_string_of [simp]: "bytes_of (string_of bs) = bs"
  by (simp add: string_of_def bytes_of_def comp_def)

lemma length_bytes_of [simp]: "length (bytes_of s) = length s"
  by (simp add: bytes_of_def)

lemma length_string_of [simp]: "length (string_of bs) = length bs"
  by (simp add: string_of_def)

subsection \<open>Connections\<close>

lemma read_full_ok [conn_simps]:
  "n \<le> length (inp c) \<Longrightarrow> read_full n c = (Inr (take n (inp c)), c\<lparr>inp := drop n (inp c)\<rparr>)"
  by (simp add: read_full_def)

lemma read_full_short [conn_simps]:
  "length (inp c) < n \<Longrightarrow> read_full n c = (Inl UnexpectedEOF, c\<lparr>inp := []\<rparr>)"
  by (simp add: read_full_def)

lemma read_full_append [conn_simps]:
  "inp c = bs @ rest \<Longrightarrow> length bs = n \<Longrightarrow> read_full n c = (Inr bs, c\<lparr>inp := rest\<rparr>)"
  by (simp add: read_full_def)

lemma read_full_length: "read_full n c = (Inr bs, c') \<Longrightarrow> length bs = n"
  by (auto simp: read_full_def split: if_splits)

lemma read_full_preserves:
  "outp (snd (read_full n c)) = outp c" "writes_left (snd (read_full n c)) = writes_left c"
  "closed (snd (read_full n c)) = closed c"
  by (simp_all add: read_full_def)

lemma write_all_ok [conn_simps]:
  "0 < writes_left c \<Longrightarrow>
   write_all bs c = (Inr (), c\<lparr>outp := outp c @ bs, writes_left := writes_left c - 1\<rparr>)"
  by (simp add: write_all_def split: nat.splits)

lemma write_all_fail [conn_simps]: "writes_left c = 0 \<Longrightarrow> write_all bs c = (Inl WriteFailed, c)"
  by (simp add: write_all_def)

lemma bind_io_simps [simp]:
  "bind_io (Inl e, c) k = (Inl e, c)"
  "bind_io (Inr a, c) k = k a c"
  by (simp_all add: bind_io_def)

lemma bind_io_InrE:
  assumes "bind_io r k = (Inr b, c')"
  obtains a c where "r = (Inr a, c)" and "k a c = (Inr b, c')"
  using assms by (auto simp: bind_io_def split: prod.splits sum.splits)

subsection \<open>Maps\<close>

lemma map_of_map_store [simp]: "map_of (map_store k v es) = (map_of es)(k \<mapsto> v)"
  by (induction k v es rule: map_store.induct) (auto simp: fun_eq_iff)

lemma keys_map_store [simp]: "fst ` set (map_store k v es) = insert k (fst ` set es)"
  by (induction k v es rule: map_store.induct) auto

lemma distinct_map_store: "distinct (map fst es) \<Longrightarrow> distinct (map fst (map_store k v es))"
  by (induction k v es rule: map_store.induct) auto

lemma length_map_store: "length (map_store k v es) = (if k \<in> fst ` set es then length es else Suc (length es))"
  by (induction k v es rule: map_store.induct) auto

lemma set_map_store: "set (map_store k v es) \<subseteq> insert (k, v) (set es)"
  by (induction k v es rule: map_store.induct) auto

lemma set_map_store_eq:
  "distinct (map fst es) \<Longrightarrow> set (map_store k v es) = insert (k, v) {e \<in> set es. fst e \<noteq> k}"
  by (induction k v es rule: map_store.induct) force+

lemma map_of_filter_key: "map_of (filter (\<lambda>(k, _). P k) es) k = (if P k then map_of es k else None)"
  by (induction es) auto

lemma map_delete_props:
  "map_of (map_delete k es) = (map_of es)(k := None)"
  "distinct (map fst es) \<Longrightarrow> distinct (map fst (map_delete k es))"
  "set (map_delete k es) \<subseteq> set es"
  unfolding map_delete_def by (induction es) (auto simp: fun_eq_iff)

lemma length_map_delete: "k \<in> fst ` set es \<Longrightarrow> length (map_delete k es) < length es"
proof -
  assume "k \<in> fst ` set es"
  then obtain v where "(k, v) \<in> set es" by auto
  then show ?thesis unfolding map_delete_def by (rule length_filter_less) simp
qed

section \<open>Interfaces shared by several components\<close>

subsection \<open>Bounded exponential backoff\<close>

text \<open>
  The contract of a retry delay: the delay after the first failure is the base, each further delay
  is the double of the last, cut at the cap. The tunnel's reconnect loop, the daemon's restart
  loop and the UDP gateway each provide one.
\<close>

locale backoff =
  fixes next_delay :: "duration \<Rightarrow> duration" and base :: duration and cap :: duration
  assumes base_pos: "0 < base"
    and base_le_cap: "base \<le> cap"
    and next_double: "base \<le> d \<Longrightarrow> d \<le> cap \<Longrightarrow> next_delay d = min (2 * d) cap"
begin

lemma next_in_range: "base \<le> d \<Longrightarrow> d \<le> cap \<Longrightarrow> base \<le> next_delay d \<and> next_delay d \<le> cap"
  using base_pos base_le_cap by (simp add: next_double)

lemma next_mono: "base \<le> d \<Longrightarrow> d \<le> cap \<Longrightarrow> d \<le> next_delay d"
  using base_pos by (simp add: next_double)

lemma iterate_closed_form: "(next_delay ^^ n) base = min (2 ^ n * base) cap"
proof (induction n)
  case 0
  show ?case using base_le_cap by simp
next
  case (Suc n)
  have "base \<le> 2 ^ n * base" using base_pos by simp
  then have "base \<le> min (2 ^ n * base) cap" using base_le_cap by simp
  then have "next_delay (min (2 ^ n * base) cap) = min (2 * min (2 ^ n * base) cap) cap"
    by (intro next_double) simp_all
  also have "\<dots> = min (2 ^ Suc n * base) cap" using base_pos base_le_cap by (auto simp: min_def)
  finally show ?case using Suc by simp
qed

lemma iterate_in_range: "base \<le> (next_delay ^^ n) base \<and> (next_delay ^^ n) base \<le> cap"
  using base_pos base_le_cap by (simp add: iterate_closed_form)

lemma iterate_saturates: "cap \<le> 2 ^ n * base \<Longrightarrow> (next_delay ^^ n) base = cap"
  by (simp add: iterate_closed_form)

end

subsection \<open>Order-preserving duplicate-free collection\<close>

text \<open>
  The contract of the list builders of \<^verbatim>\<open>dnsx\<close>: adding a value keeps the order of the first
  occurrences and never adds a value twice.
\<close>

locale collector =
  fixes add :: "'a list \<Rightarrow> 'a \<Rightarrow> 'a list"
  assumes add_new: "v \<notin> set xs \<Longrightarrow> add xs v = xs @ [v]"
    and add_old: "v \<in> set xs \<Longrightarrow> add xs v = xs"
begin

lemma set_add [simp]: "set (add xs v) = insert v (set xs)"
  by (cases "v \<in> set xs") (auto simp: add_new add_old)

lemma distinct_add [simp]: "distinct (add xs v) = distinct xs"
  by (cases "v \<in> set xs") (auto simp: add_new add_old)

lemma set_collect: "set (foldl add xs vs) = set xs \<union> set vs"
  by (induction vs arbitrary: xs) auto

lemma distinct_collect: "distinct xs \<Longrightarrow> distinct (foldl add xs vs)"
  by (induction vs arbitrary: xs) auto

lemma collect_distinct_id:
  "distinct (xs @ vs) \<Longrightarrow> foldl add xs vs = xs @ vs"
proof (induction vs arbitrary: xs)
  case Nil
  then show ?case by simp
next
  case (Cons v vs)
  then have "add xs v = xs @ [v]" by (intro add_new) auto
  with Cons.IH [of "xs @ [v]"] Cons.prems show ?case by auto
qed

lemma collect_idem: "foldl add [] (foldl add [] vs) = foldl add [] vs"
  using collect_distinct_id [of "[]" "foldl add [] vs"] distinct_collect [of "[]" vs] by simp

end

end
