(* ===== verification/GoStrings.thy ===== *)
theory GoStrings
  imports Prelude
begin

text \<open>
  The functions of Go's \<^verbatim>\<open>strings\<close> and \<^verbatim>\<open>strconv\<close> packages that the daemon calls, on byte
  strings. White space is what \<^verbatim>\<open>unicode.IsSpace\<close> accepts, as the UTF-8 encodings of those
  runes, so \<open>TrimSpace\<close> and \<open>Fields\<close> are exact on every byte string (an encoding starts with a
  leading byte, which never occurs inside another rune, so looking for it byte by byte finds the
  same separators as decoding runes). \<open>ToLower\<close> and \<open>EqualFold\<close> map the ASCII letters and leave
  the other bytes alone: they are exact on ASCII text, which host names, modes and error messages
  are; the Unicode case tables are not modelled. An index that Go reports as \<open>-1\<close> is \<open>None\<close>.
\<close>

section \<open>Definitions\<close>

subsection \<open>White space and case\<close>

definition nl :: char where "nl = CHR 0x0A"
definition cr :: char where "cr = CHR 0x0D"

text \<open>The ASCII white space bytes, then U+0085, U+00A0, U+1680, U+2000 to U+200A, U+2028, U+2029,
  U+202F, U+205F and U+3000 in UTF-8.\<close>

definition spaces :: "string list" where
  "spaces =
     map (\<lambda>b. [char_of (b::nat)]) [0x09, 0x0A, 0x0B, 0x0C, 0x0D, 0x20] @
     [[CHR 0xC2, CHR 0x85], [CHR 0xC2, CHR 0xA0], [CHR 0xE1, CHR 0x9A, CHR 0x80]] @
     map (\<lambda>b. [CHR 0xE2, CHR 0x80, char_of (b::nat)])
       [0x80, 0x81, 0x82, 0x83, 0x84, 0x85, 0x86, 0x87, 0x88, 0x89, 0x8A, 0xA8, 0xA9, 0xAF] @
     [[CHR 0xE2, CHR 0x81, CHR 0x9F], [CHR 0xE3, CHR 0x80, CHR 0x80]]"

text \<open>The length of the white space rune that a string starts with, 0 if it starts with none.\<close>

definition space_len :: "string \<Rightarrow> nat" where
  "space_len s = (case find (\<lambda>w. prefix w s) spaces of None \<Rightarrow> 0 | Some w \<Rightarrow> length w)"

definition space_len_end :: "string \<Rightarrow> nat" where
  "space_len_end s = (case find (\<lambda>w. suffix w s) spaces of None \<Rightarrow> 0 | Some w \<Rightarrow> length w)"

function trim_left :: "string \<Rightarrow> string" where
  "trim_left s =
     (if space_len s = 0 \<or> s = [] then s else trim_left (drop (space_len s) s))"
  by pat_completeness auto
termination
  by (relation "measure length") auto

function trim_right :: "string \<Rightarrow> string" where
  "trim_right s =
     (if space_len_end s = 0 \<or> s = [] then s
      else trim_right (take (length s - space_len_end s) s))"
  by pat_completeness auto
termination
  by (relation "measure length") auto

declare trim_left.simps [simp del] trim_right.simps [simp del]

definition TrimSpace :: "string \<Rightarrow> string" where
  "TrimSpace s = trim_right (trim_left s)"

definition lower_char :: "char \<Rightarrow> char" where
  "lower_char c =
     (let n = (of_char c :: nat) in if 65 \<le> n \<and> n \<le> 90 then char_of (n + 32) else c)"

definition ToLower :: "string \<Rightarrow> string" where
  "ToLower s = map lower_char s"

definition EqualFold :: "string \<Rightarrow> string \<Rightarrow> bool" where
  "EqualFold s t \<longleftrightarrow> ToLower s = ToLower t"

subsection \<open>Searching, splitting, replacing\<close>

definition HasPrefix :: "string \<Rightarrow> string \<Rightarrow> bool" where
  "HasPrefix s p \<longleftrightarrow> prefix p s"

definition HasSuffix :: "string \<Rightarrow> string \<Rightarrow> bool" where
  "HasSuffix s p \<longleftrightarrow> suffix p s"

definition TrimPrefix :: "string \<Rightarrow> string \<Rightarrow> string" where
  "TrimPrefix s p = (if prefix p s then drop (length p) s else s)"

definition TrimSuffix :: "string \<Rightarrow> string \<Rightarrow> string" where
  "TrimSuffix s p = (if suffix p s then take (length s - length p) s else s)"

fun Index :: "string \<Rightarrow> string \<Rightarrow> nat option" where
  "Index s sub =
     (if prefix sub s then Some 0
      else case s of [] \<Rightarrow> None | _ # t \<Rightarrow> map_option Suc (Index t sub))"

declare Index.simps [simp del]

definition Contains :: "string \<Rightarrow> string \<Rightarrow> bool" where
  "Contains s sub \<longleftrightarrow> Index s sub \<noteq> None"

fun IndexByte :: "string \<Rightarrow> char \<Rightarrow> nat option" where
  "IndexByte [] c = None"
| "IndexByte (x # xs) c = (if x = c then Some 0 else map_option Suc (IndexByte xs c))"

fun LastIndexByte :: "string \<Rightarrow> char \<Rightarrow> nat option" where
  "LastIndexByte [] c = None"
| "LastIndexByte (x # xs) c =
     (case LastIndexByte xs c of
        Some i \<Rightarrow> Some (Suc i)
      | None \<Rightarrow> if x = c then Some 0 else None)"

text \<open>\<^verbatim>\<open>strings.Trim(s, "c")\<close> for a cut set of one byte.\<close>

definition trim_byte :: "char \<Rightarrow> string \<Rightarrow> string" where
  "trim_byte c s = rev (dropWhile (\<lambda>x. x = c) (rev (dropWhile (\<lambda>x. x = c) s)))"

text \<open>\<^verbatim>\<open>strings.Split(s, sep)\<close> for a separator of one byte: never the empty list.\<close>

fun Split :: "char \<Rightarrow> string \<Rightarrow> string list" where
  "Split c [] = [[]]"
| "Split c (x # xs) =
     (if x = c then [] # Split c xs
      else case Split c xs of [] \<Rightarrow> [[x]] | w # ws \<Rightarrow> (x # w) # ws)"

fun Join :: "string list \<Rightarrow> string \<Rightarrow> string" where
  "Join [] sep = []"
| "Join [w] sep = w"
| "Join (w # v # ws) sep = w @ sep @ Join (v # ws) sep"

text \<open>\<^verbatim>\<open>strings.FieldsFunc\<close> for a predicate on bytes; the accumulator is the field being read.\<close>

fun fields_func :: "(char \<Rightarrow> bool) \<Rightarrow> string \<Rightarrow> string \<Rightarrow> string list" where
  "fields_func sep acc [] = (if acc = [] then [] else [acc])"
| "fields_func sep acc (x # xs) =
     (if sep x then (if acc = [] then [] else [acc]) @ fields_func sep [] xs
      else fields_func sep (acc @ [x]) xs)"

definition FieldsFunc :: "string \<Rightarrow> (char \<Rightarrow> bool) \<Rightarrow> string list" where
  "FieldsFunc s sep = fields_func sep [] s"

function fields_ws :: "string \<Rightarrow> string \<Rightarrow> string list" where
  "fields_ws acc [] = (if acc = [] then [] else [acc])"
| "fields_ws acc (x # xs) =
     (if space_len (x # xs) \<noteq> 0
      then (if acc = [] then [] else [acc]) @ fields_ws [] (drop (space_len (x # xs)) (x # xs))
      else fields_ws (acc @ [x]) xs)"
  by pat_completeness auto
termination
  by (relation "measure (\<lambda>(acc, s). length s)") auto

definition Fields :: "string \<Rightarrow> string list" where
  "Fields s = fields_ws [] s"

text \<open>\<^verbatim>\<open>strings.ReplaceAll\<close> for a non-empty pattern, the only use the daemon makes of it.\<close>

function ReplaceAll :: "string \<Rightarrow> string \<Rightarrow> string \<Rightarrow> string" where
  "ReplaceAll s old new =
     (if old = [] then s
      else case s of
             [] \<Rightarrow> []
           | x # xs \<Rightarrow>
               if prefix old s then new @ ReplaceAll (drop (length old) s) old new
               else x # ReplaceAll xs old new)"
  by pat_completeness auto
termination
  by (relation "measure (\<lambda>(s, old, new). length s)") auto

declare ReplaceAll.simps [simp del]

subsection \<open>Numbers\<close>

definition digit_char :: "nat \<Rightarrow> char" where
  "digit_char d = char_of (48 + d)"

definition is_digit :: "char \<Rightarrow> bool" where
  "is_digit c \<longleftrightarrow> 48 \<le> (of_char c :: nat) \<and> (of_char c :: nat) \<le> 57"

definition digit_val :: "char \<Rightarrow> nat" where
  "digit_val c = of_char c - 48"

fun string_of_nat :: "nat \<Rightarrow> string" where
  "string_of_nat n =
     (if n < 10 then [digit_char n] else string_of_nat (n div 10) @ [digit_char (n mod 10)])"

declare string_of_nat.simps [simp del]

definition Itoa :: "int \<Rightarrow> string" where
  "Itoa i = (if i < 0 then ''-'' @ string_of_nat (nat (- i)) else string_of_nat (nat i))"

definition nat_of_digits :: "string \<Rightarrow> nat" where
  "nat_of_digits s = foldl (\<lambda>a c. 10 * a + digit_val c) 0 s"

definition digits :: "string \<Rightarrow> nat option" where
  "digits s = (if s \<noteq> [] \<and> list_all is_digit s then Some (nat_of_digits s) else None)"

text \<open>\<^verbatim>\<open>strconv.Atoi\<close> on a 64-bit platform: an optional sign, decimal digits, in range.\<close>

definition Atoi :: "string \<Rightarrow> int option" where
  "Atoi s =
     (let (neg, ds) =
        (case s of
           [] \<Rightarrow> (False, [])
         | x # xs \<Rightarrow> if x = CHR ''-'' then (True, xs)
                     else if x = CHR ''+'' then (False, xs) else (False, s))
      in case digits ds of
           None \<Rightarrow> None
         | Some n \<Rightarrow>
             let v = (if neg then - int n else int n)
             in if - (2 ^ 63) \<le> v \<and> v < 2 ^ 63 then Some v else None)"

definition ParseUint64 :: "string \<Rightarrow> u64 option" where
  "ParseUint64 s =
     (case digits s of
        None \<Rightarrow> None
      | Some n \<Rightarrow> if n < 2 ^ 64 then Some (of_nat n) else None)"

section \<open>Lemmas\<close>

subsection \<open>Trimming and case\<close>

lemma spaces_code [code]:
  "spaces =
     [[CHR 0x09], [CHR 0x0A], [CHR 0x0B], [CHR 0x0C], [CHR 0x0D], [CHR 0x20],
      [CHR 0xC2, CHR 0x85], [CHR 0xC2, CHR 0xA0], [CHR 0xE1, CHR 0x9A, CHR 0x80],
      [CHR 0xE2, CHR 0x80, CHR 0x80], [CHR 0xE2, CHR 0x80, CHR 0x81], [CHR 0xE2, CHR 0x80, CHR 0x82],
      [CHR 0xE2, CHR 0x80, CHR 0x83], [CHR 0xE2, CHR 0x80, CHR 0x84], [CHR 0xE2, CHR 0x80, CHR 0x85],
      [CHR 0xE2, CHR 0x80, CHR 0x86], [CHR 0xE2, CHR 0x80, CHR 0x87], [CHR 0xE2, CHR 0x80, CHR 0x88],
      [CHR 0xE2, CHR 0x80, CHR 0x89], [CHR 0xE2, CHR 0x80, CHR 0x8A], [CHR 0xE2, CHR 0x80, CHR 0xA8],
      [CHR 0xE2, CHR 0x80, CHR 0xA9], [CHR 0xE2, CHR 0x80, CHR 0xAF],
      [CHR 0xE2, CHR 0x81, CHR 0x9F], [CHR 0xE3, CHR 0x80, CHR 0x80]]"
  unfolding spaces_def by code_simp

lemma spaces_nonempty: "w \<in> set spaces \<Longrightarrow> w \<noteq> []"
  by (auto simp: spaces_def)

lemma find_spaces: "find P spaces = Some w \<Longrightarrow> w \<noteq> [] \<and> w \<in> set spaces \<and> P w"
  using spaces_nonempty by (metis find_Some_iff nth_mem)

lemma space_len_0_iff: "space_len s = 0 \<longleftrightarrow> (\<nexists>w. w \<in> set spaces \<and> prefix w s)"
  by (auto simp: space_len_def find_None_iff dest: find_spaces split: option.splits)

lemma space_len_end_0_iff: "space_len_end s = 0 \<longleftrightarrow> (\<nexists>w. w \<in> set spaces \<and> suffix w s)"
  by (auto simp: space_len_end_def find_None_iff dest: find_spaces split: option.splits)

lemma space_len_Nil [simp]: "space_len [] = 0"
  by (auto simp: space_len_0_iff dest: spaces_nonempty)

lemma space_len_end_Nil [simp]: "space_len_end [] = 0"
  by (auto simp: space_len_end_0_iff dest: spaces_nonempty)

lemma trim_left_stop [simp]: "space_len (trim_left s) = 0"
proof (induction s rule: trim_left.induct)
  case (1 s)
  then show ?case by (cases "space_len s = 0 \<or> s = []") (auto simp: trim_left.simps [of s])
qed

lemma trim_right_stop [simp]: "space_len_end (trim_right s) = 0"
proof (induction s rule: trim_right.induct)
  case (1 s)
  then show ?case by (cases "space_len_end s = 0 \<or> s = []") (auto simp: trim_right.simps [of s])
qed

lemma trim_left_id: "space_len s = 0 \<Longrightarrow> trim_left s = s"
  by (simp add: trim_left.simps)

lemma trim_right_id: "space_len_end s = 0 \<Longrightarrow> trim_right s = s"
  by (simp add: trim_right.simps)

lemma trim_right_prefix: "prefix (trim_right s) s"
proof (induction s rule: trim_right.induct)
  case (1 s)
  then show ?case
    by (cases "space_len_end s = 0 \<or> s = []")
      (auto simp: trim_right.simps [of s] intro: prefix_order.trans take_is_prefix)
qed

lemma space_len_prefix: "space_len s = 0 \<Longrightarrow> prefix t s \<Longrightarrow> space_len t = 0"
  by (auto simp: space_len_0_iff intro: prefix_order.trans)

lemma TrimSpace_idem [simp]: "TrimSpace (TrimSpace s) = TrimSpace s"
proof -
  have "space_len (TrimSpace s) = 0"
    unfolding TrimSpace_def by (rule space_len_prefix [OF trim_left_stop trim_right_prefix])
  then show ?thesis by (simp add: TrimSpace_def trim_left_id trim_right_id)
qed

lemma TrimSpace_id: "space_len s = 0 \<Longrightarrow> space_len_end s = 0 \<Longrightarrow> TrimSpace s = s"
  by (simp add: TrimSpace_def trim_left_id trim_right_id)

lemma TrimSpace_ends: "space_len (TrimSpace s) = 0" "space_len_end (TrimSpace s) = 0"
  by (simp_all add: TrimSpace_def space_len_prefix [OF _ trim_right_prefix])

lemma space_len_word: "space_len s \<noteq> 0 \<Longrightarrow> take (space_len s) s \<in> set spaces"
  by (auto simp: space_len_def prefix_def split: option.splits dest!: find_spaces)

lemma space_len_end_word: "space_len_end s \<noteq> 0 \<Longrightarrow> drop (length s - space_len_end s) s \<in> set spaces"
  by (auto simp: space_len_end_def suffix_def split: option.splits dest!: find_spaces)

lemma trim_left_keeps:
  "list_all (\<lambda>w. c \<notin> set w) spaces \<Longrightarrow> c \<in> set s \<Longrightarrow> c \<in> set (trim_left s)"
proof (induction s rule: trim_left.induct)
  case (1 s)
  show ?case
  proof (cases "space_len s = 0 \<or> s = []")
    case False
    then have "c \<notin> set (take (space_len s) s)"
      using space_len_word [of s] 1(2) by (auto simp: list_all_iff)
    with 1(3) have "c \<in> set (drop (space_len s) s)"
      by (metis Un_iff append_take_drop_id set_append)
    then show ?thesis using 1(1) [OF False 1(2)] False by (simp add: trim_left.simps [of s])
  qed (use 1(3) in \<open>simp add: trim_left.simps [of s]\<close>)
qed

lemma trim_right_keeps:
  "list_all (\<lambda>w. c \<notin> set w) spaces \<Longrightarrow> c \<in> set s \<Longrightarrow> c \<in> set (trim_right s)"
proof (induction s rule: trim_right.induct)
  case (1 s)
  let ?n = "length s - space_len_end s"
  show ?case
  proof (cases "space_len_end s = 0 \<or> s = []")
    case False
    then have "c \<notin> set (drop ?n s)"
      using space_len_end_word [of s] 1(2) by (auto simp: list_all_iff)
    with 1(3) have "c \<in> set (take ?n s)"
      by (metis Un_iff append_take_drop_id set_append)
    then show ?thesis using 1(1) [OF False 1(2)] False by (simp add: trim_right.simps [of s])
  qed (use 1(3) in \<open>simp add: trim_right.simps [of s]\<close>)
qed

lemma TrimSpace_keeps:
  "list_all (\<lambda>w. c \<notin> set w) spaces \<Longrightarrow> c \<in> set s \<Longrightarrow> c \<in> set (TrimSpace s)"
  by (simp add: TrimSpace_def trim_left_keeps trim_right_keeps)

lemma TrimSpace_no_space:
  assumes "list_all (list_all P) spaces" "list_all (\<lambda>c. \<not> P c) s"
  shows "TrimSpace s = s"
proof (rule TrimSpace_id)
  have no: "False" if "w \<in> set spaces" "set w \<subseteq> set s" for w
  proof -
    from that(1) have "w \<noteq> []" by (rule spaces_nonempty)
    then obtain c where "c \<in> set w" by (cases w) auto
    with that assms show False by (auto simp: list_all_iff)
  qed
  then show "space_len s = 0" "space_len_end s = 0"
    by (auto simp: space_len_0_iff space_len_end_0_iff dest: set_mono_prefix set_mono_suffix)
qed

text \<open>Printing ASCII characters neither start nor end a white space rune: a shortcut for evaluation.\<close>

fun plain_char :: "char \<Rightarrow> bool" where
  "plain_char (Char b0 b1 b2 b3 b4 b5 b6 b7) \<longleftrightarrow> \<not> b7 \<and> (b6 \<or> (b5 \<and> (b0 \<or> b1 \<or> b2 \<or> b3 \<or> b4)))"

lemma spaces_not_plain: "list_all (\<lambda>w. \<not> plain_char (hd w) \<and> \<not> plain_char (last w)) spaces"
  by code_simp

lemma space_len_code [code]:
  "space_len s = (case s of [] \<Rightarrow> 0 | c # _ \<Rightarrow> if plain_char c then 0
     else (case find (\<lambda>w. prefix w s) spaces of None \<Rightarrow> 0 | Some w \<Rightarrow> length w))"
proof -
  have "space_len (c # t) = 0" if "plain_char c" for c t
  proof -
    have "\<not> prefix w (c # t)" if "w \<in> set spaces" for w
      using spaces_nonempty [OF that] spaces_not_plain that \<open>plain_char c\<close>
      by (cases w) (auto simp: list_all_iff)
    then show ?thesis by (auto simp: space_len_0_iff)
  qed
  then show ?thesis by (cases s) (simp, simp add: space_len_def [symmetric])
qed

lemma space_len_end_code [code]:
  "space_len_end s = (if s = [] then 0 else if plain_char (last s) then 0
     else (case find (\<lambda>w. suffix w s) spaces of None \<Rightarrow> 0 | Some w \<Rightarrow> length w))"
proof -
  have "space_len_end s = 0" if "s \<noteq> []" "plain_char (last s)"
  proof -
    have "\<not> suffix w s" if "w \<in> set spaces" for w
      using spaces_nonempty [OF that] spaces_not_plain that \<open>plain_char (last s)\<close>
      by (auto simp: list_all_iff suffix_def)
    then show ?thesis by (auto simp: space_len_end_0_iff)
  qed
  then show ?thesis by (cases "s = []") (simp, simp add: space_len_end_def [symmetric])
qed

lemma TrimSpace_Nil [simp]: "TrimSpace [] = []"
  by (simp add: TrimSpace_id)

lemma lower_char_idem [simp]: "lower_char (lower_char c) = lower_char c"
  by (auto simp: lower_char_def Let_def)

lemma ToLower_idem [simp]: "ToLower (ToLower s) = ToLower s"
  by (simp add: ToLower_def)

lemma length_ToLower [simp]: "length (ToLower s) = length s"
  by (simp add: ToLower_def)

lemma ToLower_append [simp]: "ToLower (s @ t) = ToLower s @ ToLower t"
  by (simp add: ToLower_def)

lemma EqualFold_refl [simp]: "EqualFold s s"
  by (simp add: EqualFold_def)

subsection \<open>Searching\<close>

lemma Index_Some:
  "Index s sub = Some i \<Longrightarrow> prefix sub (drop i s) \<and> i + length sub \<le> length s"
proof (induction s sub arbitrary: i rule: Index.induct)
  case (1 s sub)
  show ?case
  proof (cases "prefix sub s")
    case True
    with "1.prems" show ?thesis
      by (auto simp: Index.simps [of s sub] dest: prefix_length_le)
  next
    case False
    with "1.prems" obtain x t j where s: "s = x # t" and j: "Index t sub = Some j" "i = Suc j"
      by (auto simp: Index.simps [of s sub] split: list.splits)
    with "1.IH" False show ?thesis by auto
  qed
qed

lemma Index_None: "Index s sub = None \<longleftrightarrow> \<not> sublist sub s"
proof (induction s sub rule: Index.induct)
  case (1 s sub)
  then show ?case
    by (auto simp: Index.simps [of s sub] sublist_Cons_right split: list.split)
qed

lemma Contains_iff: "Contains s sub \<longleftrightarrow> sublist sub s"
  by (simp add: Contains_def Index_None)

lemma IndexByte_None: "IndexByte s c = None \<longleftrightarrow> c \<notin> set s"
  by (induction s) auto

lemma LastIndexByte_None: "LastIndexByte s c = None \<longleftrightarrow> c \<notin> set s"
  by (induction s) (auto split: option.splits)

lemma LastIndexByte_append: "c \<notin> set t \<Longrightarrow> LastIndexByte (s @ c # t) c = Some (length s)"
proof (induction s)
  case Nil
  then have "LastIndexByte t c = None" by (simp add: LastIndexByte_None)
  then show ?case by simp
qed simp

lemma LastIndexByte_Some:
  "LastIndexByte s c = Some i \<Longrightarrow> i < length s \<and> s ! i = c \<and> c \<notin> set (drop (Suc i) s)"
proof (induction s arbitrary: i)
  case (Cons x xs)
  then show ?case by (auto simp: LastIndexByte_None split: option.splits if_splits)
qed simp

lemma IndexByte_append: "c \<notin> set s \<Longrightarrow> IndexByte (s @ c # t) c = Some (length s)"
  by (induction s) auto

subsection \<open>Splitting and joining\<close>

lemma Split_nonempty [simp]: "Split c s \<noteq> []"
  by (cases s) (auto split: list.splits)

lemma Join_Cons: "ws \<noteq> [] \<Longrightarrow> Join (w # ws) sep = w @ sep @ Join ws sep"
  by (cases ws) simp_all

lemma Join_Split: "Join (Split c s) [c] = s"
proof (induction s)
  case (Cons x xs)
  show ?case
  proof (cases "x = c")
    case True
    with Cons show ?thesis by (simp add: Join_Cons)
  next
    case False
    obtain w ws where w: "Split c xs = w # ws" by (cases "Split c xs") auto
    with Cons False show ?thesis by (cases ws) auto
  qed
qed simp

lemma Split_pieces: "w \<in> set (Split c s) \<Longrightarrow> c \<notin> set w"
proof (induction s arbitrary: w)
  case (Cons x xs)
  obtain v vs where v: "Split c xs = v # vs" by (cases "Split c xs") auto
  with Cons show ?case by (auto split: if_splits)
qed simp

lemma Split_append_sep: "Split c (s @ c # t) = Split c s @ Split c t"
proof (induction s)
  case (Cons d s)
  then show ?case by (cases "Split c s") auto
qed simp

lemma Split_no_sep: "c \<notin> set s \<Longrightarrow> Split c s = [s]"
  by (induction s) auto

lemma Split_Join: "ds \<noteq> [] \<Longrightarrow> \<forall>d \<in> set ds. c \<notin> set d \<Longrightarrow> Split c (Join ds [c]) = ds"
proof (induction ds)
  case (Cons d ds)
  then show ?case by (cases "ds = []") (simp_all add: Join_Cons Split_append_sep Split_no_sep)
qed simp

lemma fields_func_pieces:
  "list_all (\<lambda>x. \<not> sep x) acc \<Longrightarrow> f \<in> set (fields_func sep acc s) \<Longrightarrow>
   f \<noteq> [] \<and> list_all (\<lambda>x. \<not> sep x) f"
  by (induction sep acc s rule: fields_func.induct) (auto split: if_splits)

lemma FieldsFunc_pieces:
  "f \<in> set (FieldsFunc s sep) \<Longrightarrow> f \<noteq> [] \<and> list_all (\<lambda>x. \<not> sep x) f"
  unfolding FieldsFunc_def by (rule fields_func_pieces) simp_all

lemma fields_func_no_sep:
  "list_all (\<lambda>x. \<not> sep x) s \<Longrightarrow> acc @ s \<noteq> [] \<Longrightarrow> fields_func sep acc s = [acc @ s]"
  by (induction sep acc s rule: fields_func.induct) auto

lemma fields_func_sep:
  "list_all (\<lambda>x. \<not> sep x) s \<Longrightarrow> sep c \<Longrightarrow>
   fields_func sep acc (s @ c # t) =
     (if acc @ s = [] then [] else [acc @ s]) @ fields_func sep [] t"
  by (induction sep acc s rule: fields_func.induct) auto

lemma Index_append: "Index s sub = Some i \<Longrightarrow> Index (s @ t) sub = Some i"
proof (induction s sub arbitrary: i rule: Index.induct)
  case (1 s sub)
  show ?case
  proof (cases "prefix sub s")
    case True
    with "1.prems" show ?thesis by (simp add: Index.simps [of s sub] Index.simps [of "s @ t" sub])
  next
    case False
    with "1.prems" obtain x u j where s: "s = x # u" and j: "Index u sub = Some j" "i = Suc j"
      by (auto simp: Index.simps [of s sub] split: list.splits)
    from Index_Some [OF j(1)] have "length sub \<le> length s" using s by simp
    with False have "\<not> prefix sub (s @ t)" by (metis prefix_length_prefix prefixI)
    moreover have "Index (u @ t) sub = Some j" using "1.IH" [OF False s j(1)] .
    ultimately show ?thesis by (simp add: Index.simps [of "x # u @ t" sub] s j(2))
  qed
qed

lemma ReplaceAll_skip: "c \<notin> set t \<Longrightarrow> ReplaceAll (t @ r) (c # k) v = t @ ReplaceAll r (c # k) v"
proof (induction t)
  case (Cons x t)
  then show ?case by (simp add: ReplaceAll.simps [of "x # t @ r"])
qed simp

lemma ReplaceAll_hit: "k \<noteq> [] \<Longrightarrow> ReplaceAll (k @ r) k v = v @ ReplaceAll r k v"
proof -
  assume "k \<noteq> []"
  then obtain x k' where k: "k = x # k'" by (cases k) auto
  then have "ReplaceAll (k @ r) k v = v @ ReplaceAll (drop (length k) (k @ r)) k v"
    by (subst ReplaceAll.simps) simp
  then show ?thesis by simp
qed

lemma ReplaceAll_Nil [simp]: "ReplaceAll [] k v = []"
  by (simp add: ReplaceAll.simps)

lemma ReplaceAll_absent: "\<not> sublist old s \<Longrightarrow> ReplaceAll s old new = s"
proof (induction s old new rule: ReplaceAll.induct)
  case (1 s old new)
  then show ?case
    by (auto simp: ReplaceAll.simps [of s old new] sublist_Cons_right split: list.split)
qed

subsection \<open>Numbers\<close>

lemma digit_char_props:
  assumes "d < 10"
  shows "is_digit (digit_char d)" "digit_val (digit_char d) = d"
  using assms by (simp_all add: digit_char_def is_digit_def digit_val_def)

lemma string_of_nat_digits: "list_all is_digit (string_of_nat n)"
proof (induction n rule: string_of_nat.induct)
  case (1 n)
  then show ?case
    by (cases "n < 10") (auto simp: string_of_nat.simps [of n] digit_char_props)
qed

lemma string_of_nat_nonempty [simp]: "string_of_nat n \<noteq> []"
  by (subst string_of_nat.simps) simp

lemma nat_of_digits_string_of_nat [simp]: "nat_of_digits (string_of_nat n) = n"
proof (induction n rule: string_of_nat.induct)
  case (1 n)
  then show ?case
    by (cases "n < 10")
      (auto simp: string_of_nat.simps [of n] nat_of_digits_def digit_char_props)
qed

lemma digits_string_of_nat [simp]: "digits (string_of_nat n) = Some n"
  by (simp add: digits_def string_of_nat_digits)

lemma not_digit [simp]:
  "\<not> is_digit (CHR ''-'')" "\<not> is_digit (CHR ''+'')" "\<not> is_digit (CHR '':'')"
  "\<not> is_digit (CHR '']'')" "\<not> is_digit (CHR ''['')" "\<not> is_digit (CHR ''.'')"
  by (simp_all add: is_digit_def)

lemma string_of_nat_not_mem: "\<not> is_digit c \<Longrightarrow> c \<notin> set (string_of_nat n)"
  using string_of_nat_digits [of n] by (auto simp: list_all_iff)

lemma Itoa_nonempty [simp]: "Itoa i \<noteq> []"
  by (simp add: Itoa_def)

lemma Itoa_not_mem: "\<not> is_digit c \<Longrightarrow> c \<noteq> CHR ''-'' \<Longrightarrow> c \<notin> set (Itoa i)"
  by (auto simp: Itoa_def string_of_nat_not_mem)

lemma Itoa_nonneg_digits: "0 \<le> i \<Longrightarrow> list_all is_digit (Itoa i)"
  by (simp add: Itoa_def string_of_nat_digits)

lemma Atoi_Itoa: "- (2 ^ 63) \<le> i \<Longrightarrow> i < 2 ^ 63 \<Longrightarrow> Atoi (Itoa i) = Some i"
proof (cases "i < 0")
  case False
  assume r: "- (2 ^ 63) \<le> i" "i < 2 ^ 63"
  obtain x xs where x: "string_of_nat (nat i) = x # xs"
    by (cases "string_of_nat (nat i)") auto
  then have "is_digit x" using string_of_nat_digits [of "nat i"] by simp
  then have "x \<noteq> CHR ''-''" "x \<noteq> CHR ''+''" by auto
  moreover have "digits (x # xs) = Some (nat i)" using x digits_string_of_nat [of "nat i"] by simp
  ultimately show ?thesis using False r x by (simp add: Atoi_def Itoa_def)
qed (simp add: Atoi_def Itoa_def)

lemma Itoa_inj: "Itoa i = Itoa j \<Longrightarrow> 0 \<le> i \<Longrightarrow> 0 \<le> j \<Longrightarrow> i = j"
  by (metis Itoa_def digits_string_of_nat nat_eq_iff2 not_less option.inject)

end
