(* ===== verification/GoNet.thy ===== *)
theory GoNet
  imports GoStrings
begin

text \<open>
  The functions of Go's \<^verbatim>\<open>net\<close> package on addresses: textual IP addresses (\<open>ParseIP\<close>,
  \<open>IP_String\<close>), the predicates on \<^verbatim>\<open>net.IP\<close>, and \<open>SplitHostPort\<close>/\<open>JoinHostPort\<close>. An IP is the
  byte list Go keeps, of length 4 or 16; \<^verbatim>\<open>nil\<close> is \<open>None\<close>. Errors of \<open>SplitHostPort\<close> are \<open>None\<close>:
  no caller looks at which error it was.
\<close>

type_synonym ip = "byte list"

section \<open>Definitions\<close>

subsection \<open>IP values\<close>

definition v4InV6Prefix :: "byte list" where
  "v4InV6Prefix = replicate 10 0 @ [0xFF, 0xFF]"

definition IPv4 :: "byte \<Rightarrow> byte \<Rightarrow> byte \<Rightarrow> byte \<Rightarrow> ip" where
  "IPv4 a b c d = v4InV6Prefix @ [a, b, c, d]"

definition To4 :: "ip \<Rightarrow> ip option" where
  "To4 i =
     (if length i = 4 then Some i
      else if length i = 16 \<and> take 12 i = v4InV6Prefix then Some (drop 12 i)
      else None)"

definition IP_Equal :: "ip \<Rightarrow> ip \<Rightarrow> bool" where
  "IP_Equal x y \<longleftrightarrow>
     (if length x = length y then x = y
      else if length x = 4 \<and> length y = 16 then take 12 y = v4InV6Prefix \<and> x = drop 12 y
      else if length x = 16 \<and> length y = 4 then take 12 x = v4InV6Prefix \<and> drop 12 x = y
      else False)"

definition IsLoopback :: "ip \<Rightarrow> bool" where
  "IsLoopback i =
     (case To4 i of
        Some (a # _) \<Rightarrow> a = 127
      | _ \<Rightarrow> IP_Equal i (replicate 15 0 @ [1]))"

definition IsUnspecified :: "ip \<Rightarrow> bool" where
  "IsUnspecified i \<longleftrightarrow> IP_Equal i (IPv4 0 0 0 0) \<or> IP_Equal i (replicate 16 0)"

definition IsMulticast :: "ip \<Rightarrow> bool" where
  "IsMulticast i =
     (case To4 i of
        Some (a # _) \<Rightarrow> a AND 0xF0 = 0xE0
      | _ \<Rightarrow> length i = 16 \<and> hd i = 0xFF)"

subsection \<open>Parsing\<close>

text \<open>The loop of \<^verbatim>\<open>netip.parseIPv4Fields\<close>; \<open>edge\<close> says that the next byte is the first one or
  follows a dot.\<close>

fun parse_ipv4_loop :: "string \<Rightarrow> bool \<Rightarrow> nat \<Rightarrow> nat \<Rightarrow> byte list \<Rightarrow> byte list option" where
  "parse_ipv4_loop [] edge val digLen fs =
     (if length fs < 3 then None else Some (fs @ [of_nat val]))"
| "parse_ipv4_loop (c # cs) edge val digLen fs =
     (if is_digit c then
        (if digLen = 1 \<and> val = 0 then None
         else let v = val * 10 + digit_val c
              in if 255 < v then None else parse_ipv4_loop cs False v (digLen + 1) fs)
      else if c = CHR ''.'' then
        (if edge \<or> cs = [] then None
         else if length fs = 3 then None
         else parse_ipv4_loop cs True 0 0 (fs @ [of_nat val]))
      else None)"

definition parse_ipv4_fields :: "string \<Rightarrow> byte list option" where
  "parse_ipv4_fields s = parse_ipv4_loop s True 0 0 []"

definition hex_val :: "char \<Rightarrow> nat option" where
  "hex_val c =
     (let n = (of_char c :: nat) in
      if 48 \<le> n \<and> n \<le> 57 then Some (n - 48)
      else if 97 \<le> n \<and> n \<le> 102 then Some (n - 87)
      else if 65 \<le> n \<and> n \<le> 70 then Some (n - 55)
      else None)"

definition hex_group :: "string \<Rightarrow> nat" where
  "hex_group s = foldl (\<lambda>a c. 16 * a + the (hex_val c)) 0 s"

text \<open>The loop of \<^verbatim>\<open>netip.parseIPv6\<close>: the rest of the text, the bytes parsed so far, the position
  of the ellipsis.\<close>

function parse_ipv6_loop ::
  "string \<Rightarrow> byte list \<Rightarrow> nat option \<Rightarrow> (byte list \<times> nat option \<times> string) option" where
  "parse_ipv6_loop s bs ell =
     (if 16 \<le> length bs then Some (bs, ell, s)
      else
        let g = takeWhile (\<lambda>c. hex_val c \<noteq> None) s; rest = drop (length g) s in
        if 4 < length g \<or> g = [] then None
        else if rest \<noteq> [] \<and> hd rest = CHR ''.'' then
          (if ell = None \<and> length bs \<noteq> 12 then None
           else if 16 < length bs + 4 then None
           else case parse_ipv4_fields s of
                  None \<Rightarrow> None
                | Some fs \<Rightarrow> Some (bs @ fs, ell, []))
        else
          let bs' = bs @ put_be16 (of_nat (hex_group g)) in
          case rest of
            [] \<Rightarrow> Some (bs', ell, [])
          | c # t \<Rightarrow>
              if c \<noteq> CHR '':'' then None
              else (case t of
                      [] \<Rightarrow> None
                    | d # u \<Rightarrow>
                        if d = CHR '':'' then
                          (if ell \<noteq> None then None
                           else if u = [] then Some (bs', Some (length bs'), [])
                           else parse_ipv6_loop u bs' (Some (length bs')))
                        else parse_ipv6_loop t bs' ell))"
  by pat_completeness auto
termination
proof (relation "measure (\<lambda>(s, bs, ell). length s)", goal_cases)
  case (2 s bs ell g rest bs' c t d u)
  then have "length (c # d # u) \<le> length s" by (metis diff_le_self length_drop)
  then show ?case by simp
next
  case (3 s bs ell g rest bs' c t d u)
  then have "length (c # t) \<le> length s" by (metis diff_le_self length_drop)
  then show ?case by simp
qed simp_all

declare parse_ipv6_loop.simps [simp del]

definition parse_ipv6 :: "string \<Rightarrow> byte list option" where
  "parse_ipv6 s =
     (let (lead, s1) = (if prefix ''::'' s then (True, drop 2 s) else (False, s)) in
      if lead \<and> s1 = [] then Some (replicate 16 0)
      else case parse_ipv6_loop s1 [] (if lead then Some 0 else None) of
             None \<Rightarrow> None
           | Some (bs, ell, rest) \<Rightarrow>
               if rest \<noteq> [] then None
               else if length bs < 16 then
                 (case ell of
                    None \<Rightarrow> None
                  | Some e \<Rightarrow> Some (take e bs @ replicate (16 - length bs) 0 @ drop e bs))
               else if ell \<noteq> None then None
               else Some bs)"

text \<open>\<^verbatim>\<open>net.ParseIP\<close>: the first dot or colon decides the family, an address with a zone is refused.\<close>

definition ParseIP :: "string \<Rightarrow> ip option" where
  "ParseIP s =
     (if CHR ''%'' \<in> set s then None
      else case find (\<lambda>c. c = CHR ''.'' \<or> c = CHR '':'') s of
             None \<Rightarrow> None
           | Some c \<Rightarrow>
               if c = CHR ''.'' then map_option (\<lambda>fs. v4InV6Prefix @ fs) (parse_ipv4_fields s)
               else parse_ipv6 s)"

subsection \<open>Printing\<close>

definition dotted :: "byte list \<Rightarrow> string" where
  "dotted bs = Join (map (\<lambda>b. string_of_nat (unat b)) bs) ''.''"

definition hex_digit :: "nat \<Rightarrow> char" where
  "hex_digit d = (if d < 10 then char_of (48 + d) else char_of (87 + d))"

fun hex_of_nat :: "nat \<Rightarrow> string" where
  "hex_of_nat n =
     (if n < 16 then [hex_digit n] else hex_of_nat (n div 16) @ [hex_digit (n mod 16)])"

declare hex_of_nat.simps [simp del]

fun groups16 :: "byte list \<Rightarrow> u16 list" where
  "groups16 (a # b # r) = get_be16 a b # groups16 r"
| "groups16 _ = []"

definition zero_run :: "u16 list \<Rightarrow> nat \<Rightarrow> nat" where
  "zero_run gs i = length (takeWhile (\<lambda>g. g = 0) (drop i gs))"

text \<open>The longest run of at least two zero groups, the first one when several are as long;
  \<^verbatim>\<open>(255, 255)\<close> when there is none.\<close>

definition best_run :: "u16 list \<Rightarrow> nat \<times> nat" where
  "best_run gs =
     foldl (\<lambda>(st, en) i. let l = zero_run gs i
              in if 2 \<le> l \<and> en - st < l then (i, i + l) else (st, en))
       (255, 255) [0..<8]"

definition ipv6_string :: "byte list \<Rightarrow> string" where
  "ipv6_string bs =
     (let gs = groups16 bs; hx = map (\<lambda>g. hex_of_nat (unat g)); (st, en) = best_run gs in
      if st = 255 then Join (hx gs) '':''
      else Join (hx (take st gs)) '':'' @ ''::'' @ Join (hx (drop en gs)) '':'')"

definition IP_String :: "ip \<Rightarrow> string" where
  "IP_String i =
     (case To4 i of
        Some v4 \<Rightarrow> dotted v4
      | None \<Rightarrow> if length i = 16 then ipv6_string i
                else if i = [] then ''<nil>''
                else CHR ''?'' # concat (map (\<lambda>b. [hex_digit (unat b div 16), hex_digit (unat b mod 16)]) i))"

subsection \<open>Host and port\<close>

definition JoinHostPort :: "string \<Rightarrow> string \<Rightarrow> string" where
  "JoinHostPort host port =
     (if CHR '':'' \<in> set host then ''['' @ host @ '']:'' @ port else host @ '':'' @ port)"

definition SplitHostPort :: "string \<Rightarrow> (string \<times> string) option" where
  "SplitHostPort hp =
     (case LastIndexByte hp (CHR '':'') of
        None \<Rightarrow> None
      | Some i \<Rightarrow>
          let port = drop (i + 1) hp in
          if hd hp = CHR ''['' then
            (case IndexByte hp (CHR '']'') of
               None \<Rightarrow> None
             | Some en \<Rightarrow>
                 if en + 1 \<noteq> i then None
                 else if CHR ''['' \<in> set (drop 1 hp) then None
                 else if CHR '']'' \<in> set (drop (en + 1) hp) then None
                 else Some (take (en - 1) (drop 1 hp), port))
          else
            let host = take i hp in
            if CHR '':'' \<in> set host then None
            else if CHR ''['' \<in> set hp then None
            else if CHR '']'' \<in> set hp then None
            else Some (host, port))"

section \<open>Lemmas\<close>

subsection \<open>IP values\<close>

lemma length_v4InV6Prefix [simp]: "length v4InV6Prefix = 12"
  by (simp add: v4InV6Prefix_def)

lemma To4_IPv4 [simp]: "To4 (IPv4 a b c d) = Some [a, b, c, d]"
  by (simp add: To4_def IPv4_def)

lemma To4_mapped [simp]: "length fs = 4 \<Longrightarrow> To4 (v4InV6Prefix @ fs) = Some fs"
  by (simp add: To4_def)

lemma To4_length: "To4 i = Some v \<Longrightarrow> length v = 4"
  by (auto simp: To4_def split: if_splits)

lemma To4_16: "length i = 16 \<Longrightarrow> To4 i = Some v \<Longrightarrow> i = v4InV6Prefix @ v"
  by (auto simp: To4_def split: if_splits) (metis append_take_drop_id)

lemma parse_ipv4_loop_length:
  "parse_ipv4_loop s edge v dl fs = Some r \<Longrightarrow> length fs \<le> 3 \<Longrightarrow> length r = 4"
  by (induction s edge v dl fs rule: parse_ipv4_loop.induct)
    (auto simp: Let_def split: if_splits)

lemma parse_ipv4_fields_length: "parse_ipv4_fields s = Some r \<Longrightarrow> length r = 4"
  unfolding parse_ipv4_fields_def by (erule parse_ipv4_loop_length) simp

subsection \<open>Dotted quads: printing and parsing back\<close>

lemma string_of_nat_1: "n < 10 \<Longrightarrow> string_of_nat n = [digit_char n]"
  by (subst string_of_nat.simps) simp

lemma string_of_nat_2:
  "10 \<le> n \<Longrightarrow> n < 100 \<Longrightarrow> string_of_nat n = [digit_char (n div 10), digit_char (n mod 10)]"
  by (subst string_of_nat.simps) (simp add: string_of_nat_1)

lemma string_of_nat_3:
  "100 \<le> n \<Longrightarrow> n < 1000 \<Longrightarrow>
   string_of_nat n = [digit_char (n div 100), digit_char (n div 10 mod 10), digit_char (n mod 10)]"
  by (subst string_of_nat.simps) (simp add: string_of_nat_2 div_mult2_eq [symmetric])

lemma parse_ipv4_octet:
  assumes "n < 256"
  shows "parse_ipv4_loop (string_of_nat n @ rest) edge 0 0 fs =
         parse_ipv4_loop rest False n (length (string_of_nat n)) fs"
proof -
  consider "n < 10" | "10 \<le> n" "n < 100" | "100 \<le> n" by linarith
  then show ?thesis
  proof cases
    case 1
    then show ?thesis by (simp add: string_of_nat_1 digit_char_props)
  next
    case 2
    then have "0 < n div 10" "n div 10 < 10" by (auto simp: div_greater_zero_iff)
    with 2 show ?thesis by (simp add: string_of_nat_2 digit_char_props Let_def)
  next
    case 3
    then have a: "0 < n div 100" "n div 100 < 10" using assms by (auto simp: div_greater_zero_iff)
    have b: "n div 100 * 10 + n div 10 mod 10 = n div 10"
      using div_mult_mod_eq [of "n div 10" 10] by (simp add: div_mult2_eq [symmetric])
    have c: "n div 10 * 10 + n mod 10 = n" by (rule div_mult_mod_eq)
    have "n div 10 \<le> 25" using assms by auto
    with 3 a b c assms show ?thesis
      by (simp add: string_of_nat_3 digit_char_props Let_def)
  qed
qed

lemma parse_dotted:
  "parse_ipv4_fields (dotted [a, b, c, d]) = Some [a, b, c, d]"
proof -
  have lt: "unat x < 256" for x :: byte using unsigned_less [of x, where ?'a = nat] by simp
  have ne: "string_of_nat (unat x) @ y \<noteq> []" for x :: byte and y by simp
  show ?thesis
    using parse_ipv4_octet [OF lt [of d], of "[]"]
    by (simp add: parse_ipv4_fields_def dotted_def parse_ipv4_octet lt del: append_is_Nil_conv add: ne)
qed

lemma find_dotted:
  "find (\<lambda>x. x = CHR ''.'' \<or> x = CHR '':'') (dotted [a, b, c, d]) = Some (CHR ''.'')"
proof -
  have "find P (xs @ y # ys) = Some y" if "list_all (\<lambda>x. \<not> P x) xs" "P y" for P xs and y :: char and ys
    using that by (induction xs) auto
  moreover have "list_all (\<lambda>x. \<not> (x = CHR ''.'' \<or> x = CHR '':'')) (string_of_nat n)" for n
    using string_of_nat_digits [of n] by (auto simp: list_all_iff)
  ultimately show ?thesis by (simp add: dotted_def)
qed

lemma dotted_not_mem: "\<not> is_digit x \<Longrightarrow> x \<noteq> CHR ''.'' \<Longrightarrow> x \<notin> set (dotted [a, b, c, d])"
  by (simp add: dotted_def string_of_nat_not_mem)

lemma ParseIP_dotted: "ParseIP (dotted [a, b, c, d]) = Some (IPv4 a b c d)"
proof -
  have "CHR ''%'' \<notin> set (dotted [a, b, c, d])"
    by (rule dotted_not_mem) (simp_all add: is_digit_def)
  then show ?thesis by (simp add: ParseIP_def find_dotted parse_dotted IPv4_def)
qed

lemma IP_String_IPv4 [simp]: "IP_String (IPv4 a b c d) = dotted [a, b, c, d]"
  by (simp add: IP_String_def)

lemma ParseIP_String_of_v4:
  assumes "To4 i = Some v" "length i = 16"
  shows "ParseIP (IP_String i) = Some i"
proof -
  from assms(1) have "length v = 4" by (rule To4_length)
  then obtain a b c d where v: "v = [a, b, c, d]"
    by (auto simp: length_Suc_conv numeral_eq_Suc)
  from To4_16 [OF assms(2,1)] v have "i = IPv4 a b c d" by (simp add: IPv4_def)
  then show ?thesis by (simp add: ParseIP_dotted)
qed

text \<open>Every address \<^verbatim>\<open>ParseIP\<close> accepts is kept in 16 bytes.\<close>

lemma parse_ipv6_loop_length:
  "parse_ipv6_loop s bs ell = Some (r, ell', rest) \<Longrightarrow> even (length bs) \<Longrightarrow> length bs \<le> 16 \<Longrightarrow>
   (case ell of None \<Rightarrow> True | Some e \<Rightarrow> e \<le> length bs) \<Longrightarrow>
   length r \<le> 16 \<and> (case ell' of None \<Rightarrow> True | Some e \<Rightarrow> e \<le> length r)"
proof (induction s bs ell rule: parse_ipv6_loop.induct)
  case (1 s bs ell)
  show ?case
  proof (cases "16 \<le> length bs")
    case True
    with "1.prems" show ?thesis by (auto simp: parse_ipv6_loop.simps [of s bs ell])
  next
    case False
    with "1.prems"(2) have len: "length bs + 2 \<le> 16" by presburger
    define g where "g = takeWhile (\<lambda>c. hex_val c \<noteq> None) s"
    define rest' where "rest' = drop (length g) s"
    define bs' where "bs' = bs @ put_be16 (of_nat (hex_group g))"
    note unf = parse_ipv6_loop.simps [of s bs ell, folded g_def, unfolded Let_def,
        folded rest'_def bs'_def]
    have len': "length bs' = length bs + 2" by (simp add: bs'_def)
    from "1.prems"(1) False have g: "\<not> (4 < length g \<or> g = [])"
      by (simp add: unf split: if_splits)
    show ?thesis
    proof (cases "rest' \<noteq> [] \<and> hd rest' = CHR ''.''")
      case True
      with "1.prems" False g obtain fs where
        "parse_ipv4_fields s = Some fs" "length bs + 4 \<le> 16" "r = bs @ fs" "ell' = ell"
        by (auto simp: unf split: if_splits option.splits)
      with "1.prems"(4) show ?thesis
        by (auto dest!: parse_ipv4_fields_length split: option.splits)
    next
      case dot: False
      note IH = "1.IH" [OF False g_def rest'_def g dot bs'_def]
      show ?thesis
      proof (cases rest')
        case Nil
        with "1.prems" False g dot len len' show ?thesis
          by (auto simp: unf split: option.splits)
      next
        case (Cons c t)
        with "1.prems"(1) False g dot have c: "c = CHR '':''" and "t \<noteq> []"
          by (auto simp: unf split: if_splits)
        then obtain d u where t: "t = d # u" by (cases t) auto
        show ?thesis
        proof (cases "d = CHR '':''")
          case d: True
          with "1.prems"(1) False g dot Cons c t have
            *: "ell = None" "u = [] \<longrightarrow> r = bs' \<and> ell' = Some (length bs')"
              "u \<noteq> [] \<longrightarrow> parse_ipv6_loop u bs' (Some (length bs')) = Some (r, ell', rest)"
            by (auto simp: unf split: if_splits)
          show ?thesis
          proof (cases "u = []")
            case True
            with * len len' show ?thesis by simp
          next
            case False
            with * IH(1) [OF Cons _ t d _ False] c len len' "1.prems"(2) show ?thesis by simp
          qed
        next
          case d: False
          with "1.prems"(1) False g dot Cons c t have
            "parse_ipv6_loop t bs' ell = Some (r, ell', rest)"
            by (auto simp: unf split: if_splits)
          with IH(2) [OF Cons _ t d] c len len' "1.prems"(2,4) show ?thesis
            by (auto split: option.splits)
        qed
      qed
    qed
  qed
qed

lemma parse_ipv6_length: "parse_ipv6 s = Some r \<Longrightarrow> length r = 16"
  by (auto simp: parse_ipv6_def Let_def split: if_splits option.splits
      dest!: parse_ipv6_loop_length)

lemma ParseIP_length: "ParseIP s = Some i \<Longrightarrow> length i = 16"
  by (auto simp: ParseIP_def parse_ipv6_length dest: parse_ipv4_fields_length
      split: if_splits option.splits)

subsection \<open>Host and port\<close>

lemma SplitHostPort_JoinHostPort:
  assumes host: "CHR ''['' \<notin> set host" "CHR '']'' \<notin> set host"
    and port: "CHR '':'' \<notin> set port" "CHR ''['' \<notin> set port" "CHR '']'' \<notin> set port"
  shows "SplitHostPort (JoinHostPort host port) = Some (host, port)"
proof (cases "CHR '':'' \<in> set host")
  case True
  have last: "LastIndexByte (CHR ''['' # host @ CHR '']'' # CHR '':'' # port) (CHR '':'') =
        Some (length host + 2)"
    using LastIndexByte_append [OF port(1), of "CHR ''['' # host @ '']''"] by simp
  have rb: "IndexByte (host @ CHR '']'' # CHR '':'' # port) (CHR '']'') = Some (length host)"
    using IndexByte_append [OF host(2)] by simp
  show ?thesis
    using True host port
    by (simp add: JoinHostPort_def SplitHostPort_def last rb del: LastIndexByte.simps)
next
  case False
  have last: "LastIndexByte (host @ CHR '':'' # port) (CHR '':'') = Some (length host)"
    using LastIndexByte_append [OF port(1)] by simp
  have "hd (host @ CHR '':'' # port) \<noteq> CHR ''[''"
    using host(1) by (cases host) auto
  with False host port show ?thesis by (simp add: JoinHostPort_def SplitHostPort_def last)
qed

lemma SplitHostPort_Itoa:
  "CHR ''['' \<notin> set host \<Longrightarrow> CHR '']'' \<notin> set host \<Longrightarrow>
   SplitHostPort (JoinHostPort host (Itoa n)) = Some (host, Itoa n)"
  by (rule SplitHostPort_JoinHostPort) (simp_all add: Itoa_not_mem)

end
