(* ===== verification/Socks5.thy ===== *)
theory Socks5
  imports GoNet
begin

text \<open>
  The SOCKS5 server of \<^verbatim>\<open>internal/socks5/socks5.go\<close> (RFC 1928 with RFC 1929 user/password) and
  the SOCKS5 client of \<^verbatim>\<open>internal/api/socksclient.go\<close>. Both are functions on the connection of the
  prelude: they consume its input, append to its output, and return Go's error or the result.
  The abstract side is the grammar of a client's byte stream (\<open>request\<close>, \<open>encode_request\<close>);
  the handshake accepts exactly the streams of that grammar, and the client speaks it.
\<close>

section \<open>Definitions\<close>

subsection \<open>Constants and errors\<close>

definition socks5Version :: byte where "socks5Version = 0x05"
definition cmdConnect :: byte where "cmdConnect = 0x01"
definition addrIPv4 :: byte where "addrIPv4 = 0x01"
definition addrDomain :: byte where "addrDomain = 0x03"
definition addrIPv6 :: byte where "addrIPv6 = 0x04"
definition repSuccess :: byte where "repSuccess = 0x00"
definition repHostUnreachable :: byte where "repHostUnreachable = 0x04"
definition repCmdNotSupported :: byte where "repCmdNotSupported = 0x07"
definition repAddrNotSupported :: byte where "repAddrNotSupported = 0x08"
definition authNone :: byte where "authNone = 0x00"
definition authPassword :: byte where "authPassword = 0x02"
definition authVersion :: byte where "authVersion = 0x01"

lemmas socks_consts = socks5Version_def cmdConnect_def addrIPv4_def addrDomain_def addrIPv6_def
  repSuccess_def repHostUnreachable_def repCmdNotSupported_def repAddrNotSupported_def
  authNone_def authPassword_def authVersion_def

datatype socks_error =
    SocksIO io_error
  | UnsupportedSocksVersion byte
  | InvalidMethodsLength
  | UnsupportedUserPassVersion byte
  | InvalidUsernameLength
  | BadRequestVersion byte
  | UnsupportedCommand byte
  | EmptyDomain
  | UnsupportedAddressType byte

text \<open>\<^verbatim>\<open>io.ReadFull(c, buf[:n])\<close> and \<^verbatim>\<open>c.Write\<close> with the error passed on.\<close>

definition rd :: "nat \<Rightarrow> conn \<Rightarrow> (socks_error + byte list) \<times> conn" where
  "rd n c = (case read_full n c of (Inl e, c') \<Rightarrow> (Inl (SocksIO e), c') | (Inr b, c') \<Rightarrow> (Inr b, c'))"

definition wr :: "byte list \<Rightarrow> conn \<Rightarrow> (socks_error + unit) \<times> conn" where
  "wr bs c = (case write_all bs c of (Inl e, c') \<Rightarrow> (Inl (SocksIO e), c') | (Inr u, c') \<Rightarrow> (Inr u, c'))"

subsection \<open>The server\<close>

definition reply :: "byte \<Rightarrow> conn \<Rightarrow> conn" where
  "reply rep c = snd (write_all [0x05, rep, 0x00, 0x01, 0, 0, 0, 0, 0, 0] c)"

text \<open>RFC 1929 sub-negotiation: any credentials are accepted.\<close>

definition auth_userpass :: "conn \<Rightarrow> (socks_error + unit) \<times> conn" where
  "auth_userpass c =
     bind_io (rd 2 c) (\<lambda>b c.
       if b ! 0 \<noteq> authVersion then (Inl (UnsupportedUserPassVersion (b ! 0)), c)
       else let ulen = unat (b ! 1) in
         if ulen \<le> 0 \<or> 255 < ulen then (Inl InvalidUsernameLength, c)
         else bind_io (rd ulen c) (\<lambda>_ c.
           bind_io (rd 1 c) (\<lambda>b c.
             let plen = unat (b ! 0) in
             bind_io (if 0 < plen then rd plen c else (Inr [], c)) (\<lambda>_ c.
               wr [authVersion, 0x00] c))))"

definition read_methods :: "conn \<Rightarrow> (socks_error + byte list) \<times> conn" where
  "read_methods c =
     bind_io (rd 2 c) (\<lambda>b c.
       if b ! 0 \<noteq> socks5Version then (Inl (UnsupportedSocksVersion (b ! 0)), c)
       else let nmethods = unat (b ! 1) in
         if nmethods < 1 \<or> 255 < nmethods then (Inl InvalidMethodsLength, c)
         else rd nmethods c)"

definition negotiate :: "byte list \<Rightarrow> conn \<Rightarrow> (socks_error + unit) \<times> conn" where
  "negotiate ms c =
     (if authPassword \<in> set ms
      then bind_io (wr [0x05, authPassword] c) (\<lambda>_ c. auth_userpass c)
      else wr [0x05, authNone] c)"

definition read_dest :: "byte \<Rightarrow> conn \<Rightarrow> (socks_error + string) \<times> conn" where
  "read_dest atyp c =
     (if atyp = addrIPv4 then
        bind_io (rd 4 c) (\<lambda>b c. (Inr (IP_String (IPv4 (b ! 0) (b ! 1) (b ! 2) (b ! 3))), c))
      else if atyp = addrDomain then
        bind_io (rd 1 c) (\<lambda>b c.
          let l = unat (b ! 0) in
          if l \<le> 0 then (Inl EmptyDomain, c)
          else bind_io (rd l c) (\<lambda>b c. (Inr (string_of b), c)))
      else if atyp = addrIPv6 then
        bind_io (rd 16 c) (\<lambda>b c. (Inr (IP_String b), c))
      else (Inl (UnsupportedAddressType atyp), reply repAddrNotSupported c))"

definition read_request :: "conn \<Rightarrow> (socks_error + string) \<times> conn" where
  "read_request c =
     bind_io (rd 4 c) (\<lambda>b c.
       if b ! 0 \<noteq> socks5Version then (Inl (BadRequestVersion (b ! 0)), c)
       else if b ! 1 \<noteq> cmdConnect then
         (Inl (UnsupportedCommand (b ! 1)), reply repCmdNotSupported c)
       else bind_io (read_dest (b ! 3) c) (\<lambda>host c.
         bind_io (rd 2 c) (\<lambda>b c.
           let port = unat (b ! 0) * 256 + unat (b ! 1) in
           (Inr (JoinHostPort host (Itoa (int port))), c))))"

definition handshake :: "conn \<Rightarrow> (socks_error + string) \<times> conn" where
  "handshake c =
     bind_io (read_methods c) (\<lambda>ms c.
       bind_io (negotiate ms c) (\<lambda>_ c. read_request c))"

text \<open>
  \<^verbatim>\<open>Server.handle\<close> up to the point where the two connections are piped: the handshake failed,
  the dialer (a parameter, the tunnel in the daemon) refused the target, or the relay starts with
  the target, the client's connection and the remote one. The deferred \<^verbatim>\<open>Close\<close> calls of the
  failing paths are part of the result.
\<close>

datatype handle_outcome =
    Rejected socks_error conn
  | Unreachable string conn
  | Relaying string conn conn

definition handle_conn :: "(string \<Rightarrow> conn option) \<Rightarrow> conn \<Rightarrow> handle_outcome" where
  "handle_conn dialer c =
     (case handshake c of
        (Inl e, c) \<Rightarrow> Rejected e (close_conn c)
      | (Inr target, c) \<Rightarrow>
          (case dialer target of
             None \<Rightarrow> Unreachable target (close_conn (reply repHostUnreachable c))
           | Some remote \<Rightarrow> Relaying target (reply repSuccess c) remote))"

subsection \<open>The client\<close>

datatype client_error =
    DialProxy
  | HandshakeWrite | HandshakeRead | HandshakeRejected byte
  | ConnectWrite | ResponseHeader | ConnectRejected byte
  | ReadBoundAddr | ReadDomainLen | UnsupportedBoundAddr byte

text \<open>Each failing step closes the connection and returns its own error.\<close>

definition step_or_close ::
  "client_error \<Rightarrow> (io_error + 'a) \<times> conn \<Rightarrow> (client_error + 'a) \<times> conn" where
  "step_or_close err r = (case r of (Inl _, c) \<Rightarrow> (Inl err, close_conn c) | (Inr a, c) \<Rightarrow> (Inr a, c))"

definition connect_request :: "string \<Rightarrow> int \<Rightarrow> byte list" where
  "connect_request host port =
     [0x05, 0x01, 0x00, 0x03, of_nat (length host)] @ bytes_of host @ put_be16 (of_int port)"

definition read_bound_addr :: "byte \<Rightarrow> conn \<Rightarrow> (client_error + unit) \<times> conn" where
  "read_bound_addr atyp c =
     (if atyp = 0x01 then
        bind_io (step_or_close ReadBoundAddr (read_full 6 c)) (\<lambda>_ c. (Inr (), c))
      else if atyp = 0x03 then
        bind_io (step_or_close ReadDomainLen (read_full 1 c)) (\<lambda>b c.
          bind_io (step_or_close ReadBoundAddr (read_full (unat (b ! 0) + 2) c))
            (\<lambda>_ c. (Inr (), c)))
      else if atyp = 0x04 then
        bind_io (step_or_close ReadBoundAddr (read_full 18 c)) (\<lambda>_ c. (Inr (), c))
      else (Inl (UnsupportedBoundAddr atyp), close_conn c))"

definition client_exchange :: "string \<Rightarrow> int \<Rightarrow> conn \<Rightarrow> (client_error + unit) \<times> conn" where
  "client_exchange host port c =
     bind_io (step_or_close HandshakeWrite (write_all [0x05, 0x01, 0x00] c)) (\<lambda>_ c.
     bind_io (step_or_close HandshakeRead (read_full 2 c)) (\<lambda>b c.
       if b ! 0 \<noteq> 0x05 \<or> b ! 1 \<noteq> 0x00 then (Inl (HandshakeRejected (b ! 1)), close_conn c)
       else
     bind_io (step_or_close ConnectWrite (write_all (connect_request host port) c)) (\<lambda>_ c.
     bind_io (step_or_close ResponseHeader (read_full 4 c)) (\<lambda>r c.
       if r ! 0 \<noteq> 0x05 \<or> r ! 1 \<noteq> 0x00 then (Inl (ConnectRejected (r ! 1)), close_conn c)
       else read_bound_addr (r ! 3) c))))"

definition socks5Connect ::
  "(string \<Rightarrow> conn option) \<Rightarrow> string \<Rightarrow> string \<Rightarrow> int \<Rightarrow> client_error + conn" where
  "socks5Connect dial proxyAddr host port =
     (case dial proxyAddr of
        None \<Rightarrow> Inl DialProxy
      | Some c \<Rightarrow>
          (case client_exchange host port c of
             (Inl e, _) \<Rightarrow> Inl e
           | (Inr _, c) \<Rightarrow> Inr c))"

subsection \<open>The grammar of a client's stream\<close>

datatype dest = D4 byte byte byte byte | DName "byte list" | D6 "byte list"

record request =
  methods :: "byte list"
  creds :: "(byte list \<times> byte list) option"
  rsv :: byte
  dst :: dest
  dport :: u16

fun wf_dest :: "dest \<Rightarrow> bool" where
  "wf_dest (D4 _ _ _ _) = True"
| "wf_dest (DName n) = (n \<noteq> [] \<and> length n < 256)"
| "wf_dest (D6 a) = (length a = 16)"

fun wf_creds :: "(byte list \<times> byte list) option \<Rightarrow> bool" where
  "wf_creds None = True"
| "wf_creds (Some (u, p)) = (u \<noteq> [] \<and> length u < 256 \<and> length p < 256)"

definition wf_request :: "request \<Rightarrow> bool" where
  "wf_request r \<longleftrightarrow> methods r \<noteq> [] \<and> length (methods r) < 256 \<and> wf_creds (creds r) \<and>
     (creds r \<noteq> None \<longleftrightarrow> authPassword \<in> set (methods r)) \<and> wf_dest (dst r)"

fun encode_dest :: "dest \<Rightarrow> byte list" where
  "encode_dest (D4 a b c d) = [addrIPv4, a, b, c, d]"
| "encode_dest (DName n) = [addrDomain, of_nat (length n)] @ n"
| "encode_dest (D6 a) = addrIPv6 # a"

fun encode_creds :: "(byte list \<times> byte list) option \<Rightarrow> byte list" where
  "encode_creds None = []"
| "encode_creds (Some (u, p)) =
     [authVersion, of_nat (length u)] @ u @ [of_nat (length p)] @ p"

definition encode_request :: "request \<Rightarrow> byte list" where
  "encode_request r =
     [socks5Version, of_nat (length (methods r))] @ methods r @ encode_creds (creds r) @
     [socks5Version, cmdConnect, rsv r] @ encode_dest (dst r) @ put_be16 (dport r)"

fun dest_host :: "dest \<Rightarrow> string" where
  "dest_host (D4 a b c d) = IP_String (IPv4 a b c d)"
| "dest_host (DName n) = string_of n"
| "dest_host (D6 a) = IP_String a"

definition request_target :: "request \<Rightarrow> string" where
  "request_target r = JoinHostPort (dest_host (dst r)) (Itoa (int (unat (dport r))))"

text \<open>What the server answers before the request: the method, and the sub-negotiation's status.\<close>

definition server_answer :: "request \<Rightarrow> byte list" where
  "server_answer r =
     (if creds r = None then [0x05, authNone] else [0x05, authPassword, authVersion, 0x00])"

definition server_writes :: "request \<Rightarrow> nat" where
  "server_writes r = (if creds r = None then 1 else 2)"

section \<open>Lemmas\<close>

subsection \<open>Stages of the handshake as relations on the input\<close>

lemma byte_len_iff: "unat (b :: byte) = n \<longleftrightarrow> n < 256 \<and> b = of_nat n"
proof
  assume "unat b = n"
  then show "n < 256 \<and> b = of_nat n" using unsigned_less [of b, where ?'a = nat] by auto
next
  assume "n < 256 \<and> b = of_nat n"
  then show "unat b = n" by (simp add: unat_of_nat)
qed

lemma rd_Inr_iff:
  "rd n c = (Inr b, c') \<longleftrightarrow> (\<exists>rest. length b = n \<and> inp c = b @ rest \<and> c' = c\<lparr>inp := rest\<rparr>)"
  by (auto simp: rd_def read_full_def) (metis append_take_drop_id)

lemma rd_append: "inp c = bs @ rest \<Longrightarrow> length bs = n \<Longrightarrow> rd n c = (Inr bs, c\<lparr>inp := rest\<rparr>)"
  by (simp add: rd_Inr_iff)

lemma wr_Inr_iff:
  "wr bs c = (Inr u, c') \<longleftrightarrow>
   0 < writes_left c \<and> c' = c\<lparr>outp := outp c @ bs, writes_left := writes_left c - 1\<rparr>"
  by (auto simp: wr_def write_all_def split: nat.splits)

lemma bind_io_Inr_iff:
  "bind_io r k = (Inr b, c') \<longleftrightarrow> (\<exists>a c. r = (Inr a, c) \<and> k a c = (Inr b, c'))"
  by (auto simp: bind_io_def split: prod.splits sum.splits)

lemma length_2_iff: "length xs = 2 \<longleftrightarrow> (\<exists>a b. xs = [a, b])"
  by (auto simp: numeral_2_eq_2 length_Suc_conv)

lemma length_4_iff: "length xs = 4 \<longleftrightarrow> (\<exists>a b c d. xs = [a, b, c, d])"
  by (auto simp: numeral_eq_Suc length_Suc_conv)

lemma length_1_iff: "length xs = Suc 0 \<longleftrightarrow> (\<exists>a. xs = [a])"
  by (auto simp: length_Suc_conv)

lemmas stage_simps = rd_Inr_iff wr_Inr_iff bind_io_Inr_iff length_2_iff length_4_iff length_1_iff

lemma read_methods_iff:
  "read_methods c = (Inr ms, c') \<longleftrightarrow>
   (\<exists>rest. ms \<noteq> [] \<and> length ms < 256 \<and>
      inp c = [socks5Version, of_nat (length ms)] @ ms @ rest \<and> c' = c\<lparr>inp := rest\<rparr>)"
    (is "?L \<longleftrightarrow> ?R")
proof
  assume ?L
  then show ?R
    by (auto simp: read_methods_def stage_simps Let_def byte_len_iff split: if_splits)
next
  assume ?R
  then obtain rest where r: "ms \<noteq> []" "length ms < 256"
      "inp c = socks5Version # of_nat (length ms) # ms @ rest" "c' = c\<lparr>inp := rest\<rparr>" by auto
  have "unat (of_nat (length ms) :: byte) = length ms" using r(2) by (simp add: byte_len_iff)
  moreover have "rd 2 c = (Inr [socks5Version, of_nat (length ms)], c\<lparr>inp := ms @ rest\<rparr>)"
    using r(3) by (simp add: rd_Inr_iff)
  moreover have "rd (length ms) (c\<lparr>inp := ms @ rest\<rparr>) = (Inr ms, c\<lparr>inp := rest\<rparr>)"
    by (simp add: rd_Inr_iff)
  ultimately show ?L using r by (simp add: read_methods_def Let_def Suc_le_eq)
qed

lemma auth_userpass_iff:
  "auth_userpass c = (Inr x, c') \<longleftrightarrow>
   (\<exists>u p rest. u \<noteq> [] \<and> length u < 256 \<and> length p < 256 \<and> 0 < writes_left c \<and>
      inp c = encode_creds (Some (u, p)) @ rest \<and>
      c' = c\<lparr>inp := rest, outp := outp c @ [authVersion, 0], writes_left := writes_left c - 1\<rparr>)"
    (is "?L \<longleftrightarrow> ?R")
proof
  assume ?L
  then obtain v l u pl p rest c1 where *: "v = authVersion" "unat l \<noteq> 0" "length u = unat l"
      "length p = unat pl" "inp c = [v, l] @ u @ [pl] @ p @ rest" "0 < writes_left c"
      "c' = c\<lparr>inp := rest, outp := outp c @ [authVersion, 0], writes_left := writes_left c - 1\<rparr>"
    by (auto simp: auth_userpass_def stage_simps Let_def split: if_splits)
  then have "l = of_nat (length u)" "length u < 256" "pl = of_nat (length p)" "length p < 256"
    using byte_len_iff [of l "length u"] byte_len_iff [of pl "length p"] by simp_all
  moreover have "u \<noteq> []" using *(2,3) by auto
  ultimately show ?R using *(1,5-7)
    by (intro exI [of _ u] exI [of _ p] exI [of _ rest]) simp
next
  assume ?R
  then obtain u p rest where *: "u \<noteq> []" "length u < 256" "length p < 256" "0 < writes_left c"
      "inp c = authVersion # of_nat (length u) # u @ of_nat (length p) # p @ rest"
      "c' = c\<lparr>inp := rest, outp := outp c @ [authVersion, 0], writes_left := writes_left c - 1\<rparr>"
    by auto
  have l: "unat (of_nat (length u) :: byte) = length u" "unat (of_nat (length p) :: byte) = length p"
    using *(2,3) by (simp_all add: byte_len_iff)
  let ?c1 = "c\<lparr>inp := p @ rest\<rparr>"
  have "rd 2 c = (Inr [authVersion, of_nat (length u)], c\<lparr>inp := u @ of_nat (length p) # p @ rest\<rparr>)"
    by (rule rd_append) (simp_all add: *(5))
  moreover have "rd (length u) (c\<lparr>inp := u @ of_nat (length p) # p @ rest\<rparr>) =
      (Inr u, c\<lparr>inp := of_nat (length p) # p @ rest\<rparr>)"
    by (subst rd_append [of _ u "of_nat (length p) # p @ rest"]) simp_all
  moreover have "rd 1 (c\<lparr>inp := of_nat (length p) # p @ rest\<rparr>) = (Inr [of_nat (length p)], ?c1)"
    by (subst rd_append [of _ "[of_nat (length p)]" "p @ rest"]) simp_all
  moreover have "p \<noteq> [] \<Longrightarrow> rd (length p) ?c1 = (Inr p, c\<lparr>inp := rest\<rparr>)"
    by (simp add: rd_append [of _ p rest])
  moreover have "wr [authVersion, 0] (c\<lparr>inp := rest\<rparr>) = (Inr x, c')"
    using *(4,6) by (simp add: wr_Inr_iff)
  ultimately show ?L
    using *(1,2) l by (auto simp: auth_userpass_def Let_def)
qed

lemma negotiate_iff:
  "negotiate ms c = (Inr x, c') \<longleftrightarrow>
   (\<exists>cr rest. wf_creds cr \<and> (cr \<noteq> None \<longleftrightarrow> authPassword \<in> set ms) \<and>
      (if cr = None then 1 else 2) \<le> writes_left c \<and> inp c = encode_creds cr @ rest \<and>
      c' = c\<lparr>inp := rest,
             outp := outp c @ (if cr = None then [5, authNone] else [5, authPassword, authVersion, 0]),
             writes_left := writes_left c - (if cr = None then 1 else 2)\<rparr>)" (is "?L \<longleftrightarrow> ?R")
proof (cases "authPassword \<in> set ms")
  case True
  let ?c1 = "c\<lparr>outp := outp c @ [5, authPassword], writes_left := writes_left c - 1\<rparr>"
  have L: "?L \<longleftrightarrow> 0 < writes_left c \<and> auth_userpass ?c1 = (Inr x, c')"
    using True by (simp add: negotiate_def bind_io_Inr_iff wr_Inr_iff)
  show ?thesis
  proof
    assume ?L
    then obtain u p rest where *: "u \<noteq> []" "length u < 256" "length p < 256" "1 < writes_left c"
        "inp c = encode_creds (Some (u, p)) @ rest"
        "c' = c\<lparr>inp := rest, outp := outp c @ [5, authPassword, authVersion, 0],
               writes_left := writes_left c - 2\<rparr>"
      unfolding L auth_userpass_iff by (auto simp: numeral_2_eq_2)
    with True show ?R by (intro exI [of _ "Some (u, p)"] exI [of _ rest]) auto
  next
    assume ?R
    with True obtain u p rest where *: "u \<noteq> []" "length u < 256" "length p < 256"
        "2 \<le> writes_left c" "inp c = encode_creds (Some (u, p)) @ rest"
        "c' = c\<lparr>inp := rest, outp := outp c @ [5, authPassword, authVersion, 0],
               writes_left := writes_left c - 2\<rparr>"
      by (auto split: if_splits)
    then show ?L unfolding L auth_userpass_iff
      by (intro conjI exI [of _ u] exI [of _ p] exI [of _ rest]) (auto simp: numeral_2_eq_2)
  qed
next
  case False
  then show ?thesis
    by (auto simp: negotiate_def wr_Inr_iff Suc_le_eq)
qed

lemma read_dest_iff:
  "read_dest atyp c = (Inr h, c') \<longleftrightarrow>
   (\<exists>d rest. wf_dest d \<and> atyp # inp c = encode_dest d @ rest \<and> h = dest_host d \<and>
      c' = c\<lparr>inp := rest\<rparr>)" (is "?L \<longleftrightarrow> ?R")
proof
  assume ?L
  then consider (v4) "atyp = addrIPv4" | (name) "atyp = addrDomain" | (v6) "atyp = addrIPv6"
    by (auto simp: read_dest_def split: if_splits)
  then show ?R
  proof cases
    case v4
    with \<open>?L\<close> obtain a b d e rest where "inp c = [a, b, d, e] @ rest" "c' = c\<lparr>inp := rest\<rparr>"
        "h = IP_String (IPv4 a b d e)"
      by (auto simp: read_dest_def stage_simps)
    with v4 show ?thesis by (intro exI [of _ "D4 a b d e"] exI [of _ rest]) simp
  next
    case name
    with \<open>?L\<close> obtain l n rest where *: "unat l \<noteq> 0" "length n = unat l"
        "inp c = l # n @ rest" "c' = c\<lparr>inp := rest\<rparr>" "h = string_of n"
      by (auto simp: read_dest_def stage_simps socks_consts Let_def split: if_splits)
    then have "l = of_nat (length n)" "length n < 256"
      using byte_len_iff [of l "length n"] by simp_all
    moreover have "n \<noteq> []" using *(1,2) by auto
    ultimately show ?thesis using name *(3-5)
      by (intro exI [of _ "DName n"] exI [of _ rest]) simp
  next
    case v6
    with \<open>?L\<close> obtain n rest where "length n = 16" "inp c = n @ rest" "c' = c\<lparr>inp := rest\<rparr>"
        "h = IP_String n"
      by (auto simp: read_dest_def stage_simps socks_consts)
    with v6 show ?thesis by (intro exI [of _ "D6 n"] exI [of _ rest]) simp
  qed
next
  assume ?R
  then obtain d rest where d: "wf_dest d" "atyp # inp c = encode_dest d @ rest" "h = dest_host d"
      "c' = c\<lparr>inp := rest\<rparr>" by auto
  show ?L
  proof (cases d)
    case (D4 x1 x2 x3 x4)
    with d have "rd 4 c = (Inr [x1, x2, x3, x4], c\<lparr>inp := rest\<rparr>)" by (intro rd_append) simp_all
    with d D4 show ?thesis by (simp add: read_dest_def)
  next
    case (DName n)
    with d have l: "unat (of_nat (length n) :: byte) = length n" by (simp add: byte_len_iff)
    from d DName have "rd 1 c = (Inr [of_nat (length n)], c\<lparr>inp := n @ rest\<rparr>)"
      by (intro rd_append) simp_all
    moreover have "rd (length n) (c\<lparr>inp := n @ rest\<rparr>) = (Inr n, c\<lparr>inp := rest\<rparr>)"
      by (subst rd_append [of _ n rest]) simp_all
    ultimately show ?thesis
      using d DName l by (simp add: read_dest_def Let_def socks_consts)
  next
    case (D6 a)
    with d have "rd 16 c = (Inr a, c\<lparr>inp := rest\<rparr>)" by (intro rd_append) simp_all
    with d D6 show ?thesis by (simp add: read_dest_def socks_consts)
  qed
qed

lemma port_get_be16: "unat hi * 256 + unat lo = unat (get_be16 hi lo)"
  by (simp add: unat_get_be16)

lemma read_request_iff:
  "read_request c = (Inr t, c') \<longleftrightarrow>
   (\<exists>v d port rest. wf_dest d \<and>
      inp c = [socks5Version, cmdConnect, v] @ encode_dest d @ put_be16 port @ rest \<and>
      t = JoinHostPort (dest_host d) (Itoa (int (unat port))) \<and> c' = c\<lparr>inp := rest\<rparr>)"
    (is "?L \<longleftrightarrow> ?R")
proof
  assume ?L
  then obtain v atyp rest h c1 hi lo rest2 where
      1: "inp c = [socks5Version, cmdConnect, v, atyp] @ rest"
    and 2: "read_dest atyp (c\<lparr>inp := rest\<rparr>) = (Inr h, c1)"
    and 3: "inp c1 = [hi, lo] @ rest2" "c' = c1\<lparr>inp := rest2\<rparr>"
      "t = JoinHostPort h (Itoa (int (unat hi * 256 + unat lo)))"
    by (auto simp: read_request_def stage_simps split: if_splits)
  from 2 obtain d rest1 where d: "wf_dest d" "atyp # rest = encode_dest d @ rest1"
      "h = dest_host d" "c1 = c\<lparr>inp := rest1\<rparr>"
    by (auto simp: read_dest_iff)
  from 3 d(4) have p: "rest1 = [hi, lo] @ rest2" "c' = c\<lparr>inp := rest2\<rparr>" by simp_all
  show ?R
    using 1 d p 3(3)
    by (intro exI [of _ v] exI [of _ d] exI [of _ "get_be16 hi lo"] exI [of _ rest2])
      (simp add: port_get_be16 del: of_nat_add of_nat_mult)
next
  assume ?R
  then obtain v d port rest where d: "wf_dest d"
      "inp c = [socks5Version, cmdConnect, v] @ encode_dest d @ put_be16 port @ rest"
      "t = JoinHostPort (dest_host d) (Itoa (int (unat port)))" "c' = c\<lparr>inp := rest\<rparr>" by auto
  obtain atyp tl where e: "encode_dest d = atyp # tl" by (cases d) auto
  have rdst: "read_dest atyp (c\<lparr>inp := tl @ put_be16 port @ rest\<rparr>) =
      (Inr (dest_host d), c\<lparr>inp := put_be16 port @ rest\<rparr>)"
    using d(1) e by (auto simp: read_dest_iff)
  have "rd 4 c = (Inr [socks5Version, cmdConnect, v, atyp], c\<lparr>inp := tl @ put_be16 port @ rest\<rparr>)"
    using d(2) e by (auto simp: rd_Inr_iff)
  moreover have "rd 2 (c\<lparr>inp := put_be16 port @ rest\<rparr>) = (Inr (put_be16 port), c\<lparr>inp := rest\<rparr>)"
    by (auto simp: rd_Inr_iff)
  moreover have "unat (put_be16 port ! 0) * 256 + unat (put_be16 port ! 1) = unat port"
    by (simp add: put_be16_def port_get_be16)
  ultimately show ?L
    using d(3,4) rdst by (simp add: read_request_def Let_def del: of_nat_add of_nat_mult)
qed

lemma handshake_iff:
  "handshake c = (Inr t, c') \<longleftrightarrow>
   (\<exists>r rest. wf_request r \<and> inp c = encode_request r @ rest \<and> server_writes r \<le> writes_left c \<and>
      t = request_target r \<and>
      c' = c\<lparr>inp := rest, outp := outp c @ server_answer r,
             writes_left := writes_left c - server_writes r\<rparr>)" (is "?L \<longleftrightarrow> ?R")
proof
  assume ?L
  then obtain ms c1 x c2 where 1: "read_methods c = (Inr ms, c1)" "negotiate ms c1 = (Inr x, c2)"
      "read_request c2 = (Inr t, c')"
    by (auto simp: handshake_def bind_io_Inr_iff)
  from 1(1) obtain rest1 where m: "ms \<noteq> []" "length ms < 256"
      "inp c = [socks5Version, of_nat (length ms)] @ ms @ rest1" "c1 = c\<lparr>inp := rest1\<rparr>"
    by (auto simp: read_methods_iff)
  from 1(2) m(4) obtain cr rest2 where n: "wf_creds cr" "cr \<noteq> None \<longleftrightarrow> authPassword \<in> set ms"
      "(if cr = None then 1 else 2) \<le> writes_left c" "rest1 = encode_creds cr @ rest2"
      "c2 = c\<lparr>inp := rest2,
             outp := outp c @ (if cr = None then [5, authNone] else [5, authPassword, authVersion, 0]),
             writes_left := writes_left c - (if cr = None then 1 else 2)\<rparr>"
    unfolding negotiate_iff by auto
  from 1(3) n(5) obtain v d port rest where q: "wf_dest d"
      "rest2 = [socks5Version, cmdConnect, v] @ encode_dest d @ put_be16 port @ rest"
      "t = JoinHostPort (dest_host d) (Itoa (int (unat port)))" "c' = c2\<lparr>inp := rest\<rparr>"
    unfolding read_request_iff by auto
  let ?r = "\<lparr>methods = ms, creds = cr, rsv = v, dst = d, dport = port\<rparr>"
  show ?R
    using m n q
    by (intro exI [of _ ?r] exI [of _ rest])
      (simp add: wf_request_def encode_request_def server_writes_def server_answer_def
        request_target_def)
next
  assume ?R
  then obtain r rest where r: "wf_request r" "inp c = encode_request r @ rest"
      "server_writes r \<le> writes_left c" "t = request_target r"
      "c' = c\<lparr>inp := rest, outp := outp c @ server_answer r,
             writes_left := writes_left c - server_writes r\<rparr>" by auto
  let ?req = "[socks5Version, cmdConnect, rsv r] @ encode_dest (dst r) @ put_be16 (dport r) @ rest"
  let ?c1 = "c\<lparr>inp := encode_creds (creds r) @ ?req\<rparr>"
  let ?c2 = "c\<lparr>inp := ?req, outp := outp c @ server_answer r,
             writes_left := writes_left c - server_writes r\<rparr>"
  have "read_methods c = (Inr (methods r), ?c1)"
    using r(1,2) by (simp add: read_methods_iff wf_request_def encode_request_def)
  moreover have "negotiate (methods r) ?c1 = (Inr (), ?c2)"
    unfolding negotiate_iff using r(1,3)
    by (intro exI [of _ "creds r"] exI [of _ ?req])
      (simp add: wf_request_def server_writes_def server_answer_def)
  moreover have "read_request ?c2 = (Inr t, c')"
    unfolding read_request_iff using r(1,4,5)
    by (intro exI [of _ "rsv r"] exI [of _ "dst r"] exI [of _ "dport r"] exI [of _ rest])
      (simp add: wf_request_def request_target_def)
  ultimately show ?L by (simp add: handshake_def)
qed

subsection \<open>The client\<close>

lemma step_or_close_Inl:
  "step_or_close err r = (Inl e, c') \<Longrightarrow> closed c'"
  by (auto simp: step_or_close_def close_conn_def split: prod.splits sum.splits)

lemma step_or_close_Inr [simp]: "step_or_close err (Inr a, c) = (Inr a, c)"
  by (simp add: step_or_close_def)

lemma bind_io_Inl_cases:
  assumes "bind_io r k = (Inl e, c')"
  obtains "r = (Inl e, c')" | a c where "r = (Inr a, c)" "k a c = (Inl e, c')"
  using assms by (auto simp: bind_io_def split: prod.splits sum.splits)

lemma read_bound_addr_closes: "read_bound_addr atyp c = (Inl e, c') \<Longrightarrow> closed c'"
  unfolding read_bound_addr_def
  by (auto split: if_splits elim!: bind_io_Inl_cases dest: step_or_close_Inl
      simp: close_conn_def)

text \<open>The client reads exactly an IPv4 success reply, which is what \<open>reply\<close> sends.\<close>

lemma client_accepts_reply:
  assumes "inp c = [0x05, 0x00] @ [0x05, 0x00, 0x00, 0x01, 0, 0, 0, 0, 0, 0] @ rest"
    and "2 \<le> writes_left c"
  shows "client_exchange host port c =
    (Inr (), c\<lparr>inp := rest, outp := outp c @ [0x05, 0x01, 0x00] @ connect_request host port,
               writes_left := writes_left c - 2\<rparr>)"
  using assms
  by (simp add: client_exchange_def read_bound_addr_def write_all_ok read_full_ok Let_def
      step_or_close_def numeral_2_eq_2)

text \<open>The client's stream is in the grammar: no authentication, a domain name.\<close>

definition client_request :: "string \<Rightarrow> int \<Rightarrow> request" where
  "client_request host port =
     \<lparr>methods = [0], creds = None, rsv = 0, dst = DName (bytes_of host), dport = of_int port\<rparr>"

lemma encode_client_request:
  "encode_request (client_request host port) = [0x05, 0x01, 0x00] @ connect_request host port"
  by (simp add: encode_request_def client_request_def connect_request_def socks_consts)

lemma creds_client_request [simp]: "creds (client_request host port) = None"
  by (simp add: client_request_def)

lemma wf_client_request:
  "host \<noteq> [] \<Longrightarrow> length host < 256 \<Longrightarrow> wf_request (client_request host port)"
  by (simp add: wf_request_def client_request_def socks_consts bytes_of_def)

lemma target_client_request:
  assumes "0 \<le> port" "port < 65536"
  shows "request_target (client_request host port) = JoinHostPort host (Itoa port)"
proof -
  have "uint (of_int port :: u16) = port"
    using assms by (simp add: uint_word_of_int)
  then show ?thesis by (simp add: request_target_def client_request_def)
qed

section \<open>Properties\<close>

text \<open>C1. The handshake accepts exactly the byte streams of the SOCKS5 grammar: it returns a target
  if and only if the input starts with the encoding of a well-formed request (a non-empty method
  list, credentials exactly when the password method is offered, a CONNECT to an IPv4, a non-empty
  domain name or an IPv6 address) and the answers can be written. The target is the requested host
  and port, exactly the request is consumed, and exactly the method answer (and the
  sub-negotiation status) is written.\<close>

theorem handshake_accepts_exactly_grammar:
  "handshake c = (Inr t, c') \<longleftrightarrow>
   (\<exists>r rest. wf_request r \<and> inp c = encode_request r @ rest \<and> server_writes r \<le> writes_left c \<and>
      t = request_target r \<and>
      c' = c\<lparr>inp := rest, outp := outp c @ server_answer r,
             writes_left := writes_left c - server_writes r\<rparr>)"
  by (rule handshake_iff)

text \<open>C18. The API's SOCKS5 client and the daemon's SOCKS5 server understand each other: for a host
  of 1 to 255 bytes and a 16-bit port, the server fed with the client's bytes dials exactly
  \<open>host:port\<close>, and its answers make the client succeed, each side having read all that the other
  one sent.\<close>

theorem socks_client_server_interop:
  assumes host: "host \<noteq> []" "length host < 256" and port: "0 \<le> port" "port < 65536"
    and dial: "dialer (JoinHostPort host (Itoa port)) = Some remote"
    and srv: "inp srv = [0x05, 0x01, 0x00] @ connect_request host port" "outp srv = []"
      "2 \<le> writes_left srv"
    and cli: "outp cli = []" "2 \<le> writes_left cli"
      "\<And>t c' r. handle_conn dialer srv = Relaying t c' r \<Longrightarrow> inp cli = outp c'"
  shows "\<exists>srv' cli'.
      handle_conn dialer srv = Relaying (JoinHostPort host (Itoa port)) srv' remote \<and>
      client_exchange host port cli = (Inr (), cli') \<and>
      inp srv' = [] \<and> inp cli' = [] \<and> outp cli' = inp srv"
proof -
  let ?r = "client_request host port"
  let ?c = "srv\<lparr>inp := [], outp := [0x05, 0x00], writes_left := writes_left srv - 1\<rparr>"
  have "handshake srv = (Inr (JoinHostPort host (Itoa port)), ?c)"
    unfolding handshake_iff
    using wf_client_request [OF host, of port] target_client_request [OF port, of host] srv
    by (intro exI [of _ ?r] exI [of _ "[]"])
      (simp add: encode_client_request server_writes_def server_answer_def authNone_def)
  moreover have "reply repSuccess ?c = ?c\<lparr>outp := [0x05, 0x00, 0x05, 0, 0, 1, 0, 0, 0, 0, 0, 0],
      writes_left := writes_left srv - 2\<rparr>"
    using srv(3) by (simp add: reply_def write_all_ok repSuccess_def numeral_2_eq_2)
  ultimately have h: "handle_conn dialer srv =
      Relaying (JoinHostPort host (Itoa port)) (?c\<lparr>outp := [0x05, 0x00, 0x05, 0, 0, 1, 0, 0, 0, 0, 0, 0],
        writes_left := writes_left srv - 2\<rparr>) remote"
    by (simp add: handle_conn_def dial)
  from cli(3) [OF h] have "inp cli = [0x05, 0x00] @ [0x05, 0x00, 0x00, 0x01, 0, 0, 0, 0, 0, 0] @ []"
    by simp
  from client_accepts_reply [OF this cli(2)] h srv(1) cli(1) show ?thesis by simp
qed

definition interop_srv :: conn where
  "interop_srv = \<lparr>inp = [0x05, 0x01, 0x00] @ connect_request ''google.com'' 80, outp = [],
     writes_left = 2, closed = False\<rparr>"

definition interop_cli :: conn where
  "interop_cli = \<lparr>inp = [0x05, 0x00, 0x05, 0x00, 0x00, 0x01, 0, 0, 0, 0, 0, 0], outp = [],
     writes_left = 2, closed = False\<rparr>"

lemma interop_srv_run:
  "handle_conn (\<lambda>_. Some interop_cli) interop_srv = Relaying t c' r \<Longrightarrow> inp interop_cli = outp c'"
proof -
  have "handshake interop_srv = (Inr (JoinHostPort ''google.com'' (Itoa 80)),
      interop_srv\<lparr>inp := [], outp := [0x05, 0x00], writes_left := 1\<rparr>)"
    unfolding handshake_iff
    using wf_client_request [of "''google.com''" 80] target_client_request [of 80 "''google.com''"]
    by (intro exI [of _ "client_request ''google.com'' 80"] exI [of _ "[]"])
      (simp add: encode_client_request server_writes_def server_answer_def authNone_def
        interop_srv_def)
  then show "handle_conn (\<lambda>_. Some interop_cli) interop_srv = Relaying t c' r \<Longrightarrow>
      inp interop_cli = outp c'"
    by (auto simp: handle_conn_def reply_def write_all_ok repSuccess_def interop_cli_def)
qed

theorem socks_client_server_interop_witness:
  "\<exists>srv' cli'.
      handle_conn (\<lambda>_. Some interop_cli) interop_srv =
        Relaying (JoinHostPort ''google.com'' (Itoa 80)) srv' interop_cli \<and>
      client_exchange ''google.com'' 80 interop_cli = (Inr (), cli') \<and>
      inp srv' = [] \<and> inp cli' = [] \<and> outp cli' = inp interop_srv"
proof (rule socks_client_server_interop)
  show "inp interop_srv = [0x05, 0x01, 0x00] @ connect_request ''google.com'' 80"
    "outp interop_srv = []" "2 \<le> writes_left interop_srv"
    "outp interop_cli = []" "2 \<le> writes_left interop_cli"
    by (simp_all add: interop_srv_def interop_cli_def)
  show "handle_conn (\<lambda>_. Some interop_cli) interop_srv = Relaying t c' r \<Longrightarrow>
      inp interop_cli = outp c'" for t c' r by (rule interop_srv_run)
qed simp_all

text \<open>\<open>handle\<close> never leaks the client's connection and never relays unasked: when the handshake
  or the dial fails the connection is closed, a refused dial is answered with "host unreachable"
  (while writes are possible), and a relay starts only for the target the handshake returned, on the
  connection the dialer gave for it, after the success reply.\<close>

theorem handle_conn_outcomes:
  "case handle_conn dialer c of
     Rejected e c' \<Rightarrow> closed c' \<and> fst (handshake c) = Inl e
   | Unreachable t c' \<Rightarrow>
       closed c' \<and> fst (handshake c) = Inr t \<and> dialer t = None \<and>
       outp c' = outp (snd (handshake c)) @
         (if writes_left (snd (handshake c)) = 0 then [] else [5, 4, 0, 1, 0, 0, 0, 0, 0, 0])
   | Relaying t c' r \<Rightarrow>
       fst (handshake c) = Inr t \<and> dialer t = Some r \<and>
       outp c' = outp (snd (handshake c)) @
         (if writes_left (snd (handshake c)) = 0 then [] else [5, 0, 0, 1, 0, 0, 0, 0, 0, 0])"
  by (auto simp: handle_conn_def reply_def close_conn_def write_all_def socks_consts
      split: prod.splits sum.splits option.splits nat.splits)

text \<open>The API's SOCKS5 client closes the proxy connection on every error path.\<close>

theorem client_closes_on_error:
  "client_exchange host port c = (Inl e, c') \<Longrightarrow> closed c'"
  unfolding client_exchange_def
  by (auto split: if_splits elim!: bind_io_Inl_cases simp: close_conn_def)
    (erule step_or_close_Inl read_bound_addr_closes)+

definition refused_cli :: conn where
  "refused_cli = \<lparr>inp = [0x05, 0xFF], outp = [], writes_left = 2, closed = False\<rparr>"

lemma refused_cli_run:
  "client_exchange ''google.com'' 80 refused_cli =
   (Inl (HandshakeRejected 0xFF),
    refused_cli\<lparr>inp := [], outp := [5, 1, 0], writes_left := 1, closed := True\<rparr>)"
  by (simp add: client_exchange_def write_all_ok read_full_ok step_or_close_def close_conn_def
      refused_cli_def)

theorem client_closes_on_error_witness:
  "\<exists>c'. client_exchange ''google.com'' 80 refused_cli = (Inl (HandshakeRejected 0xFF), c') \<and>
     closed c'"
  using refused_cli_run client_closes_on_error [OF refused_cli_run] by blast

end
