(* ===== verification/Tunnel.thy ===== *)
theory Tunnel
  imports GoStrings
begin

text \<open>
  \<^verbatim>\<open>internal/tunnel/tunnel.go\<close>: the SSH client wrapper (stream counter, keepalive loop), the
  stream retry, the error classification, the copy buffer size, \<^verbatim>\<open>writeAll\<close> and the reconnect
  delay. The SSH library is a parameter: a keepalive probe is an event with its result, a dial is a
  function from the attempt to an error message or a channel. The relay loop \<^verbatim>\<open>PipeBoth\<close> is in the
  theory \<open>Relay\<close>.
\<close>

section \<open>Definitions\<close>

subsection \<open>Client\<close>

text \<open>The counter is a Go \<^verbatim>\<open>int32\<close> updated atomically, so it wraps.\<close>

record client =
  active :: "32 word"
  cancelled :: bool
  ssh_closed :: bool

definition NewClient :: client where
  "NewClient = \<lparr>active = 0, cancelled = False, ssh_closed = False\<rparr>"

definition Add :: "client \<Rightarrow> client" where
  "Add c = c\<lparr>active := active c + 1\<rparr>"

definition Remove :: "client \<Rightarrow> client" where
  "Remove c = c\<lparr>active := active c - 1\<rparr>"

definition Active :: "client \<Rightarrow> int" where
  "Active c = sint (active c)"

definition Close :: "client \<Rightarrow> client" where
  "Close c = c\<lparr>cancelled := True, ssh_closed := True\<rparr>"

subsection \<open>Keepalive\<close>

text \<open>
  One event of the loop: the context is done, or the ticker fires and the probe gets an answer, an
  error, or no answer within 5 seconds.
\<close>

datatype probe = ProbeOk | ProbeErr | ProbeTimeout

datatype ka_event = CtxDone | Tick probe

datatype ka_outcome = KA_Running nat | KA_Stopped | KA_Closed | KA_Panic

definition keepalive_period :: "int \<Rightarrow> duration" where
  "keepalive_period sec = wrap64 ((if sec \<le> 0 then 15 else sec) * second)"

fun keepalive_loop :: "nat \<Rightarrow> ka_event list \<Rightarrow> ka_outcome" where
  "keepalive_loop missed [] = KA_Running missed"
| "keepalive_loop missed (CtxDone # es) = KA_Stopped"
| "keepalive_loop missed (Tick ProbeOk # es) = keepalive_loop 0 es"
| "keepalive_loop missed (Tick ProbeErr # es) =
     (if missed + 1 \<ge> 3 then KA_Closed else keepalive_loop (missed + 1) es)"
| "keepalive_loop missed (Tick ProbeTimeout # es) =
     (if missed + 1 \<ge> 3 then KA_Closed else keepalive_loop (missed + 1) es)"

text \<open>\<^verbatim>\<open>time.NewTicker\<close> panics on a period that is not positive.\<close>

definition keepAlive :: "int \<Rightarrow> ka_event list \<Rightarrow> ka_outcome" where
  "keepAlive sec es = (if keepalive_period sec \<le> 0 then KA_Panic else keepalive_loop 0 es)"

subsection \<open>Stream retry\<close>

definition isStreamRetryable :: "string \<Rightarrow> bool" where
  "isStreamRetryable s \<longleftrightarrow>
     Contains s ''connect failed'' \<or> Contains s ''Connection refused'' \<or>
     Contains s ''Connection timed out'' \<or>
     Contains s ''Temporary failure in name resolution'' \<or> Contains s ''no route to host''"

text \<open>\<open>dial k\<close> is the outcome of the \<open>k\<close>-th \<^verbatim>\<open>DialTCP\<close>; the second component of the result lists the
  sleeps, so the number of dials is one more than its length.\<close>

fun retry_loop ::
  "(nat \<Rightarrow> string + 'c) \<Rightarrow> string \<Rightarrow> nat list \<Rightarrow> (string + 'c) \<times> duration list" where
  "retry_loop dial err [] = (Inl err, [])"
| "retry_loop dial err (attempt # as) =
     (let nap = int (attempt * 300) * millisecond in
      case dial attempt of
        Inr remote \<Rightarrow> (Inr remote, [nap])
      | Inl err' \<Rightarrow>
          if \<not> isStreamRetryable err' then (Inl err', [nap])
          else (case retry_loop dial err' as of (r, naps) \<Rightarrow> (r, nap # naps)))"

definition DialStreamWithRetry :: "(nat \<Rightarrow> string + 'c) \<Rightarrow> (string + 'c) \<times> duration list" where
  "DialStreamWithRetry dial =
     (case dial 0 of
        Inr remote \<Rightarrow> (Inr remote, [])
      | Inl err \<Rightarrow>
          if \<not> isStreamRetryable err then (Inl err, [])
          else retry_loop dial err [1, 2])"

subsection \<open>Error classification\<close>

text \<open>An error is its message, \<open>None\<close> is \<^verbatim>\<open>nil\<close>.\<close>

definition IsTransportError :: "string option \<Rightarrow> bool" where
  "IsTransportError err =
     (case err of
        None \<Rightarrow> False
      | Some e \<Rightarrow>
          (let s = ToLower e in
           Contains s ''bad record mac'' \<or> Contains s ''error decoding message'' \<or>
           Contains s ''use of closed network connection'' \<or> Contains s ''eof'' \<or>
           Contains s ''packet too large'' \<or> Contains s ''invalid packet length''))"

definition ClassifyDisconnect :: "string option \<Rightarrow> string" where
  "ClassifyDisconnect err =
     (case err of
        None \<Rightarrow> ''clean close''
      | Some s \<Rightarrow>
          if Contains s ''EOF'' \<or> Contains s ''eof'' then ''remote closed (SSH server)''
          else if Contains s ''timeout'' \<or> Contains s ''i/o timeout'' then ''network timeout''
          else if Contains s ''reset'' \<or> Contains s ''broken pipe'' then ''network reset''
          else if Contains s ''use of closed network connection''
            then ''keepalive timeout (connection dead)''
          else if Contains s ''unexpected packet'' \<or> Contains s ''bad record mac''
            then ''transport corruption''
          else s)"

subsection \<open>Buffers and writes\<close>

definition DefaultCopyBufferSize :: int where
  "DefaultCopyBufferSize = 128 * 1024"

definition MaxCopyBufferSize :: int where
  "MaxCopyBufferSize = 512 * 1024"

definition NormalizeBufferSize :: "int \<Rightarrow> int" where
  "NormalizeBufferSize n0 =
     (let n1 = (if n0 \<le> 0 then DefaultCopyBufferSize else n0);
          n2 = (if n1 < 32 * 1024 then 32 * 1024 else n1);
          n3 = (if n2 > MaxCopyBufferSize then MaxCopyBufferSize else n2);
          q = 32 * 1024 in
      ((n3 + q - 1) div q) * q)"

datatype write_err = WriteErr | ShortWrite

text \<open>
  \<open>wput w b\<close> is \<^verbatim>\<open>w.Write(b)\<close>: how many bytes were taken, whether it returned an error, and the
  writer afterwards.
\<close>

function writeAll ::
  "('w \<Rightarrow> byte list \<Rightarrow> nat \<times> bool \<times> 'w) \<Rightarrow> nat \<Rightarrow> 'w \<Rightarrow> byte list
     \<Rightarrow> nat \<times> write_err option \<times> 'w" where
  "writeAll wput tot w b =
     (if b = [] then (tot, None, w)
      else case wput w b of
        (n, err, w') \<Rightarrow>
          if err then (tot + n, Some WriteErr, w')
          else if n = 0 then (tot + n, Some ShortWrite, w')
          else writeAll wput (tot + n) w' (drop n b))"
  by pat_completeness auto
termination
  by (relation "measure (\<lambda>(_, _, _, b). length b)") auto

declare writeAll.simps [simp del]

text \<open>What \<^verbatim>\<open>io.Writer\<close> documents of a call: at most \<open>length b\<close> bytes are taken, and they are the
  first ones of \<open>b\<close>, delivered after what was sent before.\<close>

definition writer_ok ::
  "('w \<Rightarrow> byte list \<Rightarrow> nat \<times> bool \<times> 'w) \<Rightarrow> ('w \<Rightarrow> byte list) \<Rightarrow> bool" where
  "writer_ok wput sent \<longleftrightarrow>
     (\<forall>w b. case wput w b of (n, err, w') \<Rightarrow> n \<le> length b \<and> sent w' = sent w @ take n b)"

subsection \<open>Delay\<close>

definition NextDelay :: "duration \<Rightarrow> duration \<Rightarrow> duration \<Rightarrow> duration" where
  "NextDelay cur base mx =
     (if cur \<le> 0 then base
      else let cur' = wrap64 (cur * 2) in if cur' > mx then mx else cur')"

section \<open>Lemmas\<close>

subsection \<open>Backoff\<close>

lemma NextDelay_double:
  "0 < cur \<Longrightarrow> cur < 2 ^ 62 \<Longrightarrow> NextDelay cur base mx = min (2 * cur) mx"
  by (simp add: NextDelay_def Let_def min_def mult.commute)

interpretation reconnect: backoff "\<lambda>d. NextDelay d second (30 * second)" second "30 * second"
  by unfold_locales (auto simp: second_def NextDelay_double)

lemma NextDelay_first: "NextDelay 0 base mx = base"
  by (simp add: NextDelay_def)

subsection \<open>Keepalive\<close>

text \<open>The specification of the loop: three failures in a row before the context is done.\<close>

fun failed :: "ka_event \<Rightarrow> bool" where
  "failed (Tick ProbeOk) = False"
| "failed (Tick ProbeErr) = True"
| "failed (Tick ProbeTimeout) = True"
| "failed CtxDone = False"

definition three_in_a_row :: "ka_event list \<Rightarrow> bool" where
  "three_in_a_row es \<longleftrightarrow>
     (\<exists>pre a b c post. es = pre @ [a, b, c] @ post \<and> CtxDone \<notin> set pre \<and> failed a \<and> failed b \<and> failed c)"

lemma keepalive_loop_failed:
  "failed e \<Longrightarrow>
   keepalive_loop m (e # es) = (if m + 1 \<ge> 3 then KA_Closed else keepalive_loop (m + 1) es)"
  by (cases e rule: failed.cases) auto

lemma not_failed_cases: "\<not> failed e \<Longrightarrow> e = CtxDone \<or> e = Tick ProbeOk"
  by (cases e rule: failed.cases) auto

lemma three_in_a_row_Nil [simp]: "\<not> three_in_a_row []"
  by (simp add: three_in_a_row_def)

lemma three_in_a_row_CtxDone [simp]: "\<not> three_in_a_row (CtxDone # es)"
  by (auto simp: three_in_a_row_def Cons_eq_append_conv)

lemma three_in_a_row_Cons:
  "e \<noteq> CtxDone \<Longrightarrow> three_in_a_row (e # es) \<longleftrightarrow>
     (failed e \<and> (\<exists>b c post. es = b # c # post \<and> failed b \<and> failed c)) \<or> three_in_a_row es"
proof (intro iffI; (elim disjE conjE exE)?)
  assume ne: "e \<noteq> CtxDone"
  {
    assume "three_in_a_row (e # es)"
    then obtain pre a b c post where *: "e # es = pre @ [a, b, c] @ post" "CtxDone \<notin> set pre"
      "failed a" "failed b" "failed c"
      unfolding three_in_a_row_def by blast
    then show "(failed e \<and> (\<exists>b c post. es = b # c # post \<and> failed b \<and> failed c)) \<or> three_in_a_row es"
    proof (cases pre)
      case (Cons p pre')
      with * have "es = pre' @ [a, b, c] @ post" "CtxDone \<notin> set pre'" by simp_all
      with * show ?thesis unfolding three_in_a_row_def by blast
    qed auto
  next
    fix b c post
    assume "failed e" "es = b # c # post" "failed b" "failed c"
    then have "e # es = [] @ [e, b, c] @ post \<and> CtxDone \<notin> set [] \<and> failed e \<and> failed b \<and> failed c"
      by simp
    then show "three_in_a_row (e # es)" unfolding three_in_a_row_def by blast
  next
    assume "three_in_a_row es"
    then obtain pre a b c post where *: "es = pre @ [a, b, c] @ post" "CtxDone \<notin> set pre"
      "failed a" "failed b" "failed c"
      unfolding three_in_a_row_def by blast
    with ne have "e # es = (e # pre) @ [a, b, c] @ post \<and> CtxDone \<notin> set (e # pre) \<and>
        failed a \<and> failed b \<and> failed c"
      by simp
    then show "three_in_a_row (e # es)" unfolding three_in_a_row_def by blast
  }
qed

definition starts_failed :: "nat \<Rightarrow> ka_event list \<Rightarrow> bool" where
  "starts_failed k es \<longleftrightarrow> k \<le> length es \<and> list_all failed (take k es)"

lemma starts_failed_simps [simp]:
  "starts_failed 0 es"
  "\<not> starts_failed (Suc k) []"
  "starts_failed (Suc k) (e # es) \<longleftrightarrow> failed e \<and> starts_failed k es"
  by (auto simp: starts_failed_def)

lemma starts_failed_less: "starts_failed k es \<Longrightarrow> j \<le> k \<Longrightarrow> starts_failed j es"
proof (induction k arbitrary: j es)
  case (Suc k)
  then show ?case by (cases j; cases es) auto
qed simp

lemma three_in_a_row_step:
  "e \<noteq> CtxDone \<Longrightarrow> three_in_a_row (e # es) \<longleftrightarrow> starts_failed 3 (e # es) \<or> three_in_a_row es"
proof -
  have "starts_failed 3 (e # es) \<longleftrightarrow> failed e \<and> (\<exists>b c post. es = b # c # post \<and> failed b \<and> failed c)"
    by (cases es; cases "tl es") (auto simp: numeral_3_eq_3)
  then show "e \<noteq> CtxDone \<Longrightarrow> ?thesis" using three_in_a_row_Cons [of e es] by blast
qed

lemma starts_failed_three: "starts_failed 3 es \<Longrightarrow> three_in_a_row es"
proof (cases es)
  case (Cons e es')
  assume "starts_failed 3 es"
  moreover from this Cons have "e \<noteq> CtxDone" by (auto simp: numeral_3_eq_3)
  ultimately show ?thesis using Cons by (simp add: three_in_a_row_step)
qed (simp add: numeral_3_eq_3)

lemma keepalive_loop_closed:
  "m < 3 \<Longrightarrow> keepalive_loop m es = KA_Closed \<longleftrightarrow> starts_failed (3 - m) es \<or> three_in_a_row es"
proof (induction es arbitrary: m)
  case Nil
  then show ?case by (cases "3 - m") auto
next
  case (Cons e es)
  obtain k where k: "3 - m = Suc k" using Cons.prems by (cases "3 - m") auto
  show ?case
  proof (cases "failed e")
    case True
    then have ne: "e \<noteq> CtxDone" by auto
    have two: "starts_failed 3 (e # es) \<longleftrightarrow> starts_failed 2 es" using True by (simp add: numeral_3_eq_3 numeral_2_eq_2)
    show ?thesis
    proof (cases "m = 2")
      case m2: True
      then show ?thesis using True by (simp add: keepalive_loop_failed)
    next
      case False
      then have "keepalive_loop m (e # es) = keepalive_loop (m + 1) es" "m + 1 < 3"
        using True Cons.prems by (simp_all add: keepalive_loop_failed)
      moreover have "3 - (m + 1) = k" "k \<le> 2" using k by simp_all
      ultimately show ?thesis
        using Cons.IH [of "m + 1"] True ne k two
          starts_failed_less [of 2 es k] by (auto simp: three_in_a_row_step)
    qed
  next
    case False
    then consider "e = CtxDone" | "e = Tick ProbeOk" using not_failed_cases by blast
    then show ?thesis
    proof cases
      case 2
      then show ?thesis
        using Cons.IH [of 0] starts_failed_three [of es] k by (auto simp: three_in_a_row_step numeral_3_eq_3)
    qed (simp add: k)
  qed
qed

lemma keepalive_period_pos: "sec \<le> 9000000000 \<Longrightarrow> 0 < keepalive_period sec"
  by (simp add: keepalive_period_def second_def)

subsection \<open>Retry\<close>

lemma DialStream_cases:
  obtains (first) "DialStreamWithRetry dial = (dial 0, [])"
      "case dial 0 of Inl e \<Rightarrow> \<not> isStreamRetryable e | Inr _ \<Rightarrow> True"
    | (second) e where "dial 0 = Inl e" "isStreamRetryable e"
      "DialStreamWithRetry dial = (dial 1, [300 * millisecond])"
      "case dial 1 of Inl e \<Rightarrow> \<not> isStreamRetryable e | Inr _ \<Rightarrow> True"
    | (third) e e' where "dial 0 = Inl e" "isStreamRetryable e" "dial 1 = Inl e'" "isStreamRetryable e'"
      "DialStreamWithRetry dial = (dial 2, [300 * millisecond, 600 * millisecond])"
proof (cases "dial 0")
  case d0: (Inl e)
  show ?thesis
  proof (cases "isStreamRetryable e")
    case r0: True
    show ?thesis
    proof (cases "dial 1")
      case d1: (Inl e')
      show ?thesis
      proof (cases "isStreamRetryable e'")
        case True
        then have "DialStreamWithRetry dial = (dial 2, [300 * millisecond, 600 * millisecond])"
          using d0 r0 d1 by (simp add: DialStreamWithRetry_def Let_def split: sum.split)
        with d0 r0 d1 True show ?thesis by (intro third)
      next
        case False
        then show ?thesis
          using d0 r0 d1 by (intro second [of e]) (simp_all add: DialStreamWithRetry_def)
      qed
    next
      case (Inr c)
      then show ?thesis using d0 r0 by (intro second [of e]) (simp_all add: DialStreamWithRetry_def)
    qed
  next
    case False
    then show ?thesis using d0 by (intro first) (simp_all add: DialStreamWithRetry_def)
  qed
next
  case (Inr c)
  then show ?thesis by (intro first) (simp_all add: DialStreamWithRetry_def)
qed

subsection \<open>Writes\<close>

lemma writer_okD:
  "writer_ok wput sent \<Longrightarrow> wput w b = (n, err, w') \<Longrightarrow> n \<le> length b \<and> sent w' = sent w @ take n b"
  unfolding writer_ok_def by (metis (mono_tags, lifting) case_prod_conv)

lemma writeAll_sent:
  assumes "writer_ok wput sent" "writeAll wput t w b = (n, e, w')"
  shows "t \<le> n \<and> n \<le> t + length b \<and> sent w' = sent w @ take (n - t) b \<and>
         (e = None \<longrightarrow> n = t + length b)"
  using assms
proof (induction wput t w b arbitrary: n e w' rule: writeAll.induct)
  case (1 wput t w b)
  obtain k err w1 where wr: "wput w b = (k, err, w1)" by (cases "wput w b")
  note ok = writer_okD [OF 1(2) wr]
  show ?case
  proof (cases "b = [] \<or> err \<or> k = 0")
    case True
    then show ?thesis
      using 1(3) ok by (auto simp: writeAll.simps [of wput t w b] wr split: if_splits)
  next
    case False
    then have "writeAll wput (t + k) w1 (drop k b) = (n, e, w')"
      using 1(3) by (simp add: writeAll.simps [of wput t w b] wr)
    with False have "t + k \<le> n \<and> n \<le> t + k + length (drop k b) \<and>
        sent w' = sent w1 @ take (n - (t + k)) (drop k b) \<and> (e = None \<longrightarrow> n = t + k + length (drop k b))"
      using 1(1) [OF _ wr [symmetric] refl] 1(2) by blast
    moreover have "take k b @ take (n - (t + k)) (drop k b) = take (n - t) b" if "t + k \<le> n"
      using that take_add [of k "n - (t + k)" b] by simp
    ultimately show ?thesis using ok by auto
  qed
qed

subsection \<open>Buffer size\<close>

lemma NormalizeBufferSize_bounds:
  "32 * 1024 \<le> NormalizeBufferSize n \<and> NormalizeBufferSize n \<le> MaxCopyBufferSize \<and>
   32 * 1024 dvd NormalizeBufferSize n"
  unfolding NormalizeBufferSize_def Let_def DefaultCopyBufferSize_def MaxCopyBufferSize_def
  by (auto simp: dvd_def)

lemma NormalizeBufferSize_fix:
  "32 * 1024 \<le> n \<Longrightarrow> n \<le> MaxCopyBufferSize \<Longrightarrow> 32 * 1024 dvd n \<Longrightarrow> NormalizeBufferSize n = n"
  by (auto simp: NormalizeBufferSize_def MaxCopyBufferSize_def dvd_def)

lemma NormalizeBufferSize_up:
  assumes "32 * 1024 \<le> n" "n \<le> MaxCopyBufferSize"
  shows "n \<le> NormalizeBufferSize n \<and> NormalizeBufferSize n < n + 32 * 1024"
proof -
  have "NormalizeBufferSize n = (n + 32767) div 32768 * 32768"
    using assms by (simp add: NormalizeBufferSize_def Let_def MaxCopyBufferSize_def)
  moreover have "(n + 32767) div 32768 * 32768 + (n + 32767) mod 32768 = n + 32767"
    by (rule div_mult_mod_eq)
  moreover have "0 \<le> (n + 32767) mod 32768" "(n + 32767) mod 32768 < 32768" by simp_all
  ultimately show ?thesis by linarith
qed

section \<open>Properties\<close>

text \<open>C21. The keepalive loop closes the SSH connection exactly when three probes in a row have failed
  (by error or by the 5 second timeout) before the context is done: a single answered probe resets
  the count, two failures never close, and the ticker is created with a positive period for every
  configured interval up to nine billion seconds.\<close>
theorem keepAlive_closes_iff:
  assumes "sec \<le> 9000000000"
  shows "keepAlive sec es = KA_Closed \<longleftrightarrow>
     (\<exists>pre a b c post. es = pre @ [a, b, c] @ post \<and> CtxDone \<notin> set pre \<and>
        failed a \<and> failed b \<and> failed c)"
  unfolding three_in_a_row_def [symmetric]
  using keepalive_loop_closed [of 0 es] keepalive_period_pos [OF assms] starts_failed_three [of es]
  by (auto simp: keepAlive_def)

theorem keepAlive_closes_iff_witness:
  "keepAlive 0 [Tick ProbeErr, Tick ProbeOk, Tick ProbeErr, Tick ProbeTimeout, Tick ProbeErr] = KA_Closed"
proof -
  have "\<exists>pre a b c post. [Tick ProbeErr, Tick ProbeOk, Tick ProbeErr, Tick ProbeTimeout, Tick ProbeErr]
      = pre @ [a, b, c] @ post \<and> CtxDone \<notin> set pre \<and> failed a \<and> failed b \<and> failed c"
    by (rule exI [of _ "[Tick ProbeErr, Tick ProbeOk]"]) simp
  then show ?thesis by (intro keepAlive_closes_iff [THEN iffD2]) simp_all
qed

text \<open>\<^verbatim>\<open>DialStreamWithRetry\<close> dials at most three times and returns the outcome of its last dial:
  it goes on only after failures that are worth a retry, sleeps 300 and 600 ms before the second
  and the third dial, and stops early only on success or on a failure that is not retryable.\<close>
theorem DialStreamWithRetry_correct:
  "case DialStreamWithRetry dial of (r, naps) \<Rightarrow>
     naps = map (\<lambda>k. int k * 300 * millisecond) [1..<length naps + 1] \<and> length naps \<le> 2 \<and>
     r = dial (length naps) \<and>
     list_all (\<lambda>k. case dial k of Inl e \<Rightarrow> isStreamRetryable e | Inr _ \<Rightarrow> False) [0..<length naps] \<and>
     (length naps = 2 \<or> (case r of Inl e \<Rightarrow> \<not> isStreamRetryable e | Inr _ \<Rightarrow> True))"
  by (rule DialStream_cases [of dial]) (simp_all add: numeral_2_eq_2)

text \<open>\<^verbatim>\<open>writeAll\<close> never loses or reorders data: whatever the writer does within the contract of
  \<^verbatim>\<open>io.Writer\<close>, the bytes delivered are exactly the first \<open>n\<close> bytes of the buffer, where \<open>n\<close> is the
  count returned; it reports no error only when all of them were delivered, and it always returns.\<close>
theorem writeAll_correct:
  assumes "writer_ok wput sent"
  shows "case writeAll wput 0 w b of (n, err, w') \<Rightarrow>
           n \<le> length b \<and> sent w' = sent w @ take n b \<and> (err = None \<longrightarrow> n = length b)"
  using writeAll_sent [OF assms, of 0 w b] by (cases "writeAll wput 0 w b") auto

definition three_at_a_time :: "byte list \<Rightarrow> byte list \<Rightarrow> nat \<times> bool \<times> byte list" where
  "three_at_a_time w b = (min 3 (length b), False, w @ take 3 b)"

theorem writeAll_correct_witness:
  "case writeAll three_at_a_time 0 [9] [1, 2, 3, 4, 5] of (n, err, w') \<Rightarrow>
     n \<le> 5 \<and> w' = [9] @ take n [1, 2, 3, 4, 5] \<and> (err = None \<longrightarrow> n = 5)"
proof -
  have "writer_ok three_at_a_time (\<lambda>w. w)"
    by (simp add: writer_ok_def three_at_a_time_def min_def)
  from writeAll_correct [OF this, where w = "[9]" and b = "[1, 2, 3, 4, 5]"] show ?thesis
    by (simp split: prod.splits)
qed

text \<open>\<^verbatim>\<open>NormalizeBufferSize\<close> always yields a buffer between 32 KiB and 512 KiB that is a multiple of
  32 KiB, at most one quantum above the requested size when that size is in range, and it is
  idempotent.\<close>
theorem NormalizeBufferSize_correct:
  "32 * 1024 \<le> NormalizeBufferSize n \<and> NormalizeBufferSize n \<le> 512 * 1024 \<and>
   32 * 1024 dvd NormalizeBufferSize n \<and>
   NormalizeBufferSize (NormalizeBufferSize n) = NormalizeBufferSize n \<and>
   (n \<in> {32 * 1024..512 * 1024} \<longrightarrow>
      n \<le> NormalizeBufferSize n \<and> NormalizeBufferSize n < n + 32 * 1024)"
proof (intro conjI)
  note b = NormalizeBufferSize_bounds
  show "NormalizeBufferSize (NormalizeBufferSize n) = NormalizeBufferSize n"
    using b [of n] NormalizeBufferSize_fix by blast
  show "n \<in> {32 * 1024..512 * 1024} \<longrightarrow>
      n \<le> NormalizeBufferSize n \<and> NormalizeBufferSize n < n + 32 * 1024"
    using NormalizeBufferSize_up [of n] by (simp add: MaxCopyBufferSize_def)
qed (use NormalizeBufferSize_bounds [of n] in \<open>simp_all add: MaxCopyBufferSize_def\<close>)

theorem NormalizeBufferSize_correct_witness:
  "(40000 :: int) \<in> {32 * 1024..512 * 1024} \<and> 40000 \<le> NormalizeBufferSize 40000 \<and>
   NormalizeBufferSize 40000 < 40000 + 32 * 1024"
  using NormalizeBufferSize_correct [of 40000] by simp

text \<open>The reconnect delay is a capped exponential: starting from no delay, the delay before the
  \<open>n\<close>-th retry is \<open>2\<^sup>n\<close> seconds, and 30 seconds from the fifth retry on; the 64-bit doubling
  never overflows on the way.\<close>
theorem NextDelay_sequence:
  "((\<lambda>d. NextDelay d second (30 * second)) ^^ Suc n) 0 = min (2 ^ n * second) (30 * second) \<and>
   (5 \<le> n \<longrightarrow> ((\<lambda>d. NextDelay d second (30 * second)) ^^ Suc n) 0 = 30 * second)"
proof -
  let ?f = "\<lambda>d. NextDelay d second (30 * second)"
  have eq: "(?f ^^ Suc n) 0 = min (2 ^ n * second) (30 * second)"
    using reconnect.iterate_closed_form [of n]
    by (simp only: funpow_Suc_right o_apply NextDelay_first)
  moreover have "30 * second \<le> 2 ^ n * second" if "5 \<le> n"
  proof -
    have "(2 :: int) ^ 5 \<le> 2 ^ n" using that by (intro power_increasing) simp_all
    then show ?thesis by (simp add: second_def)
  qed
  ultimately show ?thesis by simp
qed

theorem NextDelay_sequence_witness:
  "((\<lambda>d. NextDelay d second (30 * second)) ^^ 6) 0 = 30 * second"
  using NextDelay_sequence [of 5] by simp

end
