(* ===== verification/Relay.thy ===== *)
theory Relay
  imports Tunnel
begin

text \<open>
  The bidirectional relay: \<^verbatim>\<open>PipeBoth\<close> of \<^verbatim>\<open>internal/tunnel/tunnel.go\<close> and \<^verbatim>\<open>pipe\<close> of
  \<^verbatim>\<open>internal/socks5/socks5.go\<close>. Both start one goroutine per direction and supervise them through
  two channels, an idle timer and a grace timer; they differ in how the connections are closed and
  in the result. The relay is a step relation: a step is one \<^verbatim>\<open>Read\<close> or write of a goroutine, one
  branch of a \<^verbatim>\<open>select\<close> of the supervisor, or time passing, in any order. The environment chooses
  what \<^verbatim>\<open>Read\<close> and \<^verbatim>\<open>Write\<close> return, within the contract of \<^verbatim>\<open>net.Conn\<close>.
\<close>

section \<open>Definitions\<close>

text \<open>\<open>AB\<close> is \<^verbatim>\<open>pump(b, a)\<close>, which reads from \<open>a\<close> and writes to \<open>b\<close>; \<open>BA\<close> is the other one.\<close>

datatype dir = AB | BA

text \<open>A goroutine waits for its \<^verbatim>\<open>Read\<close>, writes a chunk (and stops after it when the read came with
  an error), or has finished, because of a failed write or not.\<close>

datatype pump = Reading | Writing "byte list" bool | Finished bool

datatype relay_result = RelayDone | IdleTimeout

datatype supervisor = Waiting | Grace instant | Returned relay_result

record endpoint =
  is_tcp :: bool
  io_deadline :: "instant option"
  wr_shut :: bool
  ep_closed :: bool

record relay =
  pumps :: "dir \<Rightarrow> pump"
  got :: "dir \<Rightarrow> byte list"
  delivered :: "dir \<Rightarrow> byte list"
  activity :: nat
  done_ch :: nat
  clock :: instant
  idle_timer :: instant
  sup :: supervisor
  end_a :: endpoint
  end_b :: endpoint

fun src :: "dir \<Rightarrow> relay \<Rightarrow> endpoint" where
  "src AB s = end_a s"
| "src BA s = end_b s"

fun dst :: "dir \<Rightarrow> relay \<Rightarrow> endpoint" where
  "dst AB s = end_b s"
| "dst BA s = end_a s"

definition relay_init :: "bool \<Rightarrow> bool \<Rightarrow> duration \<Rightarrow> instant \<Rightarrow> relay" where
  "relay_init tcp_a tcp_b idle t0 =
     \<lparr>pumps = (\<lambda>_. Reading), got = (\<lambda>_. []), delivered = (\<lambda>_. []), activity = 0, done_ch = 0,
      clock = t0, idle_timer = t0 + idle, sup = Waiting,
      end_a = \<lparr>is_tcp = tcp_a, io_deadline = None, wr_shut = False, ep_closed = False\<rparr>,
      end_b = \<lparr>is_tcp = tcp_b, io_deadline = None, wr_shut = False, ep_closed = False\<rparr>\<rparr>"

text \<open>The two versions of \<^verbatim>\<open>closeBoth\<close>: with \<open>half\<close>, a TCP connection gets a 3 second deadline and is
  shut down for writing first.\<close>

definition close_endpoint :: "bool \<Rightarrow> instant \<Rightarrow> endpoint \<Rightarrow> endpoint" where
  "close_endpoint half t e =
     (if half \<and> is_tcp e
      then e\<lparr>io_deadline := Some (t + 3 * second), wr_shut := True, ep_closed := True\<rparr>
      else e\<lparr>ep_closed := True\<rparr>)"

definition closeBoth :: "bool \<Rightarrow> relay \<Rightarrow> relay" where
  "closeBoth half s =
     s\<lparr>end_a := close_endpoint half (clock s) (end_a s),
       end_b := close_endpoint half (clock s) (end_b s)\<rparr>"

text \<open>The end of a goroutine: its (deferred) send on \<^verbatim>\<open>done\<close>.\<close>

definition pump_exit :: "dir \<Rightarrow> bool \<Rightarrow> relay \<Rightarrow> relay" where
  "pump_exit d werr s = s\<lparr>pumps := (pumps s)(d := Finished werr), done_ch := done_ch s + 1\<rparr>"

text \<open>\<^verbatim>\<open>n, err := src.Read(buf)\<close> returned \<open>bs\<close> and \<open>err\<close>; the send on \<^verbatim>\<open>activity\<close> (capacity 2) does not
  block.\<close>

definition pump_read :: "dir \<Rightarrow> byte list \<Rightarrow> bool \<Rightarrow> relay \<Rightarrow> relay" where
  "pump_read d bs err s =
     (if 0 < length bs then
        s\<lparr>got := (got s)(d := got s d @ bs), activity := min 2 (activity s + 1),
          pumps := (pumps s)(d := Writing bs err)\<rparr>
      else if err then pump_exit d False s
      else s)"

text \<open>The write of the chunk delivered \<open>n\<close> bytes, and failed if \<open>werr\<close>.\<close>

definition pump_write :: "dir \<Rightarrow> byte list \<Rightarrow> bool \<Rightarrow> nat \<Rightarrow> bool \<Rightarrow> relay \<Rightarrow> relay" where
  "pump_write d bs err n werr s =
     (let s1 = s\<lparr>delivered := (delivered s)(d := delivered s d @ take n bs)\<rparr> in
      if werr then pump_exit d True s1
      else if err then pump_exit d False s1
      else s1\<lparr>pumps := (pumps s1)(d := Reading)\<rparr>)"

definition sup_activity :: "duration \<Rightarrow> relay \<Rightarrow> relay" where
  "sup_activity idle s = s\<lparr>activity := activity s - 1, idle_timer := clock s + idle\<rparr>"

definition sup_done :: "relay \<Rightarrow> relay" where
  "sup_done s = s\<lparr>done_ch := done_ch s - 1, sup := Grace (clock s + 400 * millisecond)\<rparr>"

definition sup_return :: "bool \<Rightarrow> relay_result \<Rightarrow> relay \<Rightarrow> relay" where
  "sup_return half r s = (closeBoth half s)\<lparr>sup := Returned r\<rparr>"

inductive relay_step :: "bool \<Rightarrow> nat \<Rightarrow> duration \<Rightarrow> relay \<Rightarrow> relay \<Rightarrow> bool"
  for half :: bool and buf :: nat and idle :: duration where
  ReadStep: "pumps s d = Reading \<Longrightarrow> length bs \<le> buf \<Longrightarrow>
     (ep_closed (src d s) \<longrightarrow> bs = [] \<and> err) \<Longrightarrow>
     relay_step half buf idle s (pump_read d bs err s)"
| WriteStep: "pumps s d = Writing bs err \<Longrightarrow> n \<le> length bs \<Longrightarrow> werr \<or> n = length bs \<Longrightarrow>
     (ep_closed (dst d s) \<longrightarrow> werr) \<Longrightarrow>
     relay_step half buf idle s (pump_write d bs err n werr s)"
| TimePasses: "0 \<le> dt \<Longrightarrow> relay_step half buf idle s (s\<lparr>clock := clock s + dt\<rparr>)"
| OnActivity: "sup s = Waiting \<Longrightarrow> 0 < activity s \<Longrightarrow>
     relay_step half buf idle s (sup_activity idle s)"
| OnDone: "sup s = Waiting \<Longrightarrow> 0 < done_ch s \<Longrightarrow> relay_step half buf idle s (sup_done s)"
| OnIdle: "sup s = Waiting \<Longrightarrow> idle_timer s \<le> clock s \<Longrightarrow>
     relay_step half buf idle s (sup_return half IdleTimeout s)"
| OnSecondDone: "sup s = Grace t \<Longrightarrow> 0 < done_ch s \<Longrightarrow>
     relay_step half buf idle s (sup_return half RelayDone (s\<lparr>done_ch := done_ch s - 1\<rparr>))"
| OnGrace: "sup s = Grace t \<Longrightarrow> t \<le> clock s \<Longrightarrow>
     relay_step half buf idle s (sup_return half RelayDone s)"

text \<open>The states that \<^verbatim>\<open>PipeBoth\<close> and \<^verbatim>\<open>pipe\<close> reach, started at time \<open>t0\<close>.\<close>

definition PipeBoth :: "bool \<Rightarrow> bool \<Rightarrow> int \<Rightarrow> duration \<Rightarrow> instant \<Rightarrow> relay \<Rightarrow> bool" where
  "PipeBoth tcp_a tcp_b bufSize idleTimeout t0 s \<longleftrightarrow>
     (let buf = nat (NormalizeBufferSize bufSize);
          idle = (if idleTimeout \<le> 0 then 120 * second else idleTimeout) in
      (relay_step True buf idle)\<^sup>*\<^sup>* (relay_init tcp_a tcp_b idle t0) s)"

definition pipe :: "bool \<Rightarrow> bool \<Rightarrow> int \<Rightarrow> duration \<Rightarrow> instant \<Rightarrow> relay \<Rightarrow> bool" where
  "pipe tcp_a tcp_b bufSize idleTimeout t0 s \<longleftrightarrow>
     (relay_step False (nat bufSize) idleTimeout)\<^sup>*\<^sup>* (relay_init tcp_a tcp_b idleTimeout t0) s"

section \<open>Lemmas\<close>

text \<open>How many goroutines have finished.\<close>

fun fin :: "pump \<Rightarrow> nat" where
  "fin (Finished _) = 1"
| "fin _ = 0"

definition finished_count :: "relay \<Rightarrow> nat" where
  "finished_count s = fin (pumps s AB) + fin (pumps s BA)"

fun pump_inv :: "pump \<Rightarrow> byte list \<Rightarrow> byte list \<Rightarrow> bool" where
  "pump_inv Reading g p \<longleftrightarrow> p = g"
| "pump_inv (Writing bs _) g p \<longleftrightarrow> p @ bs = g \<and> bs \<noteq> []"
| "pump_inv (Finished werr) g p \<longleftrightarrow> (if werr then prefix p g else p = g)"

definition data_inv :: "relay \<Rightarrow> bool" where
  "data_inv s \<longleftrightarrow> (\<forall>d. pump_inv (pumps s d) (got s d) (delivered s d))"

definition both_closed :: "relay \<Rightarrow> bool" where
  "both_closed s \<longleftrightarrow> ep_closed (end_a s) \<and> ep_closed (end_b s)"

text \<open>The supervisor's invariant; \<open>t0\<close> is the start time.\<close>

definition sup_inv :: "duration \<Rightarrow> instant \<Rightarrow> relay \<Rightarrow> bool" where
  "sup_inv idle t0 s \<longleftrightarrow>
     activity s \<le> 2 \<and> t0 \<le> clock s \<and> t0 + idle \<le> idle_timer s \<and>
     (case sup s of
        Waiting \<Rightarrow> done_ch s = finished_count s \<and> \<not> ep_closed (end_a s) \<and> \<not> ep_closed (end_b s)
      | Grace _ \<Rightarrow> done_ch s + 1 = finished_count s \<and> \<not> ep_closed (end_a s) \<and> \<not> ep_closed (end_b s)
      | Returned RelayDone \<Rightarrow> done_ch s + 1 \<le> finished_count s \<and> both_closed s
      | Returned IdleTimeout \<Rightarrow> done_ch s = finished_count s \<and> both_closed s \<and> t0 + idle \<le> clock s)"

lemmas relay_ops = pump_read_def pump_write_def pump_exit_def sup_activity_def sup_done_def
  sup_return_def closeBoth_def close_endpoint_def Let_def

inductive_cases relay_stepE: "relay_step half buf idle s s'"

lemma finished_count_le: "finished_count s \<le> 2"
  by (cases "pumps s AB"; cases "pumps s BA") (auto simp: finished_count_def)

lemma data_inv_init: "data_inv (relay_init ta tb idle t0)"
  by (simp add: data_inv_def relay_init_def)

lemma sup_inv_init: "0 \<le> idle \<Longrightarrow> sup_inv idle t0 (relay_init ta tb idle t0)"
  by (simp add: sup_inv_def relay_init_def finished_count_def)

lemma data_inv_write:
  assumes w: "pumps s d = Writing bs err" and n: "werr \<or> n = length bs" and inv: "data_inv s"
  shows "data_inv (pump_write d bs err n werr s)"
proof -
  from inv have "pump_inv (pumps s d) (got s d) (delivered s d)" by (simp add: data_inv_def)
  with w have eq: "got s d = delivered s d @ bs" by simp
  then have pre: "prefix (delivered s d @ take n bs) (got s d)" by (simp add: take_is_prefix)
  have "pump_inv (pumps (pump_write d bs err n werr s) e) (got (pump_write d bs err n werr s) e)
      (delivered (pump_write d bs err n werr s) e)" for e
  proof (cases "e = d")
    case True
    then show ?thesis
      using n pre by (cases werr; cases err) (simp_all add: relay_ops eq)
  next
    case False
    then show ?thesis using inv by (cases werr; cases err) (simp_all add: relay_ops data_inv_def)
  qed
  then show ?thesis by (simp add: data_inv_def)
qed

lemma data_inv_read:
  "pumps s d = Reading \<Longrightarrow> data_inv s \<Longrightarrow> data_inv (pump_read d bs err s)"
  unfolding data_inv_def pump_read_def pump_exit_def by (auto dest!: spec [of _ d])

lemma data_inv_step: "relay_step half buf idle s s' \<Longrightarrow> data_inv s \<Longrightarrow> data_inv s'"
  by (induction rule: relay_step.induct)
    (simp_all add: data_inv_read data_inv_write,
     simp_all add: data_inv_def sup_activity_def sup_done_def sup_return_def closeBoth_def)

lemma finished_count_upd:
  "fin (pumps s d) = 0 \<Longrightarrow> pumps s' = (pumps s)(d := p) \<Longrightarrow> finished_count s' = finished_count s + fin p"
  by (cases d) (simp_all add: finished_count_def)

lemma sup_inv_exit:
  assumes "fin (pumps s d) = 0" "sup_inv idle t0 s"
  shows "sup_inv idle t0 (pump_exit d w s)"
proof -
  have "finished_count (pump_exit d w s) = finished_count s + 1"
    using finished_count_upd [OF assms(1), of "pump_exit d w s" "Finished w"]
    by (simp add: pump_exit_def)
  then show ?thesis
    using assms(2) unfolding sup_inv_def
    by (auto simp: pump_exit_def both_closed_def split: supervisor.splits relay_result.splits)
qed

lemma sup_inv_frame:
  assumes "sup_inv idle t0 s" "finished_count s' = finished_count s" "activity s' \<le> 2"
    "done_ch s' = done_ch s" "clock s' = clock s" "idle_timer s' = idle_timer s" "sup s' = sup s"
    "end_a s' = end_a s" "end_b s' = end_b s"
  shows "sup_inv idle t0 s'"
  using assms by (simp add: sup_inv_def both_closed_def split: supervisor.splits relay_result.splits)

lemma sup_inv_read:
  assumes "pumps s d = Reading" "sup_inv idle t0 s"
  shows "sup_inv idle t0 (pump_read d bs err s)"
proof (cases "0 < length bs")
  case True
  have "fin (pumps s d) = 0" using assms(1) by simp
  then have "finished_count (pump_read d bs err s) = finished_count s"
    using True finished_count_upd [of s d "pump_read d bs err s" "Writing bs err"]
    by (simp add: pump_read_def)
  then show ?thesis
    using True by (intro sup_inv_frame [OF assms(2)]) (simp_all add: pump_read_def)
next
  case False
  then show ?thesis using assms by (simp add: pump_read_def sup_inv_exit)
qed

lemma sup_inv_write:
  assumes "pumps s d = Writing bs err" "sup_inv idle t0 s"
  shows "sup_inv idle t0 (pump_write d bs err n werr s)"
proof -
  define s1 where "s1 = s\<lparr>delivered := (delivered s)(d := delivered s d @ take n bs)\<rparr>"
  have p: "fin (pumps s1 d) = 0" using assms(1) by (simp add: s1_def)
  have i: "sup_inv idle t0 s1"
    using assms(2) by (intro sup_inv_frame [OF assms(2)]) (simp_all add: s1_def finished_count_def sup_inv_def)
  let ?s2 = "s1\<lparr>pumps := (pumps s1)(d := Reading)\<rparr>"
  have "finished_count ?s2 = finished_count s1"
    using finished_count_upd [OF p, of ?s2 Reading] by simp
  then have "sup_inv idle t0 ?s2"
    using i by (intro sup_inv_frame [OF i]) (simp_all add: sup_inv_def)
  then show ?thesis
    using sup_inv_exit [OF p i] by (simp add: pump_write_def Let_def s1_def [symmetric])
qed

lemma sup_inv_sup:
  assumes "sup_inv idle t0 s" "0 \<le> idle"
  shows "sup s = Waiting \<Longrightarrow> sup_inv idle t0 (sup_activity idle s)"
    and "sup s = Waiting \<Longrightarrow> 0 < done_ch s \<Longrightarrow> sup_inv idle t0 (sup_done s)"
    and "sup s = Waiting \<Longrightarrow> idle_timer s \<le> clock s \<Longrightarrow> sup_inv idle t0 (sup_return half IdleTimeout s)"
    and "sup s = Grace t \<Longrightarrow> 0 < done_ch s \<Longrightarrow>
      sup_inv idle t0 (sup_return half RelayDone (s\<lparr>done_ch := done_ch s - 1\<rparr>))"
    and "sup s = Grace t \<Longrightarrow> sup_inv idle t0 (sup_return half RelayDone s)"
    and "0 \<le> dt \<Longrightarrow> sup_inv idle t0 (s\<lparr>clock := clock s + dt\<rparr>)"
  using assms
  by (auto simp: sup_inv_def both_closed_def finished_count_def relay_ops
      split: supervisor.splits relay_result.splits)

lemma sup_inv_step:
  "relay_step half buf idle s s' \<Longrightarrow> 0 \<le> idle \<Longrightarrow> sup_inv idle t0 s \<Longrightarrow> sup_inv idle t0 s'"
  by (induction rule: relay_step.induct) (auto simp: sup_inv_read sup_inv_write simp del: One_nat_def intro: sup_inv_sup)

lemma relay_reach_inv:
  assumes "(relay_step half buf idle)\<^sup>*\<^sup>* (relay_init ta tb idle t0) s" "0 \<le> idle"
  shows "data_inv s \<and> sup_inv idle t0 s"
  using assms
  by (induction rule: rtranclp_induct)
    (auto simp: data_inv_init sup_inv_init intro: data_inv_step sup_inv_step)

lemma relay_data_integrity:
  "data_inv s \<Longrightarrow> prefix (delivered s d) (got s d) \<and>
     (pumps s d = Reading \<or> pumps s d = Finished False \<longrightarrow> delivered s d = got s d)"
proof -
  assume "data_inv s"
  then have "pump_inv (pumps s d) (got s d) (delivered s d)" by (simp add: data_inv_def)
  then show ?thesis by (cases "pumps s d") (auto split: if_splits intro: prefixI [OF sym])
qed

lemma PipeBoth_inv: "PipeBoth ta tb n i t0 s \<Longrightarrow> data_inv s \<and> sup_inv (if i \<le> 0 then 120 * second else i) t0 s"
  unfolding PipeBoth_def Let_def by (rule relay_reach_inv, assumption) (simp add: second_def)

lemma pipe_data_inv:
  assumes "pipe ta tb n i t0 s"
  shows "data_inv s"
  using assms unfolding pipe_def
  by (induction rule: rtranclp_induct) (auto simp: data_inv_init intro: data_inv_step)

lemma pipe_inv: "pipe ta tb n i t0 s \<Longrightarrow> 0 \<le> i \<Longrightarrow> sup_inv i t0 s"
  unfolding pipe_def using relay_reach_inv by blast

lemma done_ch_room: "sup_inv idle t0 s \<Longrightarrow> fin (pumps s d) = 0 \<Longrightarrow> done_ch s < 2"
proof -
  assume inv: "sup_inv idle t0 s" and f: "fin (pumps s d) = 0"
  have "finished_count s \<le> 1"
    using f by (cases d; cases "pumps s AB"; cases "pumps s BA") (auto simp: finished_count_def)
  moreover have "done_ch s \<le> finished_count s"
    using inv by (auto simp: sup_inv_def split: supervisor.splits relay_result.splits)
  ultimately show ?thesis by simp
qed

text \<open>After the return both ends are closed, so the next step of a goroutine ends it.\<close>

lemma pump_step_after_return:
  assumes "relay_step half buf idle s s'" "both_closed s" "pumps s' \<noteq> pumps s"
  shows "\<exists>d w. fin (pumps s d) = 0 \<and> pumps s' = (pumps s)(d := Finished w)"
  using assms
proof (induction rule: relay_step.induct)
  case (ReadStep s d bs err)
  then have "bs = [] \<and> err" by (cases d) (auto simp: both_closed_def)
  with ReadStep show ?case by (intro exI [of _ d]) (auto simp: pump_read_def pump_exit_def)
next
  case (WriteStep s d bs err n werr)
  then have "werr" by (cases d) (auto simp: both_closed_def)
  with WriteStep show ?case by (intro exI [of _ d]) (auto simp: pump_write_def pump_exit_def)
qed (simp_all add: sup_activity_def sup_done_def sup_return_def closeBoth_def)

lemma pump_can_finish:
  assumes "both_closed s" "fin (pumps s d) = 0"
  shows "\<exists>s' w. relay_step half buf idle s s' \<and> pumps s' d = Finished w"
proof (cases "pumps s d")
  case Reading
  then have "relay_step half buf idle s (pump_read d [] True s)" by (intro ReadStep) simp_all
  moreover have "pumps (pump_read d [] True s) d = Finished False"
    by (simp add: pump_read_def pump_exit_def)
  ultimately show ?thesis by blast
next
  case (Writing bs err)
  then have "relay_step half buf idle s (pump_write d bs err 0 True s)" by (intro WriteStep) simp_all
  moreover have "pumps (pump_write d bs err 0 True s) d = Finished True"
    by (simp add: pump_write_def pump_exit_def)
  ultimately show ?thesis by blast
qed (use assms in simp)

lemma supervisor_can_return:
  "\<exists>s' r. (relay_step half buf idle)\<^sup>*\<^sup>* s s' \<and> sup s' = Returned r \<and>
     (\<forall>t. sup s = Grace t \<longrightarrow> clock s' \<le> max t (clock s))"
proof (cases "sup s")
  case Waiting
  let ?s1 = "s\<lparr>clock := clock s + max 0 (idle_timer s - clock s)\<rparr>"
  have "relay_step half buf idle s ?s1" by (rule TimePasses) simp
  moreover have "relay_step half buf idle ?s1 (sup_return half IdleTimeout ?s1)"
    using Waiting by (intro OnIdle) simp_all
  ultimately have "(relay_step half buf idle)\<^sup>*\<^sup>* s (sup_return half IdleTimeout ?s1)" by simp
  then show ?thesis using Waiting by (auto simp: sup_return_def intro!: exI)
next
  case (Grace t)
  let ?s1 = "s\<lparr>clock := clock s + max 0 (t - clock s)\<rparr>"
  have "relay_step half buf idle s ?s1" by (rule TimePasses) simp
  moreover have "relay_step half buf idle ?s1 (sup_return half RelayDone ?s1)"
    using Grace by (intro OnGrace [of _ t]) simp_all
  ultimately have "(relay_step half buf idle)\<^sup>*\<^sup>* s (sup_return half RelayDone ?s1)" by simp
  moreover have "sup (sup_return half RelayDone ?s1) = Returned RelayDone"
    "clock (sup_return half RelayDone ?s1) \<le> max t (clock s)"
    by (simp_all add: sup_return_def closeBoth_def)
  ultimately show ?thesis using Grace by auto
next
  case (Returned r)
  then show ?thesis by auto
qed

section \<open>Properties\<close>

text \<open>C4. The relay never loses, duplicates, reorders or invents data: in every state that
  \<^verbatim>\<open>PipeBoth\<close> or \<^verbatim>\<open>pipe\<close> can reach, under any interleaving of the two goroutines, the supervisor and
  time, what was delivered in a direction is a prefix of what was read there, and all of it when
  the goroutine waits for more or has finished without a write error.\<close>
theorem relay_delivers_prefix:
  assumes "PipeBoth ta tb n i t0 s \<or> pipe ta tb n i t0 s"
  shows "prefix (delivered s d) (got s d) \<and>
     (pumps s d = Reading \<or> pumps s d = Finished False \<longrightarrow> delivered s d = got s d)"
  using assms PipeBoth_inv pipe_data_inv relay_data_integrity by blast

definition relay_demo :: relay where
  "relay_demo =
     pump_write AB [1, 2] False 2 False (pump_read AB [1, 2] False (relay_init True False (5 * second) 0))"

lemma relay_demo_steps:
  "(relay_step True (nat (NormalizeBufferSize 0)) (5 * second))\<^sup>*\<^sup>*
     (relay_init True False (5 * second) 0) relay_demo"
proof -
  let ?i = "relay_init True False (5 * second) 0" and ?b = "nat (NormalizeBufferSize 0)"
  have "2 \<le> NormalizeBufferSize 0" using NormalizeBufferSize_bounds [of 0] by linarith
  then have b: "2 \<le> ?b" by linarith
  have "relay_step True ?b (5 * second) ?i (pump_read AB [1, 2] False ?i)"
    using b by (intro ReadStep) (simp_all add: relay_init_def)
  moreover have "relay_step True ?b (5 * second) (pump_read AB [1, 2] False ?i) relay_demo"
    unfolding relay_demo_def by (intro WriteStep) (simp_all add: relay_init_def pump_read_def)
  ultimately show ?thesis by simp
qed

theorem relay_delivers_prefix_witness:
  "prefix (delivered relay_demo AB) (got relay_demo AB) \<and> delivered relay_demo AB = [1, 2]"
proof -
  have "PipeBoth True False 0 (5 * second) 0 relay_demo"
    using relay_demo_steps by (simp add: PipeBoth_def second_def)
  then have "prefix (delivered relay_demo AB) (got relay_demo AB)" using relay_delivers_prefix by blast
  then show ?thesis by (simp add: relay_demo_def relay_ops relay_init_def)
qed

text \<open>C22. The supervisor of \<^verbatim>\<open>PipeBoth\<close> closes both connections when it returns and not before. It
  returns normally only after a goroutine has finished, and reports an idle timeout only after the
  idle time has passed since the start; its send on \<^verbatim>\<open>done\<close> never blocks a goroutine.\<close>
theorem PipeBoth_closes_when_done:
  assumes "PipeBoth ta tb n i t0 s"
  shows "(both_closed s \<longleftrightarrow> (\<exists>r. sup s = Returned r)) \<and>
     (sup s = Returned RelayDone \<longrightarrow> (\<exists>d w. pumps s d = Finished w)) \<and>
     (sup s = Returned IdleTimeout \<longrightarrow> t0 + (if i \<le> 0 then 120 * second else i) \<le> clock s) \<and>
     (fin (pumps s d) = 0 \<longrightarrow> done_ch s < 2)"
proof (intro conjI impI)
  let ?i = "if i \<le> 0 then 120 * second else i"
  have inv: "sup_inv ?i t0 s" using PipeBoth_inv [OF assms] by blast
  then show "both_closed s \<longleftrightarrow> (\<exists>r. sup s = Returned r)"
    by (auto simp: sup_inv_def both_closed_def split: supervisor.splits relay_result.splits)
  show "t0 + ?i \<le> clock s" if "sup s = Returned IdleTimeout"
    using inv that by (simp add: sup_inv_def)
  show "\<exists>d w. pumps s d = Finished w" if "sup s = Returned RelayDone"
  proof -
    have "0 < finished_count s" using inv that by (simp add: sup_inv_def)
    then show ?thesis
      by (cases "pumps s AB"; cases "pumps s BA") (auto simp: finished_count_def)
  qed
  show "done_ch s < 2" if "fin (pumps s d) = 0" using done_ch_room [OF inv that] .
qed

theorem PipeBoth_closes_when_done_witness: "\<not> both_closed relay_demo \<and> done_ch relay_demo < 2"
proof -
  have "PipeBoth True False 0 (5 * second) 0 relay_demo"
    using relay_demo_steps by (simp add: PipeBoth_def second_def)
  from PipeBoth_closes_when_done [OF this, of AB] show ?thesis
    by (simp add: relay_demo_def relay_ops relay_init_def)
qed

text \<open>C23. The relay cannot hang and leaks no goroutine: from every state the supervisor can return by
  the mere passing of time (within the grace period once it has seen a goroutine end), and once
  \<^verbatim>\<open>PipeBoth\<close> has returned, each unfinished goroutine can still step and its next step ends it.\<close>
theorem PipeBoth_terminates:
  assumes "PipeBoth ta tb n i t0 s"
  defines "step \<equiv> relay_step True (nat (NormalizeBufferSize n)) (if i \<le> 0 then 120 * second else i)"
  shows "(\<exists>s' r. step\<^sup>*\<^sup>* s s' \<and> sup s' = Returned r \<and>
            (\<forall>t. sup s = Grace t \<longrightarrow> clock s' \<le> max t (clock s))) \<and>
     (sup s = Returned r \<longrightarrow>
        (\<forall>d. fin (pumps s d) = 0 \<longrightarrow> (\<exists>s' w. step s s' \<and> pumps s' d = Finished w)) \<and>
        (\<forall>s'. step s s' \<and> pumps s' \<noteq> pumps s \<longrightarrow>
           (\<exists>d w. fin (pumps s d) = 0 \<and> pumps s' = (pumps s)(d := Finished w))))"
proof (intro conjI impI allI)
  assume "sup s = Returned r"
  then have closed: "both_closed s"
    using PipeBoth_inv [OF assms(1)]
    by (auto simp: sup_inv_def split: supervisor.splits relay_result.splits)
  show "\<exists>s' w. step s s' \<and> pumps s' d = Finished w" if "fin (pumps s d) = 0" for d
    unfolding step_def using pump_can_finish [OF closed that] .
  show "\<exists>d w. fin (pumps s d) = 0 \<and> pumps s' = (pumps s)(d := Finished w)"
    if "step s s' \<and> pumps s' \<noteq> pumps s" for s'
    using that pump_step_after_return [OF _ closed] unfolding step_def by blast
qed (unfold step_def, rule supervisor_can_return)

theorem PipeBoth_terminates_witness:
  "\<exists>s' r. (relay_step True (nat (NormalizeBufferSize 0)) (5 * second))\<^sup>*\<^sup>* relay_demo s' \<and>
     sup s' = Returned r"
proof -
  have "PipeBoth True False 0 (5 * second) 0 relay_demo"
    using relay_demo_steps by (simp add: PipeBoth_def second_def)
  moreover have "(if 5 * second \<le> 0 then 120 * second else 5 * second) = 5 * second"
    by (simp add: second_def)
  ultimately show ?thesis using PipeBoth_terminates [of True False 0 "5 * second" 0 relay_demo] by metis
qed

end
