(* ===== verification/Udpgw.thy ===== *)
theory Udpgw
  imports GoNet
begin

text \<open>
  The UDP gateway client of \<^verbatim>\<open>internal/udpgw/udpgw.go\<close>: the connection ids and their sources, the
  two frame formats, the forward and the read loop, the control messages with the original
  destination, the janitor and the keepalive frame, and the reconnect delays. The TCP connection to
  the gateway server is a connection of the prelude. The events of the goroutines that share the
  server's state are interleaved by \<open>gw_step\<close>; each is one critical section or one frame.
\<close>

section \<open>Definitions\<close>

subsection \<open>State\<close>

record udp_addr =
  IP :: ip
  Port :: int

record server =
  gw_conn :: "conn option"
  conidSeq :: u16
  srcByID :: "(u16 \<times> udp_addr) list"
  idleByID :: "(u16 \<times> instant) list"

definition NewServer :: server where
  "NewServer = \<lparr>gw_conn = None, conidSeq = 0, srcByID = [], idleByID = []\<rparr>"

definition maxFrameSize :: nat where "maxFrameSize = 8192"

definition idleTimeout :: duration where "idleTimeout = 2 * minute"

subsection \<open>Connection ids\<close>

definition same_source :: "udp_addr \<Rightarrow> udp_addr \<Rightarrow> bool" where
  "same_source a b \<longleftrightarrow> IP_Equal (IP a) (IP b) \<and> Port a = Port b"

definition allocateConid :: "instant \<Rightarrow> udp_addr \<Rightarrow> server \<Rightarrow> u16 \<times> server" where
  "allocateConid now src s =
     (case find (\<lambda>(_, existing). same_source existing src) (srcByID s) of
        Some (i, _) \<Rightarrow> (i, s\<lparr>idleByID := map_store i now (idleByID s)\<rparr>)
      | None \<Rightarrow>
          let s1 = conidSeq s + 1; conid = (if s1 = 0 then 1 else s1) in
          (conid, s\<lparr>conidSeq := conid, srcByID := map_store conid src (srcByID s),
                    idleByID := map_store conid now (idleByID s)\<rparr>))"

subsection \<open>Frames\<close>

text \<open>The frame sent to the server; a \<^verbatim>\<open>nil\<close> address or IP leaves the zeros of \<^verbatim>\<open>make\<close>.\<close>

definition encodeFrame :: "u16 \<Rightarrow> udp_addr option \<Rightarrow> byte list \<Rightarrow> byte list" where
  "encodeFrame conid addr payload =
     [0x01] @ put_be16 conid @ put_be16 (of_nat (length payload)) @
     (case addr of
        None \<Rightarrow> [0, 0, 0, 0]
      | Some a \<Rightarrow> if IP a = [] then [0, 0, 0, 0]
                  else (case To4 (IP a) of None \<Rightarrow> [0, 0, 0, 0] | Some ip4 \<Rightarrow> ip4)) @
     (case addr of None \<Rightarrow> [0, 0] | Some a \<Rightarrow> put_be16 (of_int (Port a))) @
     payload"

definition keepaliveFrame :: "byte list" where
  "keepaliveFrame = [0x01] @ put_be16 0xFFFF @ put_be16 1 @ [1, 1, 1, 1] @ [0, 53] @ [0]"

subsection \<open>The original destination\<close>

text \<open>
  \<^verbatim>\<open>syscall.ParseSocketControlMessage\<close> on 64-bit little-endian Linux: a header of 16 bytes (the
  length with the header, the level and the type), the data, and padding to 8 bytes.
\<close>

record cmsg =
  cm_level :: nat
  cm_type :: nat
  cm_data :: "byte list"

definition le_nat :: "byte list \<Rightarrow> nat" where
  "le_nat bs = foldr (\<lambda>b a. unat b + 256 * a) bs 0"

definition cmsg_align :: "nat \<Rightarrow> nat" where
  "cmsg_align n = (n + 7) div 8 * 8"

function ParseSocketControlMessage :: "byte list \<Rightarrow> cmsg list option" where
  "ParseSocketControlMessage b =
     (if length b < 16 then Some []
      else
        let len = le_nat (take 8 b) in
        if len < 16 \<or> length b < len then None
        else
          let m = \<lparr>cm_level = le_nat (take 4 (drop 8 b)), cm_type = le_nat (take 4 (drop 12 b)),
                   cm_data = drop 16 (take len b)\<rparr> in
          map_option ((#) m) (ParseSocketControlMessage (drop (cmsg_align len) b)))"
  by pat_completeness auto
termination
  by (relation "measure length") (auto simp: cmsg_align_def)

declare ParseSocketControlMessage.simps [simp del]

definition SOL_IP :: nat where "SOL_IP = 0"
definition ipPktInfo :: nat where "ipPktInfo = 8"
definition ipOrigDstAddr :: nat where "ipOrigDstAddr = 20"

fun dst_of_msgs :: "udp_addr \<Rightarrow> cmsg list \<Rightarrow> udp_addr option" where
  "dst_of_msgs src [] = None"
| "dst_of_msgs src (m # ms) =
     (let d = cm_data m in
      if cm_level m \<noteq> SOL_IP then dst_of_msgs src ms
      else if cm_type m = ipOrigDstAddr \<and> length d \<ge> 8
        then Some \<lparr>IP = IPv4 (d ! 4) (d ! 5) (d ! 6) (d ! 7), Port = uint (get_be16 (d ! 2) (d ! 3))\<rparr>
      else if cm_type m = ipPktInfo \<and> length d \<ge> 12
        then Some \<lparr>IP = IPv4 (d ! 8) (d ! 9) (d ! 10) (d ! 11), Port = Port src\<rparr>
      else dst_of_msgs src ms)"

definition extractDstFromPktInfo :: "byte list \<Rightarrow> udp_addr \<Rightarrow> udp_addr option" where
  "extractDstFromPktInfo oob src =
     (case ParseSocketControlMessage oob of None \<Rightarrow> None | Some msgs \<Rightarrow> dst_of_msgs src msgs)"

subsection \<open>The loops\<close>

datatype gw_error = ReadHeader | ReadPayload | InvalidFrame u16 nat | WriteFrame

text \<open>
  One packet of the forward loop: \<open>src\<close>, the control data and the payload are what
  \<^verbatim>\<open>ReadMsgUDP\<close> returned at time \<open>now\<close>, \<open>later\<close> is the time after the write.
\<close>

definition forward_packet ::
  "instant \<Rightarrow> instant \<Rightarrow> udp_addr \<Rightarrow> byte list \<Rightarrow> byte list \<Rightarrow> server \<Rightarrow> gw_error option \<times> server" where
  "forward_packet now later src oob payload s =
     (if length payload < 1 then (None, s)
      else
        let dst = (case extractDstFromPktInfo oob src of None \<Rightarrow> src | Some d \<Rightarrow> d) in
        case allocateConid now src s of
          (conid, s1) \<Rightarrow>
            (case gw_conn s1 of
               None \<Rightarrow> (None, s1)
             | Some c \<Rightarrow>
                 (case write_all (encodeFrame conid (Some dst) payload) c of
                    (Inl _, c') \<Rightarrow> (Some WriteFrame, s1\<lparr>gw_conn := Some c'\<rparr>)
                  | (Inr _, c') \<Rightarrow>
                      (None, s1\<lparr>gw_conn := Some c', idleByID := map_store conid later (idleByID s1)\<rparr>))))"

text \<open>One frame of the read loop on the connection \<open>c\<close>: an error, or the datagram to deliver.\<close>

definition read_frame ::
  "instant \<Rightarrow> server \<Rightarrow> conn \<Rightarrow> (gw_error + (udp_addr \<times> byte list) option) \<times> server \<times> conn" where
  "read_frame now s c =
     (case read_full 4 c of
        (Inl _, c1) \<Rightarrow> (Inl ReadHeader, s, c1)
      | (Inr h, c1) \<Rightarrow>
          let conid = get_be16 (h ! 0) (h ! 1); datalen = unat (get_be16 (h ! 2) (h ! 3)) in
          if datalen \<le> 0 \<or> datalen > maxFrameSize then (Inl (InvalidFrame conid datalen), s, c1)
          else
            (case read_full datalen c1 of
               (Inl _, c2) \<Rightarrow> (Inl ReadPayload, s, c2)
             | (Inr payload, c2) \<Rightarrow>
                 (case map_of (srcByID s) conid of
                    None \<Rightarrow> (Inr None, s, c2)
                  | Some src \<Rightarrow>
                      (Inr (Some (src, payload)), s\<lparr>idleByID := map_store conid now (idleByID s)\<rparr>, c2))))"

lemma read_frame_shorter:
  "read_frame now s c = (Inr d, s', c') \<Longrightarrow> length (inp c') < length (inp c)"
  by (auto simp: read_frame_def read_full_def Let_def split: if_splits option.splits)

text \<open>The loop until the read fails, \<open>clk k\<close> being the time of the \<open>k\<close>-th frame.\<close>

function readLoop ::
  "(nat \<Rightarrow> instant) \<Rightarrow> nat \<Rightarrow> server \<Rightarrow> conn
     \<Rightarrow> (udp_addr \<times> byte list) list \<times> gw_error \<times> server \<times> conn" where
  "readLoop clk k s c =
     (case read_frame (clk k) s c of
        (Inl e, s', c') \<Rightarrow> ([], e, s', c')
      | (Inr d, s', c') \<Rightarrow>
          (case readLoop clk (Suc k) s' c' of
             (ds, r) \<Rightarrow> ((case d of None \<Rightarrow> ds | Some x \<Rightarrow> x # ds), r)))"
  by pat_completeness auto
termination
  by (relation "measure (\<lambda>(_, _, _, c). length (inp c))") (auto dest: read_frame_shorter [OF sym])

declare readLoop.simps [simp del]

subsection \<open>Janitor, keepalive, statistics\<close>

fun sweep_loop ::
  "instant \<Rightarrow> (u16 \<times> instant) list \<Rightarrow> server \<Rightarrow> server" where
  "sweep_loop now [] s = s"
| "sweep_loop now ((conid, lastSeen) # es) s =
     (if now - lastSeen > idleTimeout
      then sweep_loop now es (s\<lparr>srcByID := map_delete conid (srcByID s),
                               idleByID := map_delete conid (idleByID s)\<rparr>)
      else sweep_loop now es s)"

definition janitor_tick :: "instant \<Rightarrow> server \<Rightarrow> server" where
  "janitor_tick now s = sweep_loop now (idleByID s) s"

definition keepalive_tick :: "server \<Rightarrow> server" where
  "keepalive_tick s =
     (case gw_conn s of
        None \<Rightarrow> s
      | Some c \<Rightarrow> s\<lparr>gw_conn := Some (snd (write_all keepaliveFrame c))\<rparr>)"

definition GetStats :: "server \<Rightarrow> nat" where
  "GetStats s = length (srcByID s)"

subsection \<open>Reconnecting\<close>

text \<open>\<open>math.Min\<close> on the two durations as floats is exact in this range.\<close>

definition next_backoff :: "duration \<Rightarrow> duration" where
  "next_backoff d = min (d * 2) (30 * second)"

datatype serve_event = DialFailed | Session

text \<open>The delays that \<open>Serve\<close> waits after each event, until its context ends: a failed dial, or a
  session that was established and then broke.\<close>

fun serve_delays :: "duration \<Rightarrow> serve_event list \<Rightarrow> duration list" where
  "serve_delays d [] = []"
| "serve_delays d (DialFailed # es) = d # serve_delays (next_backoff d) es"
| "serve_delays d (Session # es) = 1 * second # serve_delays (next_backoff (1 * second)) es"

subsection \<open>The whole gateway\<close>

inductive gw_step :: "server \<Rightarrow> server \<Rightarrow> bool" where
  Connected: "gw_step s (s\<lparr>gw_conn := Some c\<rparr>)"
| Disconnected: "gw_step s (s\<lparr>gw_conn := None\<rparr>)"
| Forward: "forward_packet now later src oob payload s = (e, s') \<Longrightarrow> gw_step s s'"
| Read: "gw_conn s = Some c \<Longrightarrow> read_frame now s c = (r, s', c') \<Longrightarrow>
     gw_step s (s'\<lparr>gw_conn := Some c'\<rparr>)"
| Sweep: "gw_step s (janitor_tick now s)"
| Keepalive: "gw_step s (keepalive_tick s)"

text \<open>The invariant of the server's state: ids and sources determine each other, id 0 is not used,
  and every flow has an idle time, so that the janitor can drop it.\<close>

definition gw_inv :: "server \<Rightarrow> bool" where
  "gw_inv s \<longleftrightarrow>
     distinct (map fst (srcByID s)) \<and> distinct (map fst (idleByID s)) \<and>
     0 \<notin> fst ` set (srcByID s) \<and> fst ` set (srcByID s) \<subseteq> fst ` set (idleByID s) \<and>
     (\<forall>(i, a) \<in> set (srcByID s). \<forall>(j, b) \<in> set (srcByID s). same_source a b \<longrightarrow> i = j)"

text \<open>The gateway server's reader of SEND frames, after the wire format in the package comment.\<close>

fun decode_send :: "byte list \<Rightarrow> ((u16 \<times> byte list \<times> u16 \<times> byte list) \<times> byte list) option" where
  "decode_send (f # c1 # c2 # l1 # l2 # a1 # a2 # a3 # a4 # p1 # p2 # rest) =
     (let n = unat (get_be16 l1 l2) in
      if f = 1 \<and> n \<le> length rest
      then Some ((get_be16 c1 c2, [a1, a2, a3, a4], get_be16 p1 p2, take n rest), drop n rest)
      else None)"
| "decode_send _ = None"

fun decode_all :: "nat \<Rightarrow> byte list \<Rightarrow> (u16 \<times> byte list \<times> u16 \<times> byte list) list option" where
  "decode_all 0 bs = (if bs = [] then Some [] else None)"
| "decode_all (Suc k) bs =
     (case decode_send bs of None \<Rightarrow> None | Some (f, rest) \<Rightarrow> map_option ((#) f) (decode_all k rest))"

text \<open>A RECV frame.\<close>

definition recv_frame :: "u16 \<times> byte list \<Rightarrow> byte list" where
  "recv_frame f = put_be16 (fst f) @ put_be16 (of_nat (length (snd f))) @ snd f"

definition deliveries :: "server \<Rightarrow> (u16 \<times> byte list) list \<Rightarrow> (udp_addr \<times> byte list) list" where
  "deliveries s fs = List.map_filter (\<lambda>(i, p). map_option (\<lambda>a. (a, p)) (map_of (srcByID s) i)) fs"

section \<open>Lemmas\<close>

subsection \<open>Sources\<close>

lemma IP_Equal_sym: "IP_Equal x y = IP_Equal y x"
  by (auto simp: IP_Equal_def)

lemma IP_Equal_trans: "IP_Equal x y \<Longrightarrow> IP_Equal y z \<Longrightarrow> IP_Equal x z"
  by (auto simp: IP_Equal_def split: if_splits) (metis append_take_drop_id)

lemma same_source_trans: "same_source a b \<Longrightarrow> same_source b c \<Longrightarrow> same_source a c"
  by (auto simp: same_source_def dest: IP_Equal_trans)

lemma same_source_refl [simp]: "same_source a a"
  by (simp add: same_source_def IP_Equal_def)

lemma same_source_sym: "same_source a b = same_source b a"
  by (auto simp: same_source_def IP_Equal_sym)

lemma find_source_None:
  "find (\<lambda>(_, e). same_source e a) es = None \<Longrightarrow> (i, b) \<in> set es \<Longrightarrow> \<not> same_source b a"
  by (auto simp: find_None_iff)

lemma find_source_Some:
  "find (\<lambda>(_, e). same_source e a) es = Some (i, b) \<Longrightarrow> (i, b) \<in> set es \<and> same_source b a"
  by (auto simp: find_Some_iff) (metis nth_mem)

lemma gw_inv_touch:
  "gw_inv s \<Longrightarrow> gw_inv (s\<lparr>idleByID := map_store i now (idleByID s)\<rparr>)"
  by (auto simp: gw_inv_def distinct_map_store)

lemma gw_inv_conn [simp]: "gw_inv (s\<lparr>gw_conn := x\<rparr>) = gw_inv s"
  by (simp add: gw_inv_def)

text \<open>The id that a new source gets.\<close>

definition next_conid :: "server \<Rightarrow> u16" where
  "next_conid s = (if conidSeq s + 1 = 0 then 1 else conidSeq s + 1)"

lemma next_conid_nonzero [simp]: "next_conid s \<noteq> 0"
  by (simp add: next_conid_def)

lemma allocateConid_cases:
  obtains (known) i b where "(i, b) \<in> set (srcByID s)" "same_source b a"
      "allocateConid now a s = (i, s\<lparr>idleByID := map_store i now (idleByID s)\<rparr>)"
    | (new) "\<forall>(i, b) \<in> set (srcByID s). \<not> same_source b a"
      "allocateConid now a s = (next_conid s, s\<lparr>conidSeq := next_conid s,
          srcByID := map_store (next_conid s) a (srcByID s),
          idleByID := map_store (next_conid s) now (idleByID s)\<rparr>)"
proof (cases "find (\<lambda>(_, e). same_source e a) (srcByID s)")
  case None
  then show ?thesis
    using find_source_None [OF None] by (intro new) (auto simp: allocateConid_def Let_def next_conid_def)
next
  case (Some x)
  then obtain i b where "find (\<lambda>(_, e). same_source e a) (srcByID s) = Some (i, b)" by (cases x) auto
  moreover from find_source_Some [OF this] have "(i, b) \<in> set (srcByID s)" "same_source b a" by auto
  ultimately show ?thesis by (intro known [of i b]) (auto simp: allocateConid_def)
qed

lemma allocate_known:
  assumes inv: "gw_inv s" and b: "(i, b) \<in> set (srcByID s)" "same_source b a"
  shows "fst (allocateConid now a s) = i"
proof (cases rule: allocateConid_cases [of s a now])
  case (known j c)
  then have "same_source b c" using b(2) same_source_sym same_source_trans by metis
  with known(1) b(1) inv have "i = j" by (auto simp: gw_inv_def)
  with known(3) show ?thesis by simp
next
  case new
  with b show ?thesis by auto
qed

lemma gw_inv_allocate:
  assumes inv: "gw_inv s"
  shows "gw_inv (snd (allocateConid now a s))"
proof (cases rule: allocateConid_cases [of s a now])
  case known
  then show ?thesis using inv by (simp add: gw_inv_touch)
next
  case new
  let ?n = "next_conid s"
  have set: "set (map_store ?n a (srcByID s)) = insert (?n, a) {e \<in> set (srcByID s). fst e \<noteq> ?n}"
    using inv by (intro set_map_store_eq) (simp add: gw_inv_def)
  have "\<forall>(i, x) \<in> set (map_store ?n a (srcByID s)). \<forall>(j, y) \<in> set (map_store ?n a (srcByID s)).
      same_source x y \<longrightarrow> i = j"
    unfolding set using inv new(1) by (auto simp: gw_inv_def same_source_sym [of a])
  moreover have "0 \<notin> fst ` set (map_store ?n a (srcByID s))"
    using inv next_conid_nonzero [of s] by (auto simp: gw_inv_def simp del: next_conid_nonzero)
  ultimately show ?thesis
    using inv new(2) by (auto simp: gw_inv_def distinct_map_store)
qed

lemma allocate_conn [simp]: "gw_conn (snd (allocateConid now a s)) = gw_conn s"
  by (cases rule: allocateConid_cases [of s a now]) simp_all

subsection \<open>Janitor\<close>

definition stale :: "instant \<Rightarrow> (u16 \<times> instant) list \<Rightarrow> u16 set" where
  "stale now es = {k. \<exists>t. (k, t) \<in> set es \<and> now - t > idleTimeout}"

lemma sweep_loop_filter:
  "sweep_loop now es s =
     s\<lparr>srcByID := filter (\<lambda>(k, _). k \<notin> stale now es) (srcByID s),
       idleByID := filter (\<lambda>(k, _). k \<notin> stale now es) (idleByID s)\<rparr>"
proof (induction now es s rule: sweep_loop.induct)
  case (1 now s)
  then show ?case by (simp add: stale_def case_prod_unfold)
next
  case (2 now k t es s)
  have st: "stale now ((k, t) # es) = (if now - t > idleTimeout then insert k (stale now es) else stale now es)"
    by (auto simp: stale_def)
  show ?case
    using 2 unfolding st by (auto simp: map_delete_def case_prod_unfold conj_commute)
qed

lemma janitor_tick_filter:
  "janitor_tick now s =
     s\<lparr>srcByID := filter (\<lambda>(k, _). k \<notin> stale now (idleByID s)) (srcByID s),
       idleByID := filter (\<lambda>(k, _). k \<notin> stale now (idleByID s)) (idleByID s)\<rparr>"
  by (simp add: janitor_tick_def sweep_loop_filter)

lemma gw_inv_janitor: "gw_inv s \<Longrightarrow> gw_inv (janitor_tick now s)"
proof -
  assume inv: "gw_inv s"
  have "fst ` set (filter (\<lambda>(k, _). k \<notin> stale now (idleByID s)) (srcByID s)) \<subseteq>
      fst ` set (filter (\<lambda>(k, _). k \<notin> stale now (idleByID s)) (idleByID s))"
  proof
    fix k assume "k \<in> fst ` set (filter (\<lambda>(k, _). k \<notin> stale now (idleByID s)) (srcByID s))"
    then have "k \<in> fst ` set (srcByID s)" "k \<notin> stale now (idleByID s)" by auto
    then obtain t where "(k, t) \<in> set (idleByID s)" using inv by (auto simp: gw_inv_def)
    with \<open>k \<notin> _\<close> show "k \<in> fst ` set (filter (\<lambda>(k, _). k \<notin> stale now (idleByID s)) (idleByID s))"
      by force
  qed
  moreover have "0 \<notin>
    fst ` set (filter P (srcByID s))" for P
    using inv by (auto simp: gw_inv_def)
  ultimately show ?thesis
    using inv unfolding janitor_tick_filter gw_inv_def by (auto intro!: distinct_map_filter)
qed

subsection \<open>Steps\<close>

lemma gw_inv_forward:
  assumes "gw_inv s" "forward_packet now later src oob payload s = (e, s')"
  shows "gw_inv s'"
proof (cases "length payload < 1")
  case True
  then show ?thesis using assms by (simp add: forward_packet_def)
next
  case False
  obtain i s1 where al: "allocateConid now src s = (i, s1)" by (cases "allocateConid now src s")
  then have "gw_inv s1" using gw_inv_allocate [OF assms(1), of now src] by simp
  then have "gw_inv (s1\<lparr>gw_conn := c\<rparr>)" "gw_inv (s1\<lparr>gw_conn := c, idleByID := map_store i t (idleByID s1)\<rparr>)" for c t
    using gw_inv_touch [of "s1\<lparr>gw_conn := c\<rparr>" i t] by simp_all
  with \<open>gw_inv s1\<close> show ?thesis
    using assms(2) False al
    by (auto simp: forward_packet_def Let_def split: option.splits prod.splits sum.splits)
qed

lemma read_frame_state:
  "read_frame now s c = (r, s', c') \<Longrightarrow>
     s' = s \<or> (\<exists>i. s' = s\<lparr>idleByID := map_store i now (idleByID s)\<rparr>)"
  by (auto simp: read_frame_def Let_def split: prod.splits sum.splits if_splits option.splits)

lemma gw_inv_read: "gw_inv s \<Longrightarrow> read_frame now s c = (r, s', c') \<Longrightarrow> gw_inv s'"
  using read_frame_state gw_inv_touch by blast

lemma gw_inv_step: "gw_step s s' \<Longrightarrow> gw_inv s \<Longrightarrow> gw_inv s'"
proof (induction rule: gw_step.induct)
  case Forward
  then show ?case using gw_inv_forward by blast
next
  case Read
  then show ?case using gw_inv_read by simp
next
  case (Keepalive s)
  then show ?case by (simp add: keepalive_tick_def split: option.split)
qed (simp_all add: gw_inv_janitor)

lemma gw_inv_init: "gw_inv NewServer"
  by (simp add: gw_inv_def NewServer_def)

lemma gw_reach_inv: "gw_step\<^sup>*\<^sup>* NewServer s \<Longrightarrow> gw_inv s"
  by (induction rule: rtranclp_induct) (auto simp: gw_inv_init intro: gw_inv_step)

subsection \<open>Frames\<close>

lemma encodeFrame_shape:
  assumes "To4 (IP a) = Some [x1, x2, x3, x4]"
  shows "encodeFrame i (Some a) p =
    [1] @ put_be16 i @ put_be16 (of_nat (length p)) @ [x1, x2, x3, x4] @ put_be16 (of_int (Port a)) @ p"
proof -
  have "IP a \<noteq> []" using assms by (auto simp: To4_def)
  then show ?thesis using assms by (simp add: encodeFrame_def)
qed

lemma unat_of_length: "length p < 65536 \<Longrightarrow> unat (of_nat (length p) :: u16) = length p"
  by (simp add: unat_of_nat take_bit_nat_eq_self)

lemma decode_encode:
  assumes "To4 (IP a) = Some v" "length p < 65536"
  shows "decode_send (encodeFrame i (Some a) p @ rest) = Some ((i, v, of_int (Port a), p), rest)"
proof -
  have "length v = 4" using assms(1) by (rule To4_length)
  then obtain x1 x2 x3 x4 where v: "v = [x1, x2, x3, x4]"
    by (auto simp: numeral_eq_Suc length_Suc_conv)
  have be: "put_be16 w = [ucast (drop_bit 8 w), ucast w]" for w by (simp add: put_be16_def)
  show ?thesis
    using assms(1) unat_of_length [OF assms(2)]
    by (simp add: encodeFrame_shape v be)
qed

lemma decode_all_encode:
  assumes "list_all (\<lambda>(i, a, p). To4 (IP a) \<noteq> None \<and> length p < 65536) fs"
  shows "decode_all (length fs) (concat (map (\<lambda>(i, a, p). encodeFrame i (Some a) p) fs)) =
    Some (map (\<lambda>(i, a, p). (i, the (To4 (IP a)), of_int (Port a), p)) fs)"
  using assms
proof (induction fs)
  case (Cons f fs)
  obtain i a p where f: "f = (i, a, p)" by (cases f)
  with Cons.prems obtain v where "To4 (IP a) = Some v" "length p < 65536" by auto
  then show ?case using Cons by (simp add: f decode_encode)
qed simp

lemma read_frame_recv:
  assumes "inp c = recv_frame (i, p) @ rest" "0 < length p" "length p \<le> maxFrameSize"
  shows "\<exists>s'. read_frame now s c =
      (Inr (map_option (\<lambda>a. (a, p)) (map_of (srcByID s) i)), s', c\<lparr>inp := rest\<rparr>) \<and> srcByID s' = srcByID s"
proof -
  let ?h = "put_be16 i @ put_be16 (of_nat (length p))"
  have be: "put_be16 w = [ucast (drop_bit 8 w), ucast w]" for w by (simp add: put_be16_def)
  have r1: "read_full 4 c = (Inr ?h, c\<lparr>inp := p @ rest\<rparr>)"
    using assms(1) by (intro read_full_append) (simp_all add: recv_frame_def)
  have r2: "read_full (length p) (c\<lparr>inp := p @ rest\<rparr>) = (Inr p, c\<lparr>inp := rest\<rparr>)"
    by (simp add: read_full_def)
  have n: "unat (of_nat (length p) :: u16) = length p"
    using assms(3) by (intro unat_of_length) (simp add: maxFrameSize_def)
  have h: "get_be16 (?h ! 0) (?h ! 1) = i" "get_be16 (?h ! 2) (?h ! 3) = of_nat (length p)"
    by (simp_all add: be)
  have "read_frame now s c =
      (case map_of (srcByID s) i of
         None \<Rightarrow> (Inr None, s, c\<lparr>inp := rest\<rparr>)
       | Some src \<Rightarrow> (Inr (Some (src, p)), s\<lparr>idleByID := map_store i now (idleByID s)\<rparr>, c\<lparr>inp := rest\<rparr>))"
    unfolding read_frame_def r1 prod.case sum.case Let_def h n using assms(2,3) by (simp add: r2)
  then show ?thesis by (cases "map_of (srcByID s) i") simp_all
qed

lemma deliveries_Nil [simp]: "deliveries s [] = []"
  by (simp add: deliveries_def List.map_filter_simps)

lemma deliveries_Cons:
  "deliveries s ((i, p) # fs) =
     (case map_of (srcByID s) i of None \<Rightarrow> deliveries s fs | Some a \<Rightarrow> (a, p) # deliveries s fs)"
  by (simp add: deliveries_def List.map_filter_simps split: option.split)

lemma deliveries_cong: "srcByID s' = srcByID s \<Longrightarrow> deliveries s' fs = deliveries s fs"
  by (simp add: deliveries_def)

lemma readLoop_frames:
  assumes "inp c = concat (map recv_frame fs) @ rest" "length rest < 4"
    "list_all (\<lambda>(i, p). 0 < length p \<and> length p \<le> maxFrameSize) fs"
  shows "\<exists>s' c'. readLoop clk k s c = (deliveries s fs, ReadHeader, s', c')"
  using assms
proof (induction fs arbitrary: k s c)
  case Nil
  then show ?case by (simp add: readLoop.simps [of clk k s c] read_frame_def read_full_short)
next
  case (Cons f fs)
  obtain i p where f: "f = (i, p)" by (cases f)
  from Cons.prems obtain s1 where s1: "srcByID s1 = srcByID s" "read_frame (clk k) s c =
      (Inr (map_option (\<lambda>a. (a, p)) (map_of (srcByID s) i)), s1, c\<lparr>inp := concat (map recv_frame fs) @ rest\<rparr>)"
    using read_frame_recv [of c i p "concat (map recv_frame fs) @ rest" "clk k" s] f by auto
  obtain s' c' where "readLoop clk (Suc k) s1 (c\<lparr>inp := concat (map recv_frame fs) @ rest\<rparr>) =
      (deliveries s1 fs, ReadHeader, s', c')"
    using Cons.IH [of "c\<lparr>inp := concat (map recv_frame fs) @ rest\<rparr>" "Suc k" s1] Cons.prems by auto
  then show ?case
    using s1 by (auto simp: readLoop.simps [of clk k s c] f deliveries_Cons deliveries_cong [OF s1(1)]
        split: option.split)
qed

subsection \<open>Many sources\<close>

lemma map_store_new: "k \<notin> fst ` set es \<Longrightarrow> map_store k v es = es @ [(k, v)]"
  by (induction k v es rule: map_store.induct) auto

lemma of_nat_u16_inj: "i < 65536 \<Longrightarrow> j < 65536 \<Longrightarrow> (of_nat i :: u16) = of_nat j \<longleftrightarrow> i = j"
proof
  assume lt: "i < 65536" "j < 65536" and eq: "(of_nat i :: u16) = of_nat j"
  from eq have "unat (of_nat i :: u16) = unat (of_nat j :: u16)" by simp
  then show "i = j" using lt by (simp add: unat_of_nat take_bit_nat_eq_self)
qed simp

text \<open>New sources in a row, all at once.\<close>

definition flood :: "instant \<Rightarrow> udp_addr list \<Rightarrow> server" where
  "flood now as = foldl (\<lambda>s a. snd (allocateConid now a s)) NewServer as"

definition pairwise_new :: "udp_addr list \<Rightarrow> bool" where
  "pairwise_new as \<longleftrightarrow> (\<forall>j < length as. \<forall>i < j. \<not> same_source (as ! i) (as ! j))"

lemma pairwise_new_snoc:
  "pairwise_new (as @ [a]) \<Longrightarrow> pairwise_new as \<and> (\<forall>b \<in> set as. \<not> same_source b a)"
proof
  assume pw: "pairwise_new (as @ [a])"
  have "\<not> same_source (as ! i) (as ! j)" if "j < length as" "i < j" for i j
    using pw [unfolded pairwise_new_def, rule_format, of j i] that by (simp add: nth_append)
  then show "pairwise_new as" by (simp add: pairwise_new_def)
  have "\<not> same_source (as ! i) a" if "i < length as" for i
    using pw [unfolded pairwise_new_def, rule_format, of "length as" i] that by (simp add: nth_append)
  then show "\<forall>b \<in> set as. \<not> same_source b a" by (auto simp: in_set_conv_nth)
qed

lemma allocate_new:
  assumes "\<forall>(i, b) \<in> set (srcByID s). \<not> same_source b a"
  shows "allocateConid now a s = (next_conid s, s\<lparr>conidSeq := next_conid s,
          srcByID := map_store (next_conid s) a (srcByID s),
          idleByID := map_store (next_conid s) now (idleByID s)\<rparr>)"
  by (cases rule: allocateConid_cases [of s a now]) (use assms in auto)

lemma flood_snoc: "flood now (as @ [a]) = snd (allocateConid now a (flood now as))"
  by (simp add: flood_def)

lemma flood_state:
  "length as \<le> 65535 \<Longrightarrow> pairwise_new as \<Longrightarrow>
   conidSeq (flood now as) = of_nat (length as) \<and>
   srcByID (flood now as) = zip (map of_nat [1..<Suc (length as)]) as"
proof (induction as rule: rev_induct)
  case Nil
  then show ?case by (simp add: flood_def NewServer_def)
next
  case (snoc a as)
  let ?s = "flood now as" and ?n = "length as"
  have pw: "pairwise_new as" "\<forall>b \<in> set as. \<not> same_source b a"
    using pairwise_new_snoc [OF snoc.prems(2)] by auto
  with snoc have IH: "conidSeq ?s = of_nat ?n" "srcByID ?s = zip (map of_nat [1..<Suc ?n]) as" by auto
  have lt: "Suc ?n < 65536" using snoc.prems(1) by simp
  have "(of_nat (Suc ?n) :: u16) \<noteq> of_nat 0" using of_nat_u16_inj [OF lt, of 0] by simp
  then have nx: "next_conid ?s = of_nat (Suc ?n)" by (simp add: next_conid_def IH(1) add.commute)
  have keys: "of_nat (Suc ?n) \<notin> fst ` set (srcByID ?s)"
  proof
    assume "of_nat (Suc ?n) \<in> fst ` set (srcByID ?s)"
    then obtain k where "k < Suc ?n" "(of_nat (Suc ?n) :: u16) = of_nat k"
      unfolding IH(2) by (auto dest!: set_zip_leftD simp del: of_nat_Suc upt_Suc)
    then show False using of_nat_u16_inj [OF lt, of k] lt by simp
  qed
  have "\<forall>(i, b) \<in> set (srcByID ?s). \<not> same_source b a"
    using pw(2) unfolding IH(2) by (auto dest: set_zip_rightD)
  from allocate_new [OF this, of now] have "flood now (as @ [a]) = ?s\<lparr>conidSeq := of_nat (Suc ?n),
      srcByID := srcByID ?s @ [(of_nat (Suc ?n), a)],
      idleByID := map_store (of_nat (Suc ?n)) now (idleByID ?s)\<rparr>"
    unfolding flood_snoc nx map_store_new [OF keys] by simp
  moreover have "[1..<Suc (Suc ?n)] = [1..<Suc ?n] @ [Suc ?n]" by simp
  ultimately show ?case by (simp add: IH(2) del: of_nat_Suc upt_Suc)
qed

subsection \<open>Control messages\<close>

text \<open>The two messages as the kernel builds them; \<open>h\<close> is the interface index and the local address.\<close>

definition pktinfo_msg :: "byte list \<Rightarrow> byte \<Rightarrow> byte \<Rightarrow> byte \<Rightarrow> byte \<Rightarrow> byte list" where
  "pktinfo_msg h a b c d =
     [28, 0, 0, 0, 0, 0, 0, 0] @ [0, 0, 0, 0] @ [8, 0, 0, 0] @ h @ [a, b, c, d, 0, 0, 0, 0]"

definition origdst_msg :: "u16 \<Rightarrow> byte \<Rightarrow> byte \<Rightarrow> byte \<Rightarrow> byte \<Rightarrow> byte list" where
  "origdst_msg port a b c d =
     [32, 0, 0, 0, 0, 0, 0, 0] @ [0, 0, 0, 0] @ [20, 0, 0, 0] @ [2, 0] @ put_be16 port
     @ [a, b, c, d, 0, 0, 0, 0, 0, 0, 0, 0]"

lemma parse_origdst:
  "ParseSocketControlMessage (origdst_msg port a b c d @ rest) =
     map_option ((#) \<lparr>cm_level = SOL_IP, cm_type = ipOrigDstAddr,
       cm_data = [2, 0] @ put_be16 port @ [a, b, c, d, 0, 0, 0, 0, 0, 0, 0, 0]\<rparr>)
       (ParseSocketControlMessage rest)"
  by (subst ParseSocketControlMessage.simps)
    (simp add: origdst_msg_def put_be16_def le_nat_def cmsg_align_def SOL_IP_def ipOrigDstAddr_def)

lemma parse_pktinfo:
  assumes "length h = 8"
  shows "ParseSocketControlMessage (pktinfo_msg h a b c d @ rest) =
     map_option ((#) \<lparr>cm_level = SOL_IP, cm_type = ipPktInfo, cm_data = h @ [a, b, c, d]\<rparr>)
       (ParseSocketControlMessage rest)"
proof -
  from assms obtain x1 x2 x3 x4 x5 x6 x7 x8 where "h = [x1, x2, x3, x4, x5, x6, x7, x8]"
    by (auto simp: numeral_eq_Suc length_Suc_conv)
  then show ?thesis
    by (subst ParseSocketControlMessage.simps)
      (simp add: pktinfo_msg_def le_nat_def cmsg_align_def SOL_IP_def ipPktInfo_def)
qed

lemma parse_nil [simp]: "ParseSocketControlMessage [] = Some []"
  by (simp add: ParseSocketControlMessage.simps [of "[]"])

subsection \<open>Backoff\<close>

interpretation gw_backoff: backoff next_backoff second "30 * second"
  by unfold_locales (auto simp: next_backoff_def second_def)

lemma serve_delays_range:
  "second \<le> d \<Longrightarrow> d \<le> 30 * second \<Longrightarrow>
   list_all (\<lambda>x. second \<le> x \<and> x \<le> 30 * second) (serve_delays d es)"
  by (induction d es rule: serve_delays.induct)
    (use gw_backoff.next_in_range gw_backoff.base_le_cap in auto)

lemma serve_delays_fails:
  "serve_delays ((next_backoff ^^ k) second) (replicate n DialFailed @ es) =
     map (\<lambda>j. (next_backoff ^^ j) second) [k..<k + n] @ serve_delays ((next_backoff ^^ (k + n)) second) es"
proof (induction n arbitrary: k)
  case (Suc n)
  have "next_backoff ((next_backoff ^^ k) second) = (next_backoff ^^ Suc k) second" by simp
  moreover have "[k..<k + Suc n] = k # [Suc k..<Suc k + n]" by (simp add: upt_rec)
  ultimately show ?case using Suc [of "Suc k"] by simp
qed simp

section \<open>Properties\<close>

text \<open>In every state that the gateway can reach, under any interleaving of the forward loop, the
  read loop, the janitor, the keepalive and reconnects, ids and sources determine each other: a
  connection id belongs to one source and a source has one id, id 0 is never used, and every flow
  has an idle time, so the janitor will drop it when it falls silent.\<close>
theorem gateway_invariant:
  assumes "gw_step\<^sup>*\<^sup>* NewServer s"
  shows "gw_inv s"
  using assms by (rule gw_reach_inv)

definition gw_src :: "int \<Rightarrow> udp_addr" where
  "gw_src p = \<lparr>IP = IPv4 10 0 0 1, Port = p\<rparr>"

theorem gateway_invariant_witness: "gw_inv (snd (forward_packet 0 1 (gw_src 53) [] [7] NewServer))"
proof (rule gateway_invariant)
  obtain e s' where f: "forward_packet 0 1 (gw_src 53) [] [7] NewServer = (e, s')"
    by (cases "forward_packet 0 1 (gw_src 53) [] [7] NewServer")
  show "gw_step\<^sup>*\<^sup>* NewServer (snd (forward_packet 0 1 (gw_src 53) [] [7] NewServer))"
    unfolding f snd_conv by (rule r_into_rtranclp) (rule Forward [OF f])
qed

text \<open>\<^verbatim>\<open>allocateConid\<close> returns the id that replies to the source will use: a known source keeps its
  id and a new one gets the next non-zero id; the id maps to the source, the flow's idle time is
  now, and no flow with another id changes.\<close>
theorem allocateConid_correct:
  assumes "gw_inv s"
  shows "case allocateConid now a s of (i, s') \<Rightarrow>
     i \<noteq> 0 \<and> gw_inv s' \<and> map_of (idleByID s') i = Some now \<and>
     (\<exists>b. map_of (srcByID s') i = Some b \<and> same_source b a) \<and>
     (\<forall>j. j \<noteq> i \<longrightarrow> map_of (srcByID s') j = map_of (srcByID s) j) \<and>
     fst (allocateConid later a s') = i"
proof (cases rule: allocateConid_cases [of s a now])
  case (known i b)
  define s' where "s' = s\<lparr>idleByID := map_store i now (idleByID s)\<rparr>"
  have mem: "map_of (srcByID s') i = Some b"
    using known(1) assms by (simp add: s'_def gw_inv_def)
  have "i \<noteq> 0" using known(1) assms by (force simp: gw_inv_def)
  moreover have "gw_inv s'" using assms by (simp add: s'_def gw_inv_touch)
  moreover have "fst (allocateConid later a s') = i"
    using allocate_known [OF \<open>gw_inv s'\<close>, of i b a later] known(1,2) by (simp add: s'_def)
  ultimately show ?thesis using known(2,3) mem by (simp add: s'_def)
next
  case new
  define s' where "s' = snd (allocateConid now a s)"
  have inv: "gw_inv s'" unfolding s'_def using assms by (rule gw_inv_allocate)
  have src: "map_of (srcByID s') = (map_of (srcByID s))(next_conid s \<mapsto> a)"
    "map_of (idleByID s') (next_conid s) = Some now" by (simp_all add: s'_def new(2))
  have "fst (allocateConid later a s') = next_conid s"
    using allocate_known [OF inv, of "next_conid s" a a later] map_of_SomeD [of "srcByID s'"]
    by (simp add: src)
  then show ?thesis using new(2) inv src by (simp add: s'_def [symmetric]) (simp add: s'_def)
qed

theorem allocateConid_correct_witness:
  "fst (allocateConid 5 (gw_src 53) (snd (allocateConid 1 (gw_src 53) NewServer))) = 1"
  using allocateConid_correct [OF gw_inv_init, of 1 "gw_src 53" 5]
  by (simp add: allocateConid_def NewServer_def split: prod.splits)

text \<open>C26. The SEND frames written by the client are a faithful encoding: the gateway server, reading the
  stream by the documented format, recovers exactly the sequence of connection ids, destinations
  and payloads, for payloads under 64 KiB to IPv4 destinations.\<close>
theorem encodeFrame_stream_roundtrip:
  assumes "list_all (\<lambda>(i, a, p). To4 (IP a) \<noteq> None \<and> length p < 65536) fs"
  shows "decode_all (length fs) (concat (map (\<lambda>(i, a, p). encodeFrame i (Some a) p) fs)) =
    Some (map (\<lambda>(i, a, p). (i, the (To4 (IP a)), of_int (Port a), p)) fs)"
  using assms by (rule decode_all_encode)

theorem encodeFrame_stream_roundtrip_witness:
  "decode_all 1 (encodeFrame 7 (Some (gw_src 53)) [1, 2]) = Some [(7, [10, 0, 0, 1], 53, [1, 2])]"
  using encodeFrame_stream_roundtrip [of "[(7, gw_src 53, [1, 2])]"] by (simp add: gw_src_def)

text \<open>C27. The read loop delivers the RECV frames of its stream exactly: the payload of each frame goes,
  in order, to the source that owns its connection id, frames for unknown ids are dropped, and the
  loop ends with an error when the stream ends.\<close>
theorem readLoop_delivers:
  assumes "inp c = concat (map recv_frame fs) @ rest" "length rest < 4"
    "list_all (\<lambda>(i, p). 0 < length p \<and> length p \<le> maxFrameSize) fs"
  shows "fst (readLoop clk k s c) =
           List.map_filter (\<lambda>(i, p). map_option (\<lambda>a. (a, p)) (map_of (srcByID s) i)) fs \<and>
         fst (snd (readLoop clk k s c)) = ReadHeader"
  using readLoop_frames [OF assms, of clk k s] by (auto simp: deliveries_def)

theorem readLoop_delivers_witness:
  "fst (readLoop (\<lambda>_. 0) 0 (snd (allocateConid 0 (gw_src 53) NewServer))
      \<lparr>inp = [0, 1, 0, 2, 65, 66, 0, 9, 0, 1, 67], outp = [], writes_left = 0, closed = False\<rparr>) =
   [(gw_src 53, [65, 66])]"
proof -
  let ?c = "\<lparr>inp = [0, 1, 0, 2, 65, 66, 0, 9, 0, 1, 67], outp = [], writes_left = 0, closed = False\<rparr>"
  have "inp ?c = concat (map recv_frame [(1, [65, 66]), (9, [67])]) @ []"
    by (simp add: recv_frame_def put_be16_def)
  from readLoop_delivers [OF this, of "\<lambda>_. 0" 0 "snd (allocateConid 0 (gw_src 53) NewServer)"]
  show ?thesis
    by (simp add: maxFrameSize_def allocateConid_def NewServer_def List.map_filter_simps)
qed

text \<open>The janitor drops exactly the flows that were silent for more than two minutes; every other
  flow keeps its id, its source and its idle time.\<close>
theorem janitor_drops_idle:
  assumes "gw_inv s"
  shows "map_of (idleByID (janitor_tick now s)) i =
           (case map_of (idleByID s) i of
              None \<Rightarrow> None | Some t \<Rightarrow> if now - t > idleTimeout then None else Some t) \<and>
         map_of (srcByID (janitor_tick now s)) i =
           (case map_of (idleByID s) i of
              None \<Rightarrow> None | Some t \<Rightarrow> if now - t > idleTimeout then None else map_of (srcByID s) i)"
proof -
  have st: "i \<in> stale now (idleByID s) \<longleftrightarrow> (\<exists>t. map_of (idleByID s) i = Some t \<and> now - t > idleTimeout)"
    using assms by (auto simp: stale_def gw_inv_def)
  have none: "map_of (srcByID s) i = None" if "map_of (idleByID s) i = None"
    using that assms by (auto simp: gw_inv_def map_of_eq_None_iff)
  show ?thesis
    unfolding janitor_tick_filter
    using none by (auto simp: map_of_filter_key st split: option.split)
qed

lemma flood_map:
  assumes "length as \<le> 65535" "pairwise_new as" "k < length as"
  shows "map_of (srcByID (flood now as)) (of_nat (Suc k)) = Some (as ! k)"
proof -
  have s: "srcByID (flood now as) = zip (map of_nat [1..<Suc (length as)]) as"
    using flood_state [OF assms(1,2), of now] by blast
  have "gw_inv (flood now as)"
    by (induction as rule: rev_induct) (simp_all add: flood_snoc gw_inv_allocate, simp add: flood_def gw_inv_init)
  then have d: "distinct (map fst (srcByID (flood now as)))" by (simp add: gw_inv_def)
  have "(of_nat (Suc k), as ! k) \<in> set (srcByID (flood now as))"
    unfolding s set_zip using assms(3) by (auto intro!: exI [of _ k] simp del: upt_Suc of_nat_Suc)
  with d show ?thesis by (simp del: of_nat_Suc)
qed

theorem janitor_drops_idle_witness:
  "map_of (srcByID (janitor_tick (3 * minute) (snd (allocateConid 0 (gw_src 53) NewServer)))) 1 = None"
proof -
  have "gw_inv (snd (allocateConid 0 (gw_src 53) NewServer))" by (rule gw_inv_allocate [OF gw_inv_init])
  from janitor_drops_idle [OF this, of "3 * minute" 1] show ?thesis
    by (simp add: allocateConid_def NewServer_def idleTimeout_def minute_def second_def)
qed

text \<open>C28. The 16-bit id space: up to 65534 sources that speak at once get the distinct ids 1, 2, \dots{}
  in order. The 65535th gets the id \<^verbatim>\<open>0xFFFF\<close> that the keepalive frames use and that the comment of
  \<^verbatim>\<open>keepalive\<close> calls reserved, and the next one takes over id 1, although its owner is still active.\<close>
theorem conid_space:
  assumes "length as = 65535" "pairwise_new (as @ [b])"
  shows "(\<forall>k < 65535. map_of (srcByID (flood now as)) (of_nat (Suc k)) = Some (as ! k)) \<and>
     map_of (srcByID (flood now as)) 0xFFFF = Some (last as) \<and>
     fst (allocateConid now b (flood now as)) = 1 \<and>
     map_of (srcByID (flood now (as @ [b]))) 1 = Some b"
proof (intro conjI allI impI)
  have pw: "pairwise_new as" "\<forall>x \<in> set as. \<not> same_source x b"
    using pairwise_new_snoc [OF assms(2)] by auto
  have len: "length as \<le> 65535" using assms(1) by simp
  show m: "map_of (srcByID (flood now as)) (of_nat (Suc k)) = Some (as ! k)" if "k < 65535" for k
    using flood_map [OF len pw(1)] that assms(1) by metis
  have "as \<noteq> []" using assms(1) by auto
  then have "last as = as ! 65534" using assms(1) by (simp add: last_conv_nth)
  moreover have "(of_nat (Suc 65534) :: u16) = 0xFFFF" by simp
  ultimately show "map_of (srcByID (flood now as)) 0xFFFF = Some (last as)"
    using m [of 65534] by (simp del: of_nat_Suc)
  have st: "conidSeq (flood now as) = of_nat 65535" "srcByID (flood now as) = zip (map of_nat [1..<Suc (length as)]) as"
    using flood_state [OF len pw(1), of now] assms(1) by auto
  then have nx: "next_conid (flood now as) = 1" by (simp add: next_conid_def)
  have "\<forall>(i, x) \<in> set (srcByID (flood now as)). \<not> same_source x b"
    using pw(2) unfolding st(2) by (auto dest: set_zip_rightD)
  from allocate_new [OF this, of now] nx
  have al: "allocateConid now b (flood now as) = (1, (flood now as)\<lparr>conidSeq := 1,
      srcByID := map_store 1 b (srcByID (flood now as)),
      idleByID := map_store 1 now (idleByID (flood now as))\<rparr>)" by simp
  then show "fst (allocateConid now b (flood now as)) = 1" by simp
  show "map_of (srcByID (flood now (as @ [b]))) 1 = Some b" by (simp add: flood_snoc al)
qed

lemma pairwise_ports: "pairwise_new (map (\<lambda>p. gw_src (int p)) [0..<n])"
  by (simp add: pairwise_new_def same_source_def gw_src_def)

theorem conid_space_witness:
  "map_of (srcByID (flood 0 (map (\<lambda>p. gw_src (int p)) [0..<65535] @ [gw_src 65535]))) 1 =
     Some (gw_src 65535)"
proof -
  have "map (\<lambda>p. gw_src (int p)) [0..<65536] = map (\<lambda>p. gw_src (int p)) [0..<65535] @ [gw_src 65535]"
    using upt_Suc_append [of 0 65535] by (simp del: upt_rec_numeral upt_Suc)
  then have "pairwise_new (map (\<lambda>p. gw_src (int p)) [0..<65535] @ [gw_src 65535])"
    using pairwise_ports [of 65536] by (simp del: upt_rec_numeral)
  from conid_space [OF _ this, of 0] show ?thesis by (simp del: upt_rec_numeral)
qed

text \<open>The original destination: the control messages are searched in the order in which the kernel
  delivers them. When the original-destination message comes first its address and port are used,
  but when the packet-info message comes first (the order of the Linux kernel when both options
  are set) the port of the source is used and the original port is lost, although the comment gives
  the original-destination message priority.\<close>
theorem extractDst_first_message:
  assumes "length h = 8"
  shows "extractDstFromPktInfo (origdst_msg port a b c d @ pktinfo_msg h x y z w) src =
           Some \<lparr>IP = IPv4 a b c d, Port = uint port\<rparr> \<and>
         extractDstFromPktInfo (pktinfo_msg h x y z w @ origdst_msg port a b c d) src =
           Some \<lparr>IP = IPv4 x y z w, Port = Port src\<rparr>"
proof -
  have n: "ParseSocketControlMessage (origdst_msg port a b c d) = Some [\<lparr>cm_level = SOL_IP,
      cm_type = ipOrigDstAddr, cm_data = [2, 0] @ put_be16 port @ [a, b, c, d, 0, 0, 0, 0, 0, 0, 0, 0]\<rparr>]"
    "ParseSocketControlMessage (pktinfo_msg h x y z w) =
      Some [\<lparr>cm_level = SOL_IP, cm_type = ipPktInfo, cm_data = h @ [x, y, z, w]\<rparr>]"
    using parse_origdst [of port a b c d "[]"] parse_pktinfo [OF assms, of x y z w "[]"] by simp_all
  have be: "put_be16 port = [ucast (drop_bit 8 port), ucast port]" by (simp add: put_be16_def)
  from assms obtain x1 x2 x3 x4 x5 x6 x7 x8 where h: "h = [x1, x2, x3, x4, x5, x6, x7, x8]"
    by (auto simp: numeral_eq_Suc length_Suc_conv)
  show ?thesis
    unfolding extractDstFromPktInfo_def parse_origdst parse_pktinfo [OF assms] n
    by (simp add: be h ipOrigDstAddr_def ipPktInfo_def)
qed

theorem extractDst_first_message_witness:
  "extractDstFromPktInfo (pktinfo_msg [3, 0, 0, 0, 0, 0, 0, 0] 8 8 8 8 @ origdst_msg 53 8 8 8 8) (gw_src 40000) =
     Some \<lparr>IP = IPv4 8 8 8 8, Port = 40000\<rparr>"
  using extractDst_first_message [of "[3, 0, 0, 0, 0, 0, 0, 0]" 53 8 8 8 8 8 8 8 8 "gw_src 40000"]
  by (simp add: gw_src_def)

text \<open>The gateway's reconnect delays: every delay is between 1 and 30 seconds, the \<open>k\<close>-th failed
  dial in a row waits \<open>2\<^sup>k\<close> seconds up to the cap, and an established session resets the delay to one
  second.\<close>
theorem serve_delays_correct:
  "list_all (\<lambda>x. second \<le> x \<and> x \<le> 30 * second) (serve_delays second es) \<and>
   serve_delays second (replicate n DialFailed @ [Session]) =
     map (\<lambda>k. min (2 ^ k * second) (30 * second)) [0..<n] @ [second]"
  using serve_delays_range [of second es] serve_delays_fails [of 0 n "[Session]"]
  by (simp add: gw_backoff.iterate_closed_form gw_backoff.base_le_cap)

end
