(* ===== verification/UdpgwLoop.thy ===== *)
theory UdpgwLoop
  imports Udpgw
begin

text \<open>
  The goroutines of the UDP gateway client (\<open>Serve\<close>, \<open>runForwarder\<close>, \<open>Shutdown\<close> and the transparent
  listener of \<^verbatim>\<open>internal/udpgw/udpgw.go\<close>): the loop that dials the gateway and dials it again, the
  forward and the read loop that it starts for every connection, the janitor and the keepalive. The
  loops' bodies are those of theory Udpgw; an event is one step of one goroutine, so that a list of
  events is an interleaving.
\<close>

section \<open>Definitions\<close>

subsection \<open>The listener\<close>

definition DefaultPort :: int where "DefaultPort = 7300"

datatype serve_error = ResolveFailed | OptionFailed string | ListenFailed

text \<open>
  The control function of the socket: \<open>setopt\<close> says which options the kernel accepts. The first
  refused option ends it, except that the original destination is optional.
\<close>

definition control_socket :: "(string \<Rightarrow> bool) \<Rightarrow> serve_error option" where
  "control_socket setopt =
     (if \<not> setopt ''IP_TRANSPARENT'' then Some (OptionFailed ''IP_TRANSPARENT'')
      else if \<not> setopt ''IP_PKTINFO'' then Some (OptionFailed ''IP_PKTINFO'')
      else if \<not> setopt ''SO_REUSEADDR'' then Some (OptionFailed ''SO_REUSEADDR'')
      else None)"

definition listenUDPTransparent :: "(string \<Rightarrow> bool) \<Rightarrow> bool \<Rightarrow> serve_error option" where
  "listenUDPTransparent setopt bound =
     (case control_socket setopt of Some e \<Rightarrow> Some e | None \<Rightarrow> if bound then None else Some ListenFailed)"

definition listen_addr :: "string \<Rightarrow> string" where
  "listen_addr a = (if a = '''' then '':'' @ Itoa DefaultPort else a)"

subsection \<open>State\<close>

text \<open>
  \<open>Serve\<close> is at the top of its loop, in the dialer, in a wait for its timer, in \<open>runForwarder\<close>, or has
  returned. A forward loop looks at the context, waits for a packet, holds one that it has read, is
  about to write a frame for a connection id to the connection of a session, or has returned; a read
  loop looks at the context, reads, or has returned.
\<close>

datatype gw_pc = AtTop duration | InDialer duration | InWait duration | InSession | HasReturned

datatype forwarder = Checking | Waiting | Holding udp_addr "byte list" "byte list" | Writing u16 "byte list" nat | Gone

datatype reader = ReaderChecking | Reading | ReaderGone

definition maxPayload :: nat where "maxPayload = 4096"

text \<open>
  The two goroutines of one connection. While the connection is the current one its state is that of
  \<^verbatim>\<open>s.conn\<close>; \<open>Q_conn\<close> is the connection after \<open>Serve\<close> closed it.
\<close>

record session =
  Q_conn :: "conn option"
  Q_read :: reader
  Q_forward :: forwarder

record gateway =
  G_pc :: gw_pc
  G_cancelled :: bool
  G_shutdown :: bool
  G_janitor :: bool
  G_keepalive :: bool
  G_srv :: server
  G_sessions :: "session list"
  G_out :: "(udp_addr \<times> byte list) list"

text \<open>
  \<open>G_cancelled\<close> is the context that \<open>Serve\<close> was called with, \<open>G_shutdown\<close> the server's own;
  \<open>G_janitor\<close> and \<open>G_keepalive\<close> say that these goroutines run. \<open>G_out\<close> are the datagrams sent to the
  local sources.
\<close>

definition gateway_start :: gateway where
  "gateway_start =
     \<lparr>G_pc = AtTop second, G_cancelled = False, G_shutdown = False, G_janitor = True, G_keepalive = True,
      G_srv = Udpgw.NewServer, G_sessions = [], G_out = []\<rparr>"

text \<open>\<open>Serve\<close> up to its loop.\<close>

definition serve_begin ::
  "(string \<Rightarrow> 'u option) \<Rightarrow> (string \<Rightarrow> bool) \<Rightarrow> ('u \<Rightarrow> bool) \<Rightarrow> string \<Rightarrow> serve_error + gateway" where
  "serve_begin resolve setopt bind_udp listenAddr =
     (case resolve (listen_addr listenAddr) of
        None \<Rightarrow> Inl ResolveFailed
      | Some u \<Rightarrow>
          (case listenUDPTransparent setopt (bind_udp u) of
             Some e \<Rightarrow> Inl e
           | None \<Rightarrow> Inr gateway_start))"

subsection \<open>Sessions\<close>

definition upd_session :: "nat \<Rightarrow> (session \<Rightarrow> session) \<Rightarrow> gateway \<Rightarrow> gateway" where
  "upd_session i f g = g\<lparr>G_sessions := (G_sessions g)[i := f (G_sessions g ! i)]\<rparr>"

definition current_session :: "gateway \<Rightarrow> nat" where
  "current_session g = length (G_sessions g) - 1"

definition dial_ok :: "conn \<Rightarrow> gateway \<Rightarrow> gateway" where
  "dial_ok c g =
     g\<lparr>G_pc := InSession, G_srv := (G_srv g)\<lparr>gw_conn := Some c\<rparr>,
       G_sessions := G_sessions g @ [\<lparr>Q_conn = None, Q_read = ReaderChecking, Q_forward = Checking\<rparr>]\<rparr>"

text \<open>\<open>Serve\<close> after \<open>runForwarder\<close>, which returns as soon as one of the two loops has.\<close>

definition session_over :: "gateway \<Rightarrow> gateway" where
  "session_over g =
     upd_session (current_session g) (\<lambda>s. s\<lparr>Q_conn := map_option close_conn (gw_conn (G_srv g))\<rparr>)
       (g\<lparr>G_srv := (G_srv g)\<lparr>gw_conn := None\<rparr>, G_pc := (if G_cancelled g then HasReturned else InWait second)\<rparr>)"

text \<open>The connection that a session's read loop reads.\<close>

definition conn_of :: "nat \<Rightarrow> gateway \<Rightarrow> conn option" where
  "conn_of i g = (case Q_conn (G_sessions g ! i) of None \<Rightarrow> gw_conn (G_srv g) | Some c \<Rightarrow> Some c)"

definition store_conn :: "nat \<Rightarrow> conn \<Rightarrow> gateway \<Rightarrow> gateway" where
  "store_conn i c g =
     (case Q_conn (G_sessions g ! i) of
        None \<Rightarrow> g\<lparr>G_srv := (G_srv g)\<lparr>gw_conn := Some c\<rparr>\<rparr>
      | Some _ \<Rightarrow> upd_session i (\<lambda>s. s\<lparr>Q_conn := Some c\<rparr>) g)"

definition set_forward :: "nat \<Rightarrow> forwarder \<Rightarrow> gateway \<Rightarrow> gateway" where
  "set_forward i f = upd_session i (\<lambda>s. s\<lparr>Q_forward := f\<rparr>)"

definition set_read :: "nat \<Rightarrow> reader \<Rightarrow> gateway \<Rightarrow> gateway" where
  "set_read i r = upd_session i (\<lambda>s. s\<lparr>Q_read := r\<rparr>)"

text \<open>One frame of a read loop. Writing to the local socket fails silently after \<open>Serve\<close> closed it.\<close>

definition read_step :: "nat \<Rightarrow> instant \<Rightarrow> conn \<Rightarrow> gateway \<Rightarrow> gateway" where
  "read_step i now c g =
     (case read_frame now (G_srv g) c of
        (r, srv', c') \<Rightarrow>
          let g1 = store_conn i c' (g\<lparr>G_srv := srv'\<rparr>) in
          (case r of
             Inl _ \<Rightarrow> set_read i ReaderGone g1
           | Inr None \<Rightarrow> set_read i ReaderChecking g1
           | Inr (Some d) \<Rightarrow>
               set_read i ReaderChecking (if G_pc g1 = HasReturned then g1 else g1\<lparr>G_out := G_out g1 @ [d]\<rparr>)))"

text \<open>A forward loop at its top, and after its read of the local socket.\<close>

fun forward_top :: "bool \<Rightarrow> forwarder" where
  "forward_top cancelled = (if cancelled then Gone else Waiting)"

datatype udp_read = GotPacket udp_addr "byte list" "byte list" | TimedOut | ReadFailed

fun after_read :: "udp_read \<Rightarrow> forwarder" where
  "after_read (GotPacket src oob payload) = Holding src oob (take maxPayload payload)"
| "after_read TimedOut = Checking"
| "after_read ReadFailed = Gone"

text \<open>
  A forward loop with a packet, in the two parts that other goroutines can come between: the id is
  allocated and \<^verbatim>\<open>s.conn\<close> read (it is the connection of the current session, whichever session the
  loop was started for), then the frame is written to that connection, which \<open>Serve\<close> may have closed.
\<close>

definition forward_take :: "nat \<Rightarrow> instant \<Rightarrow> udp_addr \<Rightarrow> byte list \<Rightarrow> byte list \<Rightarrow> gateway \<Rightarrow> gateway" where
  "forward_take i now src oob payload g =
     (if length payload < 1 then set_forward i Checking g
      else
        let dst = (case extractDstFromPktInfo oob src of None \<Rightarrow> src | Some d \<Rightarrow> d) in
        case allocateConid now src (G_srv g) of
          (conid, s1) \<Rightarrow>
            set_forward i
              (case gw_conn s1 of
                 None \<Rightarrow> Checking
               | Some _ \<Rightarrow> Writing conid (encodeFrame conid (Some dst) payload) (current_session g))
              (g\<lparr>G_srv := s1\<rparr>))"

definition forward_write :: "nat \<Rightarrow> instant \<Rightarrow> u16 \<Rightarrow> byte list \<Rightarrow> nat \<Rightarrow> gateway \<Rightarrow> gateway" where
  "forward_write i now conid frame k g =
     (case (Q_conn (G_sessions g ! k), gw_conn (G_srv g)) of
        (None, Some c) \<Rightarrow>
          (case write_all frame c of
             (Inl _, c') \<Rightarrow> set_forward i Gone (g\<lparr>G_srv := (G_srv g)\<lparr>gw_conn := Some c'\<rparr>\<rparr>)
           | (Inr _, c') \<Rightarrow>
               set_forward i Checking (g\<lparr>G_srv := (G_srv g)\<lparr>gw_conn := Some c',
                 idleByID := map_store conid now (idleByID (G_srv g))\<rparr>\<rparr>))
      | _ \<Rightarrow> set_forward i Gone g)"

subsection \<open>Events\<close>

datatype gw_event =
    CancelServe
  | ShutdownServer
  | TopOfLoop
  | DialError
  | DialedGateway conn
  | TimerFired
  | SawCancel
  | SessionOver
  | Packet nat udp_addr "byte list" "byte list"
  | PacketTaken nat instant
  | FrameWritten nat instant
  | UDPTimeout nat
  | UDPReadError nat
  | ForwardTop nat
  | FrameRead nat instant
  | ReadError nat
  | ReadTop nat
  | JanitorTick instant
  | KeepaliveTick
  | JanitorEnds
  | KeepaliveEnds

definition read_state :: "nat \<Rightarrow> gateway \<Rightarrow> reader" where
  "read_state i g = (if i < length (G_sessions g) then Q_read (G_sessions g ! i) else ReaderGone)"

definition forward_state :: "nat \<Rightarrow> gateway \<Rightarrow> forwarder" where
  "forward_state i g = (if i < length (G_sessions g) then Q_forward (G_sessions g ! i) else Gone)"

text \<open>
  The steps: \<open>None\<close> when the event cannot happen in the state. The dialer may fail or succeed at any
  time, a read of the gateway connection may fail at any time (its deadline is 65 seconds), and a read
  of the local socket can time out or fail. A loop that has looked at the context before the
  cancellation still ends its read.
\<close>

fun gw_event_step :: "gw_event \<Rightarrow> gateway \<Rightarrow> gateway option" where
  "gw_event_step CancelServe g = Some (g\<lparr>G_cancelled := True\<rparr>)"
| "gw_event_step ShutdownServer g = Some (g\<lparr>G_shutdown := True\<rparr>)"
| "gw_event_step TopOfLoop g =
     (case G_pc g of
        AtTop b \<Rightarrow> Some (g\<lparr>G_pc := (if G_cancelled g then HasReturned else InDialer b)\<rparr>)
      | _ \<Rightarrow> None)"
| "gw_event_step DialError g = (case G_pc g of InDialer b \<Rightarrow> Some (g\<lparr>G_pc := InWait b\<rparr>) | _ \<Rightarrow> None)"
| "gw_event_step (DialedGateway c) g = (case G_pc g of InDialer b \<Rightarrow> Some (dial_ok c g) | _ \<Rightarrow> None)"
| "gw_event_step TimerFired g =
     (case G_pc g of InWait b \<Rightarrow> Some (g\<lparr>G_pc := AtTop (next_backoff b)\<rparr>) | _ \<Rightarrow> None)"
| "gw_event_step SawCancel g =
     (case G_pc g of InWait b \<Rightarrow> if G_cancelled g then Some (g\<lparr>G_pc := HasReturned\<rparr>) else None | _ \<Rightarrow> None)"
| "gw_event_step SessionOver g =
     (if G_pc g = InSession \<and> (read_state (current_session g) g = ReaderGone \<or> forward_state (current_session g) g = Gone)
      then Some (session_over g) else None)"
| "gw_event_step (Packet i src oob payload) g =
     (if forward_state i g = Waiting \<and> G_pc g \<noteq> HasReturned
      then Some (set_forward i (after_read (GotPacket src oob payload)) g) else None)"
| "gw_event_step (PacketTaken i now) g =
     (case forward_state i g of
        Holding src oob payload \<Rightarrow> Some (forward_take i now src oob payload g)
      | _ \<Rightarrow> None)"
| "gw_event_step (FrameWritten i now) g =
     (case forward_state i g of
        Writing conid frame k \<Rightarrow> Some (forward_write i now conid frame k g)
      | _ \<Rightarrow> None)"
| "gw_event_step (UDPTimeout i) g =
     (if forward_state i g = Waiting then Some (set_forward i (after_read TimedOut) g) else None)"
| "gw_event_step (UDPReadError i) g =
     (if forward_state i g = Waiting then Some (set_forward i (after_read ReadFailed) g) else None)"
| "gw_event_step (ForwardTop i) g =
     (if forward_state i g = Checking
      then Some (set_forward i (forward_top (G_cancelled g)) g) else None)"
| "gw_event_step (FrameRead i now) g =
     (if read_state i g = Reading
      then (case conn_of i g of None \<Rightarrow> None | Some c \<Rightarrow> Some (read_step i now c g)) else None)"
| "gw_event_step (ReadError i) g =
     (if read_state i g = Reading then Some (set_read i ReaderGone g) else None)"
| "gw_event_step (ReadTop i) g =
     (if read_state i g = ReaderChecking
      then Some (set_read i (if G_cancelled g then ReaderGone else Reading) g) else None)"
| "gw_event_step (JanitorTick now) g =
     (if G_janitor g then Some (g\<lparr>G_srv := janitor_tick now (G_srv g)\<rparr>) else None)"
| "gw_event_step KeepaliveTick g =
     (if G_keepalive g then Some (g\<lparr>G_srv := keepalive_tick (G_srv g)\<rparr>) else None)"
| "gw_event_step JanitorEnds g = (if G_shutdown g then Some (g\<lparr>G_janitor := False\<rparr>) else None)"
| "gw_event_step KeepaliveEnds g = (if G_shutdown g then Some (g\<lparr>G_keepalive := False\<rparr>) else None)"

fun gw_events :: "gw_event list \<Rightarrow> gateway \<Rightarrow> gateway option" where
  "gw_events [] g = Some g"
| "gw_events (e # es) g = (case gw_event_step e g of None \<Rightarrow> None | Some g' \<Rightarrow> gw_events es g')"

subsection \<open>The invariant\<close>

definition backoff_ok :: "gw_pc \<Rightarrow> bool" where
  "backoff_ok p \<longleftrightarrow>
     (case p of
        AtTop b \<Rightarrow> second \<le> b \<and> b \<le> 30 * second
      | InDialer b \<Rightarrow> second \<le> b \<and> b \<le> 30 * second
      | InWait b \<Rightarrow> second \<le> b \<and> b \<le> 30 * second
      | _ \<Rightarrow> True)"

text \<open>Every connection that was dialed is closed, but for the current one of a running session.\<close>

definition conns :: "gateway \<Rightarrow> conn option list" where
  "conns g = map Q_conn (G_sessions g)"

definition conns_ok :: "gateway \<Rightarrow> bool" where
  "conns_ok g \<longleftrightarrow>
     (\<exists>cs. list_all closed cs \<and> conns g = map Some cs @ (if G_pc g = InSession then [None] else []))"

definition gateway_ok :: "gateway \<Rightarrow> bool" where
  "gateway_ok g \<longleftrightarrow>
     gw_inv (G_srv g) \<and> conns_ok g \<and> (gw_conn (G_srv g) = None \<longleftrightarrow> G_pc g \<noteq> InSession) \<and>
     backoff_ok (G_pc g) \<and> (G_pc g = HasReturned \<longrightarrow> G_cancelled g) \<and>
     (\<not> G_shutdown g \<longrightarrow> G_janitor g \<and> G_keepalive g)"

section \<open>Lemmas\<close>

lemma backoff_ok_simps [simp]:
  "backoff_ok (AtTop b) \<longleftrightarrow> second \<le> b \<and> b \<le> 30 * second"
  "backoff_ok (InDialer b) \<longleftrightarrow> second \<le> b \<and> b \<le> 30 * second"
  "backoff_ok (InWait b) \<longleftrightarrow> second \<le> b \<and> b \<le> 30 * second"
  "backoff_ok InSession" "backoff_ok HasReturned"
  by (simp_all add: backoff_ok_def)

subsection \<open>Frames of the updates\<close>

lemma upd_session_simps [simp]:
  "G_pc (upd_session i f g) = G_pc g" "G_cancelled (upd_session i f g) = G_cancelled g"
  "G_shutdown (upd_session i f g) = G_shutdown g" "G_janitor (upd_session i f g) = G_janitor g"
  "G_keepalive (upd_session i f g) = G_keepalive g" "G_srv (upd_session i f g) = G_srv g"
  "G_out (upd_session i f g) = G_out g"
  "length (G_sessions (upd_session i f g)) = length (G_sessions g)"
  by (simp_all add: upd_session_def)

lemma upd_session_conns [simp]: "(\<And>s. Q_conn (f s) = Q_conn s) \<Longrightarrow> conns (upd_session i f g) = conns g"
  by (cases "i < length (G_sessions g)")
    (simp_all add: conns_def upd_session_def map_update list_update_same_conv list_update_beyond)

lemma conns_update [simp]:
  "conns (g\<lparr>G_srv := s\<rparr>) = conns g" "conns (g\<lparr>G_pc := p\<rparr>) = conns g" "conns (g\<lparr>G_out := out\<rparr>) = conns g"
  "conns (g\<lparr>G_cancelled := b\<rparr>) = conns g" "conns (g\<lparr>G_shutdown := b\<rparr>) = conns g"
  "conns (g\<lparr>G_janitor := b\<rparr>) = conns g" "conns (g\<lparr>G_keepalive := b\<rparr>) = conns g"
  by (simp_all add: conns_def)

lemma set_forward_simps [simp]:
  "G_pc (set_forward i f g) = G_pc g" "G_cancelled (set_forward i f g) = G_cancelled g"
  "G_shutdown (set_forward i f g) = G_shutdown g" "G_janitor (set_forward i f g) = G_janitor g"
  "G_keepalive (set_forward i f g) = G_keepalive g" "G_srv (set_forward i f g) = G_srv g"
  "length (G_sessions (set_forward i f g)) = length (G_sessions g)" "conns (set_forward i f g) = conns g"
  by (simp_all add: set_forward_def)

lemma set_read_simps [simp]:
  "G_pc (set_read i f g) = G_pc g" "G_cancelled (set_read i f g) = G_cancelled g"
  "G_shutdown (set_read i f g) = G_shutdown g" "G_janitor (set_read i f g) = G_janitor g"
  "G_keepalive (set_read i f g) = G_keepalive g" "G_srv (set_read i f g) = G_srv g"
  "length (G_sessions (set_read i f g)) = length (G_sessions g)" "conns (set_read i f g) = conns g"
  by (simp_all add: set_read_def)

lemma read_frame_closed: "read_frame now s c = (r, s', c') \<Longrightarrow> closed c' = closed c"
  by (auto simp: read_frame_def read_full_def Let_def split: prod.splits sum.splits if_splits option.splits)

lemma read_frame_conn: "read_frame now s c = (r, s', c') \<Longrightarrow> gw_conn s' = gw_conn s"
  using read_frame_state by fastforce

lemma janitor_conn [simp]: "gw_conn (janitor_tick now s) = gw_conn s"
proof -
  have "gw_conn (sweep_loop now es s) = gw_conn s" for es by (induction now es s rule: sweep_loop.induct) simp_all
  then show ?thesis by (simp add: janitor_tick_def)
qed

lemma keepalive_conn [simp]: "gw_conn (keepalive_tick s) = None \<longleftrightarrow> gw_conn s = None"
  by (simp add: keepalive_tick_def split: option.split)

lemma gw_inv_keepalive [simp]: "gw_inv (keepalive_tick s) = gw_inv s"
  by (simp add: keepalive_tick_def split: option.split)

text \<open>What a step must not touch for the invariant to pass over it.\<close>

lemma gateway_ok_frame:
  assumes "gateway_ok g" "gw_inv (G_srv g')" "G_pc g' = G_pc g" "conns g' = conns g"
    "gw_conn (G_srv g') = None \<longleftrightarrow> gw_conn (G_srv g) = None"
    "G_cancelled g' = G_cancelled g" "G_shutdown g' = G_shutdown g" "G_janitor g' = G_janitor g"
    "G_keepalive g' = G_keepalive g"
  shows "gateway_ok g'"
  using assms(1,2) unfolding gateway_ok_def conns_ok_def by (simp add: assms(3-))

lemma in_session_conns:
  assumes "gateway_ok g" "G_pc g = InSession"
  obtains cs where "list_all closed cs" "conns g = map Some cs @ [None]" "length cs = current_session g"
    "G_sessions g \<noteq> []"
proof -
  obtain cs where cs: "list_all closed cs" "conns g = map Some cs @ [None]"
    using assms by (auto simp: gateway_ok_def conns_ok_def)
  then have "length (G_sessions g) = Suc (length cs)" by (metis conns_def length_append_singleton length_map)
  then show ?thesis using cs by (intro that [of cs]) (auto simp: current_session_def)
qed

subsection \<open>Every step keeps the invariant\<close>

lemma ok_dial: "gateway_ok g \<Longrightarrow> G_pc g = InDialer b \<Longrightarrow> gateway_ok (dial_ok c g)"
  by (auto simp: gateway_ok_def conns_ok_def dial_ok_def conns_def)

lemma ok_session_over:
  assumes "gateway_ok g" "G_pc g = InSession"
  shows "gateway_ok (session_over g)"
proof -
  obtain cs where cs: "list_all closed cs" "conns g = map Some cs @ [None]" "length cs = current_session g"
    "G_sessions g \<noteq> []" using in_session_conns [OF assms] .
  obtain c where c: "gw_conn (G_srv g) = Some c" using assms by (auto simp: gateway_ok_def)
  have "conns (session_over g) = (conns g)[current_session g := Some (close_conn c)]"
    by (simp add: session_over_def upd_session_def conns_def map_update c)
  then have "conns (session_over g) = map Some (cs @ [close_conn c])"
    by (simp add: cs(2) list_update_append flip: cs(3))
  moreover have "list_all closed (cs @ [close_conn c])" using cs(1) by (simp add: close_conn_def)
  ultimately have "conns_ok (session_over g)" unfolding conns_ok_def
    by (intro exI [of _ "cs @ [close_conn c]"]) (simp add: session_over_def)
  then show ?thesis using assms by (auto simp: gateway_ok_def session_over_def second_def)
qed

lemma ok_forward_take:
  assumes "gateway_ok g"
  shows "gateway_ok (forward_take i now src oob payload g)"
proof -
  obtain n s1 where a: "allocateConid now src (G_srv g) = (n, s1)" by (cases "allocateConid now src (G_srv g)")
  have "gw_inv s1" using assms gw_inv_allocate [of "G_srv g" now src] a by (simp add: gateway_ok_def)
  moreover have "gw_inv (G_srv g)" using assms by (simp add: gateway_ok_def)
  moreover have "gw_conn s1 = gw_conn (G_srv g)" using allocate_conn [of now src "G_srv g"] a by simp
  ultimately show ?thesis
    by (intro gateway_ok_frame [OF assms]) (auto simp: forward_take_def Let_def a)
qed

lemma ok_forward_write:
  assumes "gateway_ok g"
  shows "gateway_ok (forward_write i now n frame k g)"
proof -
  have inv: "gw_inv (G_srv g)" using assms by (simp add: gateway_ok_def)
  then have "gw_inv ((G_srv g)\<lparr>gw_conn := c, idleByID := map_store n now (idleByID (G_srv g))\<rparr>)" for c
    using gw_inv_touch [of "(G_srv g)\<lparr>gw_conn := c\<rparr>" n now] by simp
  with inv show ?thesis
    by (intro gateway_ok_frame [OF assms])
      (auto simp: forward_write_def split: option.splits prod.splits sum.splits)
qed

lemma ok_store:
  assumes ok: "gateway_ok g" and i: "i < length (G_sessions g)" "conn_of i g = Some c"
    and s: "gw_inv s" "gw_conn s = gw_conn (G_srv g)" and c': "closed c' = closed c"
  shows "gateway_ok (store_conn i c' (g\<lparr>G_srv := s\<rparr>))"
proof (cases "Q_conn (G_sessions g ! i)")
  case None
  then have "gw_conn (G_srv g) = Some c" using i(2) by (simp add: conn_of_def)
  then show ?thesis using s
    by (intro gateway_ok_frame [OF ok]) (simp_all add: store_conn_def None)
next
  case (Some c0)
  then have c0: "c0 = c" using i(2) by (simp add: conn_of_def)
  let ?g = "store_conn i c' (g\<lparr>G_srv := s\<rparr>)"
  obtain cs where cs: "list_all closed cs" "conns g = map Some cs @ (if G_pc g = InSession then [None] else [])"
    using ok by (auto simp: gateway_ok_def conns_ok_def)
  have at: "conns g ! i = Some c" using i(1) Some c0 by (simp add: conns_def)
  have "i < length (conns g)" using i(1) by (simp add: conns_def)
  then have l: "i < length cs" using at by (auto simp: cs(2) nth_append split: if_splits)
  have "closed c" using cs(1) l at by (auto simp: cs(2) nth_append list_all_length)
  then have "list_all closed (cs[i := c'])" using cs(1) c' l by (auto simp: list_all_length nth_list_update)
  moreover have "conns ?g = (conns g)[i := Some c']"
    by (simp add: store_conn_def Some upd_session_def conns_def map_update)
  then have "conns ?g = map Some (cs[i := c']) @ (if G_pc g = InSession then [None] else [])"
    using l by (simp add: cs(2) list_update_append map_update)
  ultimately have "conns_ok ?g" unfolding conns_ok_def
    by (intro exI [of _ "cs[i := c']"]) (simp add: store_conn_def Some)
  then show ?thesis using ok s by (simp add: gateway_ok_def store_conn_def Some)
qed

lemma ok_read:
  assumes ok: "gateway_ok g" and i: "read_state i g = Reading" "conn_of i g = Some c"
  shows "gateway_ok (read_step i now c g)"
proof -
  obtain r s c' where f: "read_frame now (G_srv g) c = (r, s, c')" by (cases "read_frame now (G_srv g) c")
  have "gw_inv s" using ok gw_inv_read [OF _ f] by (simp add: gateway_ok_def)
  then have g1: "gateway_ok (store_conn i c' (g\<lparr>G_srv := s\<rparr>))"
    using ok i read_frame_conn [OF f] read_frame_closed [OF f] by (intro ok_store) (auto simp: read_state_def split: if_splits)
  have out: "gateway_ok (store_conn i c' (g\<lparr>G_srv := s\<rparr>)\<lparr>G_out := out\<rparr>)" for out
    using g1 by (intro gateway_ok_frame [OF g1]) (simp_all add: gateway_ok_def)
  have "gateway_ok (set_read i r g0)" if "gateway_ok g0" for r g0
    using that by (intro gateway_ok_frame [OF that]) (simp_all add: gateway_ok_def)
  with g1 out show ?thesis by (simp add: read_step_def f Let_def split: sum.split option.split)
qed

lemma backoff_next: "second \<le> b \<Longrightarrow> b \<le> 30 * second \<Longrightarrow> second \<le> next_backoff b \<and> next_backoff b \<le> 30 * second"
  using gw_backoff.next_in_range [of b] by auto

lemma ok_backoff:
  "gateway_ok g \<Longrightarrow> G_pc g = AtTop b \<or> G_pc g = InDialer b \<or> G_pc g = InWait b \<Longrightarrow>
   second \<le> b \<and> b \<le> 30 * second"
  by (auto simp: gateway_ok_def)

lemma ok_pc:
  assumes "gateway_ok g" "G_pc g \<noteq> InSession" "p \<noteq> InSession" "backoff_ok p" "p = HasReturned \<longrightarrow> G_cancelled g"
  shows "gateway_ok (g\<lparr>G_pc := p\<rparr>)"
  using assms unfolding gateway_ok_def conns_ok_def by simp

lemma gateway_ok_step:
  assumes ok: "gateway_ok g" and st: "gw_event_step e g = Some g'"
  shows "gateway_ok g'"
proof -
  have inv: "gw_inv (G_srv g)" using ok by (simp add: gateway_ok_def)
  show ?thesis
  proof (cases e)
    case (FrameRead i now)
    then show ?thesis using st ok by (auto split: if_splits option.splits intro: ok_read)
  next
    case (PacketTaken i now)
    then show ?thesis using st ok by (auto split: forwarder.splits intro: ok_forward_take)
  next
    case (FrameWritten i now)
    then show ?thesis using st ok by (auto split: forwarder.splits intro: ok_forward_write)
  next
    case (DialedGateway c)
    then show ?thesis using st ok by (auto split: gw_pc.splits intro: ok_dial)
  next
    case SessionOver
    then show ?thesis using st ok by (auto split: if_splits intro: ok_session_over)
  next
    case TopOfLoop
    then show ?thesis using st ok
      by (cases "G_cancelled g") (auto split: gw_pc.splits intro!: ok_pc [OF ok] simp: ok_backoff)
  next
    case DialError
    then show ?thesis using st ok by (auto split: gw_pc.splits intro!: ok_pc [OF ok] simp: ok_backoff)
  next
    case TimerFired
    then show ?thesis using st ok by (auto split: gw_pc.splits intro!: ok_pc [OF ok] simp: ok_backoff backoff_next)
  next
    case SawCancel
    then show ?thesis using st by (auto split: gw_pc.splits if_splits intro!: ok_pc [OF ok])
  next
    case CancelServe
  next
    case CancelServe
    then show ?thesis using st ok by (auto simp: gateway_ok_def conns_ok_def)
  next
    case ShutdownServer
    then show ?thesis using st ok by (auto simp: gateway_ok_def conns_ok_def)
  next
    case JanitorEnds
    then show ?thesis using st ok by (auto simp: gateway_ok_def conns_ok_def split: if_splits)
  next
    case KeepaliveEnds
    then show ?thesis using st ok by (auto simp: gateway_ok_def conns_ok_def split: if_splits)
  qed (use st inv in \<open>auto simp: gw_inv_janitor split: if_splits intro!: gateway_ok_frame [OF ok]\<close>)
qed

lemma gateway_ok_start: "gateway_ok gateway_start"
  by (simp add: gateway_ok_def gateway_start_def conns_ok_def conns_def second_def gw_inv_init)
    (simp add: Udpgw.NewServer_def)

lemma gateway_ok_events: "gw_events es g = Some g' \<Longrightarrow> gateway_ok g \<Longrightarrow> gateway_ok g'"
  by (induction es arbitrary: g) (auto split: option.splits dest: gateway_ok_step)

subsection \<open>After the cancellation\<close>

text \<open>The steps of \<open>Serve\<close> and of the loops of the sessions.\<close>

fun progress :: "gw_event \<Rightarrow> bool" where
  "progress CancelServe \<longleftrightarrow> False"
| "progress ShutdownServer \<longleftrightarrow> False"
| "progress (JanitorTick now) \<longleftrightarrow> False"
| "progress KeepaliveTick \<longleftrightarrow> False"
| "progress JanitorEnds \<longleftrightarrow> False"
| "progress KeepaliveEnds \<longleftrightarrow> False"
| "progress _ \<longleftrightarrow> True"

fun pc_rank :: "gw_pc \<Rightarrow> nat" where
  "pc_rank (InDialer b) = 4"
| "pc_rank (InWait b) = 2"
| "pc_rank (AtTop b) = 1"
| "pc_rank InSession = 1"
| "pc_rank HasReturned = 0"

fun forward_rank :: "forwarder \<Rightarrow> nat" where
  "forward_rank Waiting = 4"
| "forward_rank (Holding src oob payload) = 3"
| "forward_rank (Writing conid frame k) = 2"
| "forward_rank Checking = 1"
| "forward_rank Gone = 0"

fun read_rank :: "reader \<Rightarrow> nat" where
  "read_rank Reading = 2"
| "read_rank ReaderChecking = 1"
| "read_rank ReaderGone = 0"

definition session_rank :: "session \<Rightarrow> nat" where
  "session_rank s = forward_rank (Q_forward s) + read_rank (Q_read s)"

definition gw_rank :: "gateway \<Rightarrow> nat" where
  "gw_rank g = pc_rank (G_pc g) + sum_list (map session_rank (G_sessions g))"

lemma sum_list_set_nth:
  "i < length xs \<Longrightarrow> sum_list (map h (xs[i := y])) + h (xs ! i) = sum_list (map h xs) + (h y :: nat)"
  by (induction xs arbitrary: i) (auto split: nat.split)

lemma rank_upd:
  "i < length (G_sessions g) \<Longrightarrow>
   gw_rank (upd_session i f g) + session_rank (G_sessions g ! i) = gw_rank g + session_rank (f (G_sessions g ! i))"
  using sum_list_set_nth [of i "G_sessions g" session_rank "f (G_sessions g ! i)"]
  by (simp add: gw_rank_def upd_session_def)

lemma rank_set_forward:
  "i < length (G_sessions g) \<Longrightarrow>
   gw_rank (set_forward i f g) + forward_rank (Q_forward (G_sessions g ! i)) = gw_rank g + forward_rank f"
  using rank_upd [of i g "\<lambda>s. s\<lparr>Q_forward := f\<rparr>"] by (simp add: set_forward_def session_rank_def)

lemma rank_set_read:
  "i < length (G_sessions g) \<Longrightarrow>
   gw_rank (set_read i r g) + read_rank (Q_read (G_sessions g ! i)) = gw_rank g + read_rank r"
  using rank_upd [of i g "\<lambda>s. s\<lparr>Q_read := r\<rparr>"] by (simp add: set_read_def session_rank_def)

lemma rank_update [simp]:
  "gw_rank (g\<lparr>G_srv := s\<rparr>) = gw_rank g" "gw_rank (g\<lparr>G_out := out\<rparr>) = gw_rank g"
  "gw_rank (g\<lparr>G_pc := p\<rparr>) + pc_rank (G_pc g) = gw_rank g + pc_rank p"
  by (simp_all add: gw_rank_def)

lemma rank_store: "i < length (G_sessions g) \<Longrightarrow> gw_rank (store_conn i c g) = gw_rank g"
  using rank_upd [of i g "\<lambda>s. s\<lparr>Q_conn := Some c\<rparr>"]
  by (auto simp: store_conn_def session_rank_def split: option.split)

lemma store_simps [simp]:
  "length (G_sessions (store_conn i c g)) = length (G_sessions g)" "G_pc (store_conn i c g) = G_pc g"
  "G_cancelled (store_conn i c g) = G_cancelled g"
  by (simp_all add: store_conn_def split: option.split)

lemma store_reads: "i < length (G_sessions g) \<Longrightarrow> Q_read (G_sessions (store_conn i c g) ! i) = Q_read (G_sessions g ! i)"
  by (simp add: store_conn_def upd_session_def split: option.split)

lemma rank_read:
  assumes "read_state i g = Reading"
  shows "gw_rank (read_step i now c g) < gw_rank g"
proof -
  have i: "i < length (G_sessions g)" "Q_read (G_sessions g ! i) = Reading"
    using assms by (auto simp: read_state_def split: if_splits)
  obtain r s c' where f: "read_frame now (G_srv g) c = (r, s, c')" by (cases "read_frame now (G_srv g) c")
  define g1 where "g1 = store_conn i c' (g\<lparr>G_srv := s\<rparr>)"
  have g1: "gw_rank g1 = gw_rank g" "i < length (G_sessions g1)" "Q_read (G_sessions g1 ! i) = Reading"
    using i rank_store [of i "g\<lparr>G_srv := s\<rparr>" c'] store_reads [of i "g\<lparr>G_srv := s\<rparr>" c'] by (simp_all add: g1_def)
  have "gw_rank (set_read i x g1) < gw_rank g" if "x \<noteq> Reading" for x
    using rank_set_read [of i g1 x] g1 that by (cases x) auto
  moreover have "gw_rank (set_read i ReaderChecking (g1\<lparr>G_out := out\<rparr>)) < gw_rank g" for out
    using rank_set_read [of i "g1\<lparr>G_out := out\<rparr>" ReaderChecking] g1 by simp
  ultimately show ?thesis by (simp add: read_step_def f Let_def flip: g1_def split: sum.split option.split)
qed

lemma rank_forwarded:
  assumes "forward_state i g = f" "forward_rank f' < forward_rank f"
  shows "gw_rank (set_forward i f' (g\<lparr>G_srv := s\<rparr>)) < gw_rank g" "gw_rank (set_forward i f' g) < gw_rank g"
proof -
  have i: "i < length (G_sessions g)" "Q_forward (G_sessions g ! i) = f"
    using assms by (auto simp: forward_state_def split: if_splits)
  show "gw_rank (set_forward i f' g) < gw_rank g" using rank_set_forward [OF i(1), of f'] i assms(2) by simp
  show "gw_rank (set_forward i f' (g\<lparr>G_srv := s\<rparr>)) < gw_rank g"
    using rank_set_forward [of i "g\<lparr>G_srv := s\<rparr>" f'] i assms(2) by simp
qed

lemma rank_session_over:
  assumes "G_cancelled g" "G_pc g = InSession" "G_sessions g \<noteq> []"
  shows "gw_rank (session_over g) < gw_rank g"
proof -
  let ?g = "g\<lparr>G_srv := (G_srv g)\<lparr>gw_conn := None\<rparr>, G_pc := HasReturned\<rparr>"
  have "gw_rank (session_over g) = gw_rank ?g"
    using rank_upd [of "current_session g" ?g "\<lambda>s. s\<lparr>Q_conn := map_option close_conn (gw_conn (G_srv g))\<rparr>"] assms
    by (simp add: session_over_def current_session_def session_rank_def)
  then show ?thesis using assms(2) by (simp add: gw_rank_def)
qed

lemma gw_rank_step:
  assumes ok: "gateway_ok g" and c: "G_cancelled g" and st: "gw_event_step e g = Some g'" and p: "progress e"
  shows "gw_rank g' < gw_rank g"
proof (cases e)
  case TopOfLoop
  then show ?thesis using c st by (auto simp: gw_rank_def split: gw_pc.splits)
next
  case DialError
  then show ?thesis using st by (auto simp: gw_rank_def split: gw_pc.splits)
next
  case (DialedGateway d)
  then show ?thesis using st by (auto simp: gw_rank_def dial_ok_def session_rank_def split: gw_pc.splits)
next
  case TimerFired
  then show ?thesis using st by (auto simp: gw_rank_def split: gw_pc.splits)
next
  case SawCancel
  then show ?thesis using st by (auto simp: gw_rank_def split: gw_pc.splits if_splits)
next
  case SessionOver
  then have s: "G_pc g = InSession" "g' = session_over g" using st by (auto split: if_splits)
  then show ?thesis using in_session_conns [OF ok] rank_session_over [OF c] by metis
next
  case (Packet i src oob payload)
  then show ?thesis using st by (auto split: if_splits intro: rank_forwarded)
next
  case (PacketTaken i now)
  then obtain src oob payload where h: "forward_state i g = Holding src oob payload"
    "g' = forward_take i now src oob payload g" using st by (auto split: forwarder.splits)
  then show ?thesis
    by (auto simp: forward_take_def Let_def split: prod.split option.split intro!: rank_forwarded [OF h(1)])
next
  case (FrameWritten i now)
  then obtain conid frame k where h: "forward_state i g = Writing conid frame k"
    "g' = forward_write i now conid frame k g" using st by (auto split: forwarder.splits)
  then show ?thesis
    by (auto simp: forward_write_def split: prod.split option.split sum.split intro!: rank_forwarded [OF h(1)])
next
  case (UDPTimeout i)
  then show ?thesis using st by (auto split: if_splits intro: rank_forwarded)
next
  case (UDPReadError i)
  then show ?thesis using st by (auto split: if_splits intro: rank_forwarded)
next
  case (ForwardTop i)
  then show ?thesis using st c by (auto split: if_splits intro: rank_forwarded)
next
  case (FrameRead i now)
  then show ?thesis using st by (auto split: if_splits option.splits intro: rank_read)
next
  case (ReadError i)
  then show ?thesis using st rank_set_read [of i g ReaderGone] by (auto simp: read_state_def split: if_splits)
next
  case (ReadTop i)
  then show ?thesis using st c rank_set_read [of i g ReaderGone] by (auto simp: read_state_def split: if_splits)
qed (use p in simp_all)

lemma rank_other:
  assumes "gw_event_step e g = Some g'" "\<not> progress e"
  shows "gw_rank g' = gw_rank g"
  using assms by (cases e) (auto simp: gw_rank_def split: if_splits)

lemma cancelled_kept: "gw_event_step e g = Some g' \<Longrightarrow> G_cancelled g \<Longrightarrow> G_cancelled g'"
  by (cases e)
    (auto simp: dial_ok_def session_over_def forward_take_def forward_write_def read_step_def Let_def
      split: if_splits gw_pc.splits option.splits forwarder.splits prod.splits sum.splits)

lemma rank_events:
  "gw_events es g = Some g' \<Longrightarrow> gateway_ok g \<Longrightarrow> G_cancelled g \<Longrightarrow>
   length (filter progress es) + gw_rank g' \<le> gw_rank g"
proof (induction es arbitrary: g)
  case (Cons e es)
  then obtain g1 where g1: "gw_event_step e g = Some g1" "gw_events es g1 = Some g'" by (auto split: option.splits)
  then have "length (filter progress es) + gw_rank g' \<le> gw_rank g1"
    using Cons by (meson cancelled_kept gateway_ok_step)
  moreover have "gw_rank g1 < gw_rank g" if "progress e" using gw_rank_step [OF Cons.prems(2,3) g1(1) that] .
  moreover have "gw_rank g1 = gw_rank g" if "\<not> progress e" using rank_other [OF g1(1) that] .
  ultimately show ?case by auto
qed simp

lemma gw_rank_bound: "gw_rank g \<le> 4 + 6 * length (G_sessions g)"
proof -
  have "pc_rank p \<le> 4" for p by (cases p) auto
  moreover have "session_rank s \<le> 6" for s
    by (cases "Q_forward s"; cases "Q_read s") (simp_all add: session_rank_def)
  then have "sum_list (map session_rank ss) \<le> 6 * length ss" for ss
    by (induction ss) (auto simp: add_le_mono)
  ultimately show ?thesis by (simp add: gw_rank_def add_le_mono)
qed

text \<open>Everything that \<open>Serve\<close> started has ended, but for the two goroutines of the server's own context.\<close>

definition all_ended :: "gateway \<Rightarrow> bool" where
  "all_ended g \<longleftrightarrow>
     G_pc g = HasReturned \<and> (\<forall>s \<in> set (G_sessions g). Q_forward s = Gone \<and> Q_read s = ReaderGone)"

lemma forward_moves: "forward_state i g \<noteq> Gone \<Longrightarrow> \<exists>e g'. progress e \<and> gw_event_step e g = Some g'"
proof (cases "forward_state i g")
  case Checking
  then show ?thesis by (intro exI [of _ "ForwardTop i"]) simp
next
  case Waiting
  then show ?thesis by (intro exI [of _ "UDPTimeout i"]) simp
next
  case Holding
  then show ?thesis by (intro exI [of _ "PacketTaken i 0"]) simp
next
  case Writing
  then show ?thesis by (intro exI [of _ "FrameWritten i 0"]) simp
qed simp

lemma read_moves: "read_state i g \<noteq> ReaderGone \<Longrightarrow> \<exists>e g'. progress e \<and> gw_event_step e g = Some g'"
proof (cases "read_state i g")
  case Reading
  then show ?thesis by (intro exI [of _ "ReadError i"]) simp
next
  case ReaderChecking
  then show ?thesis by (intro exI [of _ "ReadTop i"]) simp
qed simp

lemma progress_possible:
  assumes "\<not> all_ended g"
  shows "\<exists>e g'. progress e \<and> gw_event_step e g = Some g'"
proof (cases "G_pc g")
  case (AtTop b)
  then show ?thesis by (intro exI [of _ TopOfLoop]) simp
next
  case (InDialer b)
  then show ?thesis by (intro exI [of _ DialError]) simp
next
  case (InWait b)
  then show ?thesis by (intro exI [of _ TimerFired]) simp
next
  case InSession
  show ?thesis
  proof (cases "forward_state (current_session g) g = Gone")
    case True
    then show ?thesis using InSession by (intro exI [of _ SessionOver]) simp
  qed (rule forward_moves)
next
  case HasReturned
  then obtain i where "i < length (G_sessions g)"
    "Q_forward (G_sessions g ! i) \<noteq> Gone \<or> Q_read (G_sessions g ! i) \<noteq> ReaderGone"
    using assms by (auto simp: all_ended_def in_set_conv_nth)
  then have "forward_state i g \<noteq> Gone \<or> read_state i g \<noteq> ReaderGone"
    by (simp add: forward_state_def read_state_def)
  then show ?thesis using forward_moves read_moves by blast
qed

subsection \<open>Shutdown\<close>

text \<open>The events that \<open>Shutdown\<close> leads to, and the state with other values of what they set.\<close>

definition of_shutdown :: "gw_event \<Rightarrow> bool" where
  "of_shutdown e \<longleftrightarrow> e \<in> {ShutdownServer, JanitorEnds, KeepaliveEnds}"

definition own_context :: "bool \<Rightarrow> bool \<Rightarrow> bool \<Rightarrow> gateway \<Rightarrow> gateway" where
  "own_context x y z g = g\<lparr>G_shutdown := x, G_janitor := y, G_keepalive := z\<rparr>"

lemma own_context_simps [simp]:
  "G_pc (own_context x y z g) = G_pc g" "G_cancelled (own_context x y z g) = G_cancelled g"
  "G_srv (own_context x y z g) = G_srv g" "G_sessions (own_context x y z g) = G_sessions g"
  "G_out (own_context x y z g) = G_out g" "G_shutdown (own_context x y z g) = x"
  "G_janitor (own_context x y z g) = y" "G_keepalive (own_context x y z g) = z"
  "forward_state i (own_context x y z g) = forward_state i g" "read_state i (own_context x y z g) = read_state i g"
  "current_session (own_context x y z g) = current_session g" "conn_of i (own_context x y z g) = conn_of i g"
  "own_context x y z (own_context a b c g) = own_context x y z g"
  by (simp_all add: own_context_def forward_state_def read_state_def current_session_def conn_of_def
      split: option.split)

lemma own_context_updates:
  "(own_context x y z g)\<lparr>G_pc := p\<rparr> = own_context x y z (g\<lparr>G_pc := p\<rparr>)"
  "(own_context x y z g)\<lparr>G_srv := s\<rparr> = own_context x y z (g\<lparr>G_srv := s\<rparr>)"
  "(own_context x y z g)\<lparr>G_out := out\<rparr> = own_context x y z (g\<lparr>G_out := out\<rparr>)"
  "(own_context x y z g)\<lparr>G_cancelled := b\<rparr> = own_context x y z (g\<lparr>G_cancelled := b\<rparr>)"
  "upd_session i f (own_context x y z g) = own_context x y z (upd_session i f g)"
  "set_forward i h (own_context x y z g) = own_context x y z (set_forward i h g)"
  "set_read i r (own_context x y z g) = own_context x y z (set_read i r g)"
  "store_conn i c (own_context x y z g) = own_context x y z (store_conn i c g)"
  "dial_ok c (own_context x y z g) = own_context x y z (dial_ok c g)"
  by (simp_all add: own_context_def upd_session_def set_forward_def set_read_def store_conn_def dial_ok_def
      split: option.split)

lemma own_context_steps:
  "session_over (own_context x y z g) = own_context x y z (session_over g)"
  "forward_take i now src oob payload (own_context x y z g) = own_context x y z (forward_take i now src oob payload g)"
  "forward_write i now n frame k (own_context x y z g) = own_context x y z (forward_write i now n frame k g)"
  "read_step i now d (own_context x y z g) = own_context x y z (read_step i now d g)"
proof -
  show "session_over (own_context x y z g) = own_context x y z (session_over g)"
    by (simp add: session_over_def own_context_updates)
  show "forward_take i now src oob payload (own_context x y z g) = own_context x y z (forward_take i now src oob payload g)"
    by (simp add: forward_take_def Let_def own_context_updates split: prod.split cong: option.case_cong)
  show "forward_write i now n frame k (own_context x y z g) = own_context x y z (forward_write i now n frame k g)"
    by (simp add: forward_write_def own_context_updates split: prod.split sum.split option.split)
  show "read_step i now d (own_context x y z g) = own_context x y z (read_step i now d g)"
    by (simp add: read_step_def Let_def own_context_updates split: prod.split sum.split option.split)
qed

lemma own_context_event:
  assumes "\<not> of_shutdown e" "G_janitor g \<longrightarrow> y" "G_keepalive g \<longrightarrow> z" "gw_event_step e g = Some g'"
  shows "gw_event_step e (own_context x y z g) = Some (own_context x y z g')"
  using assms
  by (cases e)
    (auto simp: of_shutdown_def own_context_updates own_context_steps
      split: if_splits gw_pc.splits option.splits forwarder.splits)

lemma own_context_id: "own_context (G_shutdown g) (G_janitor g) (G_keepalive g) g = g"
  by (simp add: own_context_def)

lemma own_context_kept:
  "\<not> of_shutdown e \<Longrightarrow> gw_event_step e g = Some g' \<Longrightarrow>
   G_shutdown g' = G_shutdown g \<and> G_janitor g' = G_janitor g \<and> G_keepalive g' = G_keepalive g"
  using own_context_event [of e g "G_janitor g" "G_keepalive g" g' "G_shutdown g"]
  by (metis (no_types) own_context_id own_context_simps(6-8) option.inject)

lemma shutdown_adds:
  "gw_events es g = Some g' \<Longrightarrow>
   gw_events es (own_context True (G_janitor g) (G_keepalive g) g) = Some (own_context True (G_janitor g') (G_keepalive g') g')"
proof (induction es arbitrary: g)
  case (Cons e es)
  then obtain g1 where g1: "gw_event_step e g = Some g1" "gw_events es g1 = Some g'" by (auto split: option.splits)
  have "gw_event_step e (own_context True (G_janitor g) (G_keepalive g) g) =
      Some (own_context True (G_janitor g1) (G_keepalive g1) g1)"
  proof (cases "of_shutdown e")
    case True
    then show ?thesis using g1(1) by (cases e) (auto simp: of_shutdown_def own_context_def split: if_splits)
  next
    case False
    then show ?thesis using own_context_event [OF False _ _ g1(1)] own_context_kept [OF False g1(1)] by simp
  qed
  then show ?case using Cons.IH [OF g1(2)] by simp
qed simp

lemma shutdown_erased:
  "gw_events es g = Some g' \<Longrightarrow>
   gw_events (filter (\<lambda>e. \<not> of_shutdown e) es) (own_context x True True g) = Some (own_context x True True g')"
proof (induction es arbitrary: g)
  case (Cons e es)
  then obtain g1 where g1: "gw_event_step e g = Some g1" "gw_events es g1 = Some g'" by (auto split: option.splits)
  show ?case
  proof (cases "of_shutdown e")
    case True
    then have "own_context x True True g1 = own_context x True True g"
      using g1(1) by (cases e) (auto simp: of_shutdown_def own_context_def split: if_splits)
    then show ?thesis using Cons.IH [OF g1(2)] True by simp
  next
    case False
    then show ?thesis using own_context_event [OF False _ _ g1(1)] Cons.IH [OF g1(2)] by simp
  qed
qed simp

subsection \<open>Lost connections\<close>

text \<open>The \<open>k\<close>-th connection is made, its loops start, and its read loop fails.\<close>

definition lost_connection :: "conn \<Rightarrow> nat \<Rightarrow> gw_event list" where
  "lost_connection c k =
     [TopOfLoop, DialedGateway c, ForwardTop k, ReadTop k, ReadError k, SessionOver, TimerFired]"

definition lost_session :: "conn \<Rightarrow> session" where
  "lost_session c = \<lparr>Q_conn = Some (close_conn c), Q_read = ReaderGone, Q_forward = Waiting\<rparr>"

lemma gw_events_append:
  "gw_events (es @ fs) g = (case gw_events es g of None \<Rightarrow> None | Some g' \<Rightarrow> gw_events fs g')"
  by (induction es arbitrary: g) (auto split: option.split)

lemma lost_connection_run:
  assumes "G_pc g = AtTop b" "\<not> G_cancelled g" "length (G_sessions g) = k"
  shows "\<exists>g'. gw_events (lost_connection c k) g = Some g' \<and> G_pc g' = AtTop (next_backoff second) \<and>
     \<not> G_cancelled g' \<and> G_sessions g' = G_sessions g @ [lost_session c]"
  using assms
  by (auto simp: lost_connection_def dial_ok_def forward_state_def read_state_def set_forward_def set_read_def
      upd_session_def session_over_def current_session_def lost_session_def nth_append list_update_append)

lemma lost_connections_run:
  "\<exists>g. gw_events (concat (map (lost_connection c) [0..<n])) gateway_start = Some g \<and> (\<exists>b. G_pc g = AtTop b) \<and>
     \<not> G_cancelled g \<and> G_sessions g = replicate n (lost_session c)"
proof (induction n)
  case 0
  then show ?case by (simp add: gateway_start_def)
next
  case (Suc n)
  then obtain g b where g: "gw_events (concat (map (lost_connection c) [0..<n])) gateway_start = Some g"
    "G_pc g = AtTop b" "\<not> G_cancelled g" "G_sessions g = replicate n (lost_session c)" by blast
  with lost_connection_run [of g b n c] show ?case
    by (auto simp: gw_events_append replicate_append_same)
qed

text \<open>Without an interleaving the two parts of a forward loop are \<open>forward_packet\<close>.\<close>

lemma forward_uninterrupted:
  assumes "i < length (G_sessions g)" "G_pc g = InSession" "gateway_ok g"
    "forward_state i (forward_take i now src oob payload g) = Writing n frame k"
  shows "G_srv (forward_write i later n frame k (forward_take i now src oob payload g)) =
     snd (forward_packet now later src oob payload (G_srv g))"
proof -
  obtain cs where cs: "conns g = map Some cs @ [None]" "length cs = current_session g" "G_sessions g \<noteq> []"
    using in_session_conns [OF assms(3,2)] by metis
  have "Q_conn (G_sessions g ! current_session g) = conns g ! current_session g"
    using cs(3) by (simp add: conns_def current_session_def)
  then have q: "Q_conn (G_sessions g ! current_session g) = None" by (simp add: cs(1) nth_append flip: cs(2))
  define d where "d = (case extractDstFromPktInfo oob src of None \<Rightarrow> src | Some d \<Rightarrow> d)"
  obtain m s1 where al: "allocateConid now src (G_srv g) = (m, s1)" by (cases "allocateConid now src (G_srv g)")
  obtain c where c: "gw_conn s1 = Some c"
    using assms(2,3) allocate_conn [of now src "G_srv g"] al by (auto simp: gateway_ok_def)
  have at: "forward_state i (set_forward i f h) = f" if "length (G_sessions h) = length (G_sessions g)" for f h
    using that assms(1) by (simp add: forward_state_def set_forward_def upd_session_def)
  have p: "\<not> length payload < 1" using assms(4) at by (auto simp: forward_take_def)
  have t: "forward_take i now src oob payload g =
      set_forward i (Writing m (encodeFrame m (Some d) payload) (current_session g)) (g\<lparr>G_srv := s1\<rparr>)"
    using p by (simp add: forward_take_def al c flip: d_def)
  then have w: "n = m" "frame = encodeFrame m (Some d) payload" "k = current_session g"
    using assms(4) at [of "g\<lparr>G_srv := s1\<rparr>"] unfolding t by auto
  have "Q_conn (G_sessions (set_forward i f (g\<lparr>G_srv := s1\<rparr>)) ! k) = None" for f
    using q assms(1) by (simp add: w(3) set_forward_def upd_session_def nth_list_update)
  then show ?thesis
    using p by (simp add: t w(1,2) forward_write_def forward_packet_def al c Let_def flip: d_def split: prod.split sum.split)
qed

section \<open>Properties\<close>

text \<open>C6. In every interleaving of \<open>Serve\<close>, the loops of all its sessions, the janitor, the keepalive, a
  cancellation and a shutdown: connection ids and sources determine each other, id 0 is unused and
  every flow has an idle time; \<^verbatim>\<open>s.conn\<close> is set exactly while a session runs, and every connection
  that was dialed before is closed, so none is lost; the reconnect delay stays between 1 and 30
  seconds; and \<open>Serve\<close> returns only when its context is cancelled.\<close>

theorem gateway_loop_invariant:
  assumes "gw_events es gateway_start = Some g"
  shows "gw_inv (G_srv g) \<and>
    (\<exists>cs. list_all closed cs \<and>
       map Q_conn (G_sessions g) = map Some cs @ (if gw_conn (G_srv g) = None then [] else [None])) \<and>
    (gw_conn (G_srv g) = None \<longleftrightarrow> G_pc g \<noteq> InSession) \<and> backoff_ok (G_pc g) \<and>
    (G_pc g = HasReturned \<longrightarrow> G_cancelled g)"
  using gateway_ok_events [OF assms gateway_ok_start] unfolding gateway_ok_def conns_ok_def conns_def by auto

definition demo_gateway :: conn where
  "demo_gateway = \<lparr>inp = [0, 1, 0, 2, 7, 8], outp = [], writes_left = 5, closed = False\<rparr>"

definition demo_session :: "gw_event list" where
  "demo_session =
     [TopOfLoop, DialError, TimerFired, TopOfLoop, DialedGateway demo_gateway, ForwardTop 0, ReadTop 0,
      Packet 0 (gw_src 53) [] [9], PacketTaken 0 1, FrameWritten 0 2, FrameRead 0 3, ReadTop 0, ReadError 0,
      SessionOver]"

lemma demo_session_run:
  "map_option (\<lambda>g. (G_out g, G_pc g, map (map_option closed \<circ> Q_conn) (G_sessions g))) (gw_events demo_session gateway_start) =
     Some ([(gw_src 53, [7, 8])], InWait second, [Some True])"
  by code_simp

theorem gateway_loop_invariant_witness:
  "\<exists>g. gw_events demo_session gateway_start = Some g \<and> G_out g = [(gw_src 53, [7, 8])] \<and> gw_inv (G_srv g)"
  using demo_session_run gateway_loop_invariant [of demo_session] by auto

text \<open>C16. A cancelled gateway ends. After the cancellation \<open>Serve\<close> and the loops of all its sessions take at
  most \<open>4 + 6 n\<close> steps together, \<open>n\<close> being the number of connections dialed so far, whatever packets
  and frames still arrive, and as long as one of them has not returned, one of them can take a step.\<close>

theorem gateway_stops:
  assumes "gw_events es gateway_start = Some g" "G_cancelled g"
  shows "(\<forall>fs g'. gw_events fs g = Some g' \<longrightarrow>
            length (filter progress fs) \<le> 4 + 6 * length (G_sessions g)) \<and>
         (\<not> all_ended g \<longrightarrow> (\<exists>e g'. progress e \<and> gw_event_step e g = Some g'))"
proof (intro conjI allI impI)
  fix fs g' assume "gw_events fs g = Some g'"
  then have "length (filter progress fs) + gw_rank g' \<le> gw_rank g"
    using rank_events gateway_ok_events [OF assms(1) gateway_ok_start] assms(2) by blast
  then show "length (filter progress fs) \<le> 4 + 6 * length (G_sessions g)" using gw_rank_bound [of g] by linarith
qed (rule progress_possible)

theorem gateway_stops_witness:
  "\<exists>g. gw_events (demo_session @ [CancelServe]) gateway_start = Some g \<and>
     (\<exists>e g'. progress e \<and> gw_event_step e g = Some g')"
proof -
  obtain g where g: "gw_events demo_session gateway_start = Some g" "G_pc g = InWait second"
    using demo_session_run by auto
  then have c: "gw_events (demo_session @ [CancelServe]) gateway_start = Some (g\<lparr>G_cancelled := True\<rparr>)"
    by (simp add: gw_events_append)
  have "\<not> all_ended (g\<lparr>G_cancelled := True\<rparr>)" using g(2) by (simp add: all_ended_def)
  with gateway_stops [OF c] c show ?thesis by auto
qed

text \<open>C25. \<open>Shutdown\<close> does not stop the gateway. Whatever the gateway did without it, it can still do after
  it, step by step and with the same result; and in any history the shutdowns, with the two goroutines
  that they end (the janitor and the keepalive), can be left out without a change to the tables, the
  sessions, the datagrams delivered or the place where \<open>Serve\<close> is.\<close>

theorem shutdown_ends_only_the_tickers:
  assumes "gw_events es gateway_start = Some g"
  shows "gw_events (ShutdownServer # es) gateway_start = Some (g\<lparr>G_shutdown := True\<rparr>) \<and>
         gw_events (filter (\<lambda>e. \<not> of_shutdown e) es) gateway_start =
           Some (g\<lparr>G_shutdown := False, G_janitor := True, G_keepalive := True\<rparr>)"
proof -
  have start: "own_context True True True gateway_start = gateway_start\<lparr>G_shutdown := True\<rparr>"
    "own_context False True True gateway_start = gateway_start"
    by (simp_all add: own_context_def gateway_start_def)
  have "gw_events es (gateway_start\<lparr>G_shutdown := True\<rparr>) = Some (own_context True (G_janitor g) (G_keepalive g) g)"
    using shutdown_adds [OF assms] by (simp add: gateway_start_def own_context_def)
  moreover have "own_context True (G_janitor g) (G_keepalive g) g = g\<lparr>G_shutdown := True\<rparr>"
    by (simp add: own_context_def)
  ultimately show ?thesis
    using shutdown_erased [OF assms, of False] start by (simp add: own_context_def)
qed

theorem shutdown_ends_only_the_tickers_witness:
  "\<exists>g. gw_events (ShutdownServer # demo_session) gateway_start = Some g \<and> G_out g = [(gw_src 53, [7, 8])]"
  using demo_session_run shutdown_ends_only_the_tickers [of demo_session] by auto

text \<open>A lost connection leaves its forward loop behind: after \<open>n\<close> connections whose read loop failed
  the gateway has \<open>n\<close> forward loops that wait for packets on the one local socket, beside the loop of
  the connection that it dials then.\<close>

theorem lost_connections_pile_up:
  "\<exists>g. gw_events (concat (map (lost_connection c) [0..<n]) @ [TopOfLoop, DialedGateway d, ForwardTop n]) gateway_start = Some g \<and>
     length (filter (\<lambda>s. Q_forward s = Waiting) (G_sessions g)) = Suc n \<and>
     length (filter (\<lambda>s. Q_read s = ReaderGone) (G_sessions g)) = n \<and> \<not> G_cancelled g"
proof -
  obtain g b where g: "gw_events (concat (map (lost_connection c) [0..<n])) gateway_start = Some g"
    "G_pc g = AtTop b" "\<not> G_cancelled g" "G_sessions g = replicate n (lost_session c)"
    using lost_connections_run by blast
  then show ?thesis
    by (simp add: gw_events_append dial_ok_def forward_state_def set_forward_def upd_session_def nth_append
        list_update_append lost_session_def)
qed

end
