(* ===== verification/Config.thy ===== *)
theory Config
  imports GoStrings
begin

text \<open>
  \<^verbatim>\<open>internal/config/config.go\<close>: the configuration and profile types as records with the fields of
  the Go structs, \<open>DefaultConfig\<close>, \<open>Normalize\<close>, the profile list operations and the slug helpers, and
  loading and saving through a file system with faults. The JSON encoder and decoder of the
  standard library are parameters (\<open>mar\<close>, \<open>unm\<close>), and what is relied on is stated as \<open>codec_ok\<close>
  where a theorem needs it: decoding an encoded document gives it back.
\<close>

section \<open>Definitions\<close>

subsection \<open>Configuration\<close>

record module_cfg =
  Module_Name :: string
  Module_WorkDir :: string
  Module_LogDir :: string
  Module_ManualStart :: bool

record api_cfg =
  API_Enabled :: bool
  API_Host :: string
  API_Port :: int

record dns_cfg =
  DNS_Enabled :: bool
  DNS_Mode :: string
  DNS_Hijack :: bool
  DNS_DoH :: bool
  DNS_Servers :: "string list"
  DNS_TimeoutSec :: int
  DNS_Note :: string

record transport_support_cfg =
  SupportedModes :: "string list"
  PayloadIsCore :: bool

record local_proxy_cfg =
  SocksEnabled :: bool
  SocksHost :: string
  SocksPort :: int

record transparent_cfg =
  TP_Enabled :: bool
  TP_TCPPort :: int
  TP_ChainsPrefix :: string
  TP_ApplyAfterSSH :: bool

record hotspot_cfg =
  Hotspot_Enabled :: bool
  Hotspot_TCP :: bool
  Hotspot_DNS :: bool
  Hotspot_Interfaces :: "string list"

record performance_cfg =
  BufferSize :: int
  ConnectTimeoutSec :: int
  KeepAliveSec :: int
  SSHPoolSize :: int
  MaxStreamsPerSSH :: int
  StreamIdleTimeoutSec :: int
  VerboseTransparentLogs :: bool
  MemoryLimitMB :: int

record config =
  CModule :: module_cfg
  CAPI :: api_cfg
  CDNS :: dns_cfg
  CTransport :: transport_support_cfg
  CLocalProxy :: local_proxy_cfg
  CTransparentProxy :: transparent_cfg
  CHotspot :: hotspot_cfg
  CPerformance :: performance_cfg

definition default_ifaces :: "string list" where
  "default_ifaces = [''wlan+'', ''swlan+'', ''ap+'', ''rndis+'', ''ncm+'', ''bt-pan+'']"

definition DefaultConfig :: config where
  "DefaultConfig =
     \<lparr>CModule = \<lparr>Module_Name = ''SSHCustom-Magisk'', Module_WorkDir = ''/data/adb/sshcustom'',
        Module_LogDir = ''/data/adb/sshcustom/run'', Module_ManualStart = True\<rparr>,
      CAPI = \<lparr>API_Enabled = True, API_Host = ''127.0.0.1'', API_Port = 9190\<rparr>,
      CDNS = \<lparr>DNS_Enabled = False, DNS_Mode = ''device'', DNS_Hijack = False, DNS_DoH = False,
        DNS_Servers = [], DNS_TimeoutSec = 4, DNS_Note = ''''\<rparr>,
      CTransport = \<lparr>SupportedModes = [''direct'', ''http_proxy'', ''tls_sni'', ''http_proxy_tls_sni''],
        PayloadIsCore = True\<rparr>,
      CLocalProxy = \<lparr>SocksEnabled = True, SocksHost = ''127.0.0.1'', SocksPort = 1080\<rparr>,
      CTransparentProxy = \<lparr>TP_Enabled = True, TP_TCPPort = 10810, TP_ChainsPrefix = ''SSHC'',
        TP_ApplyAfterSSH = True\<rparr>,
      CHotspot = \<lparr>Hotspot_Enabled = True, Hotspot_TCP = True, Hotspot_DNS = False,
        Hotspot_Interfaces = default_ifaces\<rparr>,
      CPerformance = \<lparr>BufferSize = 131072, ConnectTimeoutSec = 25, KeepAliveSec = 15,
        SSHPoolSize = 1, MaxStreamsPerSSH = 256, StreamIdleTimeoutSec = 120,
        VerboseTransparentLogs = False, MemoryLimitMB = 0\<rparr>\<rparr>"

definition Normalize :: "config \<Rightarrow> config" where
  "Normalize c =
     c\<lparr>CDNS := (CDNS c)\<lparr>
         DNS_Mode := (if DNS_Mode (CDNS c) = '''' then ''device'' else DNS_Mode (CDNS c)),
         DNS_TimeoutSec := (if DNS_TimeoutSec (CDNS c) \<le> 0 then 4 else DNS_TimeoutSec (CDNS c))\<rparr>,
       CHotspot := (CHotspot c)\<lparr>
         Hotspot_Interfaces := (if Hotspot_Interfaces (CHotspot c) = [] then default_ifaces
                                else Hotspot_Interfaces (CHotspot c))\<rparr>,
       CTransparentProxy := (CTransparentProxy c)\<lparr>
         TP_TCPPort := (if TP_TCPPort (CTransparentProxy c) \<le> 0 then 10810
                        else TP_TCPPort (CTransparentProxy c)),
         TP_ChainsPrefix := (if TP_ChainsPrefix (CTransparentProxy c) = '''' then ''SSHC''
                             else TP_ChainsPrefix (CTransparentProxy c))\<rparr>,
       CPerformance := (CPerformance c)\<lparr>
         BufferSize := (if BufferSize (CPerformance c) \<le> 0 then 128 * 1024
                        else BufferSize (CPerformance c)),
         KeepAliveSec := (if KeepAliveSec (CPerformance c) \<le> 0 then 15
                          else KeepAliveSec (CPerformance c)),
         ConnectTimeoutSec := (if ConnectTimeoutSec (CPerformance c) \<le> 0 then 20
                               else ConnectTimeoutSec (CPerformance c)),
         MaxStreamsPerSSH := (if MaxStreamsPerSSH (CPerformance c) \<le> 0 then 256
                              else MaxStreamsPerSSH (CPerformance c)),
         StreamIdleTimeoutSec := (if StreamIdleTimeoutSec (CPerformance c) \<le> 0 then 120
                                  else StreamIdleTimeoutSec (CPerformance c))\<rparr>,
       CLocalProxy := (CLocalProxy c)\<lparr>
         SocksPort := (if SocksPort (CLocalProxy c) \<le> 0 then 1080
                       else SocksPort (CLocalProxy c))\<rparr>\<rparr>"

text \<open>The fields that \<open>Normalize\<close> guarantees.\<close>

definition normalized :: "config \<Rightarrow> bool" where
  "normalized c \<longleftrightarrow>
     DNS_Mode (CDNS c) \<noteq> '''' \<and> 0 < DNS_TimeoutSec (CDNS c) \<and>
     Hotspot_Interfaces (CHotspot c) \<noteq> [] \<and>
     0 < TP_TCPPort (CTransparentProxy c) \<and> TP_ChainsPrefix (CTransparentProxy c) \<noteq> '''' \<and>
     0 < BufferSize (CPerformance c) \<and> 0 < KeepAliveSec (CPerformance c) \<and>
     0 < ConnectTimeoutSec (CPerformance c) \<and> 0 < MaxStreamsPerSSH (CPerformance c) \<and>
     0 < StreamIdleTimeoutSec (CPerformance c) \<and> 0 < SocksPort (CLocalProxy c)"

definition SecondsDefault :: "int \<Rightarrow> int \<Rightarrow> int" where
  "SecondsDefault v d = (if v \<le> 0 then d else v)"

subsection \<open>Profiles\<close>

record ssh =
  SSH_Host :: string
  SSH_Port :: int
  SSH_Username :: string
  SSH_Password :: string
  SSH_AuthType :: string
  SSH_FallbackIPs :: "string list"

record http_proxy_cfg =
  HP_Host :: string
  HP_Port :: int
  HP_ConnectMethod :: string
  HP_FallbackIPs :: "string list"

record tls_cfg =
  TLS_Enabled :: bool
  TLS_ServerName :: string
  TLS_InsecureSkipVerify :: bool
  TLS_ALPN :: "string list"

record payload_cfg =
  PL_Enabled :: bool
  PL_Template :: string
  PL_SendTiming :: string
  PL_ReadResponse :: bool
  PL_AllowStatuses :: "int list"

record transport =
  TR_Mode :: string
  TR_Chain :: "string list"
  TR_HTTPProxy :: "http_proxy_cfg option"
  TR_TLS :: "tls_cfg option"
  TR_Payload :: payload_cfg

record profile =
  P_ID :: string
  P_Name :: string
  P_Selected :: bool
  P_SSH :: ssh
  P_Transport :: transport

record profiles_file =
  SelectedID :: string
  Profiles :: "profile list"

record save_profile_request =
  Req_ID :: string
  Req_Name :: string
  Req_Select :: bool
  Req_Restart :: bool
  Req_SSH :: ssh
  Req_Mode :: string
  Req_HTTPProxy :: "http_proxy_cfg option"
  Req_TLS :: "tls_cfg option"
  Req_Payload :: payload_cfg

datatype config_error = SelectedIDRequired | ProfileNotFound string | DeleteNotFound

text \<open>\<^verbatim>\<open>SelectedProfile\<close> returns a pointer into the list: its index, \<open>None\<close> for \<^verbatim>\<open>nil\<close>.\<close>

fun index_where :: "('a \<Rightarrow> bool) \<Rightarrow> 'a list \<Rightarrow> nat option" where
  "index_where P [] = None"
| "index_where P (x # xs) = (if P x then Some 0 else map_option Suc (index_where P xs))"

definition selected_index :: "profiles_file \<Rightarrow> nat option" where
  "selected_index pf =
     (let byid = (if SelectedID pf \<noteq> '''' then index_where (\<lambda>p. P_ID p = SelectedID pf) (Profiles pf)
                  else None) in
      case byid of
        Some i \<Rightarrow> Some i
      | None \<Rightarrow>
          (case index_where P_Selected (Profiles pf) of
             Some i \<Rightarrow> Some i
           | None \<Rightarrow> if 0 < length (Profiles pf) then Some 0 else None))"

definition SelectedProfile :: "profiles_file \<Rightarrow> profile option" where
  "SelectedProfile pf = map_option (\<lambda>i. Profiles pf ! i) (selected_index pf)"

text \<open>\<^verbatim>\<open>SelectByID\<close> writes the flags before it knows whether the id exists, so the list is part of
  the result on every path.\<close>

definition mark_selected :: "string \<Rightarrow> profile list \<Rightarrow> profile list" where
  "mark_selected i ps = map (\<lambda>p. p\<lparr>P_Selected := (P_ID p = i)\<rparr>) ps"

definition SelectByID :: "string \<Rightarrow> profiles_file \<Rightarrow> config_error option \<times> profiles_file" where
  "SelectByID id0 pf =
     (let i = TrimSpace id0 in
      if i = '''' then (Some SelectedIDRequired, pf)
      else
        let ps = mark_selected i (Profiles pf); pf1 = pf\<lparr>Profiles := ps\<rparr> in
        if \<not> list_ex P_Selected ps then (Some (ProfileNotFound i), pf1)
        else (None, pf1\<lparr>SelectedID := i\<rparr>))"

definition DeleteProfile :: "string \<Rightarrow> profiles_file \<Rightarrow> config_error option \<times> profiles_file" where
  "DeleteProfile i pf =
     (case index_where (\<lambda>p. P_ID p = i) (Profiles pf) of
        None \<Rightarrow> (Some DeleteNotFound, pf)
      | Some k \<Rightarrow>
          (None, pf\<lparr>Profiles := take k (Profiles pf) @ drop (Suc k) (Profiles pf),
                   SelectedID := (if SelectedID pf = i then '''' else SelectedID pf)\<rparr>))"

subsection \<open>Slugs and fresh identifiers\<close>

definition slug_ok :: "char \<Rightarrow> bool" where
  "slug_ok c \<longleftrightarrow>
     (let n = (of_char c :: nat) in (97 \<le> n \<and> n \<le> 122) \<or> (48 \<le> n \<and> n \<le> 57))"

fun slug_loop :: "bool \<Rightarrow> string \<Rightarrow> string" where
  "slug_loop lastDash [] = []"
| "slug_loop lastDash (r # rs) =
     (if slug_ok r then r # slug_loop False rs
      else if \<not> lastDash then CHR ''-'' # slug_loop True rs
      else slug_loop True rs)"

definition Slugify :: "string \<Rightarrow> string" where
  "Slugify s = trim_byte (CHR ''-'') (slug_loop False (ToLower (TrimSpace s)))"

definition candidate :: "string \<Rightarrow> nat \<Rightarrow> string" where
  "candidate base i = base @ ''-'' @ Itoa (int i)"

fun first_free :: "string set \<Rightarrow> string \<Rightarrow> nat list \<Rightarrow> string option" where
  "first_free used base [] = None"
| "first_free used base (i # is) =
     (if candidate base i \<notin> used then Some (candidate base i) else first_free used base is)"

text \<open>\<open>now\<close> is the clock's Unix time, used when all the numbered candidates are taken.\<close>

definition UniqueProfileID :: "int \<Rightarrow> profiles_file \<Rightarrow> string \<Rightarrow> string" where
  "UniqueProfileID now pf base0 =
     (let b = trim_byte (CHR ''-'') (Slugify base0);
          base = (if b = '''' then ''profile'' else b);
          used = set (map P_ID (Profiles pf)) in
      if base \<notin> used then base
      else case first_free used base [2..<10000] of
             Some c \<Rightarrow> c
           | None \<Rightarrow> base @ ''-'' @ Itoa now)"

subsection \<open>Files\<close>

text \<open>
  The part of the file system that the daemon's documents live in. A write to a path in
  \<open>wr_fault\<close> fails and leaves the given junk (or nothing) there; a rename in \<open>mv_fault\<close> fails and
  changes nothing; otherwise \<^verbatim>\<open>os.WriteFile\<close> replaces the content and \<^verbatim>\<open>os.Rename\<close> moves it in one
  step.
\<close>

record fs =
  disk :: "string \<Rightarrow> string option"
  wr_fault :: "string \<Rightarrow> string option option"
  mv_fault :: "string \<Rightarrow> bool"

datatype file_error = ReadError | DecodeError | EncodeError | WriteError | RenameError

definition write_file :: "string \<Rightarrow> string \<Rightarrow> fs \<Rightarrow> file_error option \<times> fs" where
  "write_file path b f =
     (case wr_fault f path of
        Some junk \<Rightarrow> (Some WriteError, f\<lparr>disk := (disk f)(path := junk)\<rparr>)
      | None \<Rightarrow> (None, f\<lparr>disk := (disk f)(path := Some b)\<rparr>))"

definition rename_file :: "string \<Rightarrow> string \<Rightarrow> fs \<Rightarrow> file_error option \<times> fs" where
  "rename_file old new f =
     (if mv_fault f new then (Some RenameError, f)
      else (None, f\<lparr>disk := (disk f)(new := disk f old, old := None)\<rparr>))"

definition save_doc ::
  "('d \<Rightarrow> string option) \<Rightarrow> string \<Rightarrow> 'd \<Rightarrow> fs \<Rightarrow> file_error option \<times> fs" where
  "save_doc mar path d f =
     (case mar d of
        None \<Rightarrow> (Some EncodeError, f)
      | Some b \<Rightarrow>
          (case write_file (path @ ''.tmp'') (b @ [nl]) f of
             (Some e, f') \<Rightarrow> (Some e, f')
           | (None, f') \<Rightarrow> rename_file (path @ ''.tmp'') path f'))"

definition load_doc :: "(string \<Rightarrow> 'd option) \<Rightarrow> string \<Rightarrow> fs \<Rightarrow> file_error + 'd" where
  "load_doc unm path f =
     (case disk f path of
        None \<Rightarrow> Inl ReadError
      | Some data \<Rightarrow> (case unm data of None \<Rightarrow> Inl DecodeError | Some d \<Rightarrow> Inr d))"

definition SaveConfig ::
  "(config \<Rightarrow> string option) \<Rightarrow> string \<Rightarrow> config \<Rightarrow> fs \<Rightarrow> file_error option \<times> fs" where
  "SaveConfig mar path cfg f = save_doc mar path (Normalize cfg) f"

definition LoadConfig :: "(string \<Rightarrow> config option) \<Rightarrow> string \<Rightarrow> fs \<Rightarrow> file_error + config" where
  "LoadConfig unm path f =
     (case load_doc unm path f of Inl e \<Rightarrow> Inl e | Inr c \<Rightarrow> Inr (Normalize c))"

definition SaveProfiles ::
  "(profiles_file \<Rightarrow> string option) \<Rightarrow> string \<Rightarrow> profiles_file \<Rightarrow> fs \<Rightarrow> file_error option \<times> fs" where
  "SaveProfiles mar path pf f = save_doc mar path pf f"

definition LoadProfiles ::
  "(string \<Rightarrow> profiles_file option) \<Rightarrow> string \<Rightarrow> fs \<Rightarrow> file_error + profiles_file" where
  "LoadProfiles unm path f = load_doc unm path f"

definition codec_ok :: "('d \<Rightarrow> string option) \<Rightarrow> (string \<Rightarrow> 'd option) \<Rightarrow> 'd \<Rightarrow> bool" where
  "codec_ok mar unm d \<longleftrightarrow> (case mar d of None \<Rightarrow> True | Some b \<Rightarrow> unm (b @ [nl]) = Some d)"

section \<open>The document store interface\<close>

text \<open>
  What the API server and the daemon rely on when they save and load a document: a successful save
  is read back (normalised), a failed one changes nothing a reader sees, and other documents are
  left alone. Both the configuration and the profiles provide it.
\<close>

locale document_store =
  fixes save :: "string \<Rightarrow> 'd \<Rightarrow> fs \<Rightarrow> file_error option \<times> fs"
    and load :: "string \<Rightarrow> fs \<Rightarrow> file_error + 'd"
    and norm :: "'d \<Rightarrow> 'd"
    and good :: "'d \<Rightarrow> bool"
  assumes save_ok: "save p d f = (None, f') \<Longrightarrow> good d \<Longrightarrow> load p f' = Inr (norm d)"
    and save_err: "save p d f = (Some e, f') \<Longrightarrow> load p f' = load p f"
    and save_other:
      "q \<noteq> p \<Longrightarrow> q \<noteq> p @ ''.tmp'' \<Longrightarrow> load q (snd (save p d f)) = load q f"
begin

lemma save_atomic: "good d \<Longrightarrow> load p (snd (save p d f)) \<in> {load p f, Inr (norm d)}"
  using save_ok [of p d f] save_err [of p d f]
  by (cases "save p d f"; cases "fst (save p d f)") auto

lemma saves_atomic:
  "list_all good ds \<Longrightarrow>
   load p (foldl (\<lambda>f d. snd (save p d f)) f ds) \<in> insert (load p f) ((Inr \<circ> norm) ` set ds)"
proof (induction ds arbitrary: f)
  case Nil
  then show ?case by simp
next
  case (Cons d ds)
  from Cons.IH [of "snd (save p d f)"] Cons.prems save_atomic [of d p f] show ?case by auto
qed

end

section \<open>Lemmas\<close>

subsection \<open>Normalisation\<close>

lemma normalized_Normalize: "normalized (Normalize c)"
  by (simp add: normalized_def Normalize_def default_ifaces_def)

lemma Normalize_id: "normalized c \<Longrightarrow> Normalize c = c"
  by (simp add: normalized_def Normalize_def)

lemma Normalize_idem [simp]: "Normalize (Normalize c) = Normalize c"
  by (rule Normalize_id [OF normalized_Normalize])

lemma SecondsDefault_pos_or: "SecondsDefault v d = pos_or v d"
  by (simp add: SecondsDefault_def pos_or_def)

subsection \<open>Saving\<close>

lemma save_doc_ok:
  assumes "save_doc mar p d f = (None, f')"
  obtains b where "mar d = Some b" "disk f' p = Some (b @ [nl])"
  using assms
  by (auto simp: save_doc_def write_file_def rename_file_def split: option.splits if_splits)

lemma save_doc_err: "save_doc mar p d f = (Some e, f') \<Longrightarrow> disk f' p = disk f p"
  by (auto simp: save_doc_def write_file_def rename_file_def split: option.splits if_splits)

lemma save_doc_other:
  "q \<noteq> p \<Longrightarrow> q \<noteq> p @ ''.tmp'' \<Longrightarrow> disk (snd (save_doc mar p d f)) q = disk f q"
  by (auto simp: save_doc_def write_file_def rename_file_def split: option.splits)

interpretation cfg_store: document_store "SaveConfig mar" "LoadConfig unm" Normalize
  "\<lambda>c. codec_ok mar unm (Normalize c)" for mar unm
proof unfold_locales
  fix p d f f'
  assume s: "SaveConfig mar p d f = (None, f')" and "codec_ok mar unm (Normalize d)"
  from s [unfolded SaveConfig_def] this(2) show "LoadConfig unm p f' = Inr (Normalize d)"
    by (auto elim!: save_doc_ok simp: LoadConfig_def load_doc_def codec_ok_def)
qed (auto simp: SaveConfig_def LoadConfig_def load_doc_def save_doc_other dest: save_doc_err)

interpretation prof_store: document_store "SaveProfiles mar" "LoadProfiles unm" "\<lambda>d. d"
  "codec_ok mar unm" for mar unm
proof unfold_locales
  fix p d f f'
  assume s: "SaveProfiles mar p d f = (None, f')" and "codec_ok mar unm d"
  from s [unfolded SaveProfiles_def] this(2) show "LoadProfiles unm p f' = Inr d"
    by (auto elim!: save_doc_ok simp: LoadProfiles_def load_doc_def codec_ok_def)
qed (auto simp: SaveProfiles_def LoadProfiles_def load_doc_def save_doc_other dest: save_doc_err)

subsection \<open>Profile lists\<close>

lemma index_where_Some:
  "index_where P xs = Some i \<Longrightarrow> i < length xs \<and> P (xs ! i) \<and> (\<forall>j < i. \<not> P (xs ! j))"
proof (induction xs arbitrary: i)
  case (Cons x xs)
  then show ?case by (auto split: if_splits simp: nth_Cons' less_Suc_eq_0_disj)
qed simp

lemma index_where_None: "index_where P xs = None \<longleftrightarrow> (\<forall>x \<in> set xs. \<not> P x)"
  by (induction xs) auto

lemma selected_index_less: "selected_index pf = Some i \<Longrightarrow> i < length (Profiles pf)"
  by (auto simp: selected_index_def Let_def dest: index_where_Some split: option.splits if_splits)

lemma map_P_ID_mark [simp]: "map P_ID (mark_selected i ps) = map P_ID ps"
  by (simp add: mark_selected_def)

lemma P_ID_set_mark [simp]: "P_ID ` set (mark_selected i ps) = P_ID ` set ps"
  by (simp add: mark_selected_def image_image)

lemma set_mark_selected: "q \<in> set (mark_selected i ps) \<Longrightarrow> P_Selected q \<longleftrightarrow> P_ID q = i"
  by (auto simp: mark_selected_def)

lemma list_ex_mark: "list_ex P_Selected (mark_selected i ps) \<longleftrightarrow> i \<in> P_ID ` set ps"
  by (auto simp: mark_selected_def list_ex_iff)

text \<open>The invariant of a profile list: identifiers are distinct, the selected id names a profile,
  and the flags agree with it.\<close>

definition wf_profiles :: "profiles_file \<Rightarrow> bool" where
  "wf_profiles pf \<longleftrightarrow>
     distinct (map P_ID (Profiles pf)) \<and>
     (SelectedID pf = '''' \<or> SelectedID pf \<in> P_ID ` set (Profiles pf)) \<and>
     list_all (\<lambda>q. P_Selected q \<longleftrightarrow> SelectedID pf \<noteq> '''' \<and> P_ID q = SelectedID pf) (Profiles pf)"

lemma wf_SelectByID:
  "distinct (map P_ID (Profiles pf)) \<Longrightarrow> SelectByID i pf = (None, pf') \<Longrightarrow> wf_profiles pf'"
  by (auto simp: SelectByID_def Let_def wf_profiles_def list_ex_mark list_all_iff
      dest: set_mark_selected split: if_splits)

lemma delete_at_props:
  assumes "distinct (map P_ID ps)" "k < length ps"
  shows "distinct (map P_ID (take k ps @ drop (Suc k) ps))"
    and "P_ID ` set (take k ps @ drop (Suc k) ps) = P_ID ` set ps - {P_ID (ps ! k)}"
proof -
  have split: "ps = take k ps @ ps ! k # drop (Suc k) ps" using assms(2) by (rule id_take_nth_drop)
  have d: "distinct (map P_ID (take k ps @ ps ! k # drop (Suc k) ps))"
    using assms(1) split by simp
  then show "distinct (map P_ID (take k ps @ drop (Suc k) ps))" by auto
  have "P_ID ` set ps = P_ID ` set (take k ps @ ps ! k # drop (Suc k) ps)" using split by simp
  then have "P_ID ` set ps = insert (P_ID (ps ! k)) (P_ID ` set (take k ps @ drop (Suc k) ps))"
    by (simp add: image_Un)
  moreover have "P_ID (ps ! k) \<notin> P_ID ` set (take k ps @ drop (Suc k) ps)"
    using d by (simp add: image_Un)
  ultimately show "P_ID ` set (take k ps @ drop (Suc k) ps) = P_ID ` set ps - {P_ID (ps ! k)}"
    by (simp add: Diff_insert_absorb)
qed

lemma delete_at_filter:
  assumes "distinct (map P_ID ps)" "k < length ps"
  shows "take k ps @ drop (Suc k) ps = filter (\<lambda>q. P_ID q \<noteq> P_ID (ps ! k)) ps"
proof -
  let ?P = "\<lambda>q. P_ID q \<noteq> P_ID (ps ! k)"
  have split: "ps = take k ps @ ps ! k # drop (Suc k) ps" using assms(2) by (rule id_take_nth_drop)
  have d: "distinct (map P_ID (take k ps @ ps ! k # drop (Suc k) ps))"
    using assms(1) split by simp
  then have "P_ID (ps ! k) \<notin> P_ID ` set (take k ps)" "P_ID (ps ! k) \<notin> P_ID ` set (drop (Suc k) ps)"
    by simp_all
  then have "filter ?P (take k ps) = take k ps" "filter ?P (drop (Suc k) ps) = drop (Suc k) ps"
    unfolding filter_id_conv by (metis image_eqI)+
  then have "filter ?P (take k ps @ ps ! k # drop (Suc k) ps) = take k ps @ drop (Suc k) ps" by simp
  then show ?thesis using split by simp
qed

lemma wf_DeleteProfile:
  assumes wf: "wf_profiles pf" and del: "DeleteProfile i pf = (None, pf')"
  shows "wf_profiles pf' \<and> P_ID ` set (Profiles pf') = P_ID ` set (Profiles pf) - {i}"
proof -
  from del obtain k where k: "index_where (\<lambda>p. P_ID p = i) (Profiles pf) = Some k"
    and pf': "Profiles pf' = take k (Profiles pf) @ drop (Suc k) (Profiles pf)"
      "SelectedID pf' = (if SelectedID pf = i then '''' else SelectedID pf)"
    by (auto simp: DeleteProfile_def split: option.splits)
  from index_where_Some [OF k] have lt: "k < length (Profiles pf)" and id: "P_ID (Profiles pf ! k) = i"
    by auto
  from wf have d: "distinct (map P_ID (Profiles pf))" by (simp add: wf_profiles_def)
  note props = delete_at_props [OF d lt, unfolded id, folded pf'(1)]
  have sub: "set (Profiles pf') \<subseteq> set (Profiles pf)"
    unfolding pf' by (auto dest: in_set_takeD in_set_dropD)
  have sel: "P_Selected q \<longleftrightarrow> SelectedID pf' \<noteq> '''' \<and> P_ID q = SelectedID pf'"
    if "q \<in> set (Profiles pf')" for q
  proof -
    from that sub have "P_Selected q \<longleftrightarrow> SelectedID pf \<noteq> '''' \<and> P_ID q = SelectedID pf"
      using wf by (auto simp: wf_profiles_def list_all_iff)
    moreover from that props(2) have "P_ID q \<noteq> i" by auto
    ultimately show ?thesis using pf'(2) by auto
  qed
  show ?thesis
    using props sel wf by (auto simp: wf_profiles_def pf'(2) list_all_iff)
qed

subsection \<open>Slugs\<close>

fun slug_shape :: "bool \<Rightarrow> string \<Rightarrow> bool" where
  "slug_shape b [] = True"
| "slug_shape b (c # cs) =
     (if slug_ok c then slug_shape False cs else c = CHR ''-'' \<and> \<not> b \<and> slug_shape True cs)"

lemma slug_ok_dash [simp]: "\<not> slug_ok (CHR ''-'')"
  by (simp add: slug_ok_def)

lemma slug_loop_shape: "slug_shape b (slug_loop b s)"
  by (induction b s rule: slug_loop.induct) auto

lemma slug_shape_fix: "slug_shape b s \<Longrightarrow> slug_loop b s = s"
  by (induction b s rule: slug_shape.induct) (auto split: if_splits)

lemma slug_shape_weaken: "slug_shape True s \<Longrightarrow> slug_shape False s"
  by (cases s) (auto split: if_splits)

lemma slug_shape_append: "slug_shape b (s @ t) \<Longrightarrow> slug_shape b s"
  by (induction b s rule: slug_shape.induct) (auto split: if_splits)

lemma slug_shape_dropWhile: "slug_shape b s \<Longrightarrow> slug_shape False (dropWhile (\<lambda>x. x = CHR ''-'') s)"
proof (induction b s rule: slug_shape.induct)
  case (2 b c cs)
  then show ?case by (cases "slug_ok c") auto
qed simp

lemma trim_byte_prefix: "\<exists>t. dropWhile (\<lambda>x. x = c) s = trim_byte c s @ t"
proof -
  let ?u = "dropWhile (\<lambda>x. x = c) s"
  have "rev ?u = takeWhile (\<lambda>x. x = c) (rev ?u) @ dropWhile (\<lambda>x. x = c) (rev ?u)" by simp
  then have "?u = rev (dropWhile (\<lambda>x. x = c) (rev ?u)) @ rev (takeWhile (\<lambda>x. x = c) (rev ?u))"
    by (metis rev_append rev_rev_ident)
  then show ?thesis unfolding trim_byte_def by blast
qed

lemma trim_byte_ends:
  assumes "trim_byte c s \<noteq> []"
  shows "hd (trim_byte c s) \<noteq> c" "last (trim_byte c s) \<noteq> c"
proof -
  let ?u = "dropWhile (\<lambda>x. x = c) s"
  obtain t where t: "?u = trim_byte c s @ t" using trim_byte_prefix by blast
  with assms have "?u \<noteq> []" "hd ?u = hd (trim_byte c s)" by auto
  then show "hd (trim_byte c s) \<noteq> c" using hd_dropWhile [of "\<lambda>x. x = c" s] by simp
  have "dropWhile (\<lambda>x. x = c) (rev ?u) \<noteq> []" using assms by (simp add: trim_byte_def)
  then have "hd (dropWhile (\<lambda>x. x = c) (rev ?u)) \<noteq> c"
    using hd_dropWhile [of "\<lambda>x. x = c" "rev ?u"] by simp
  then show "last (trim_byte c s) \<noteq> c" by (simp add: trim_byte_def last_rev)
qed

lemma trim_byte_id: "s = [] \<or> hd s \<noteq> c \<and> last s \<noteq> c \<Longrightarrow> trim_byte c s = s"
proof (cases "s = []")
  case False
  assume "s = [] \<or> hd s \<noteq> c \<and> last s \<noteq> c"
  with False have "dropWhile (\<lambda>x. x = c) s = s" "dropWhile (\<lambda>x. x = c) (rev s) = rev s"
    by (simp_all add: dropWhile_eq_self_iff hd_rev)
  then show ?thesis by (simp add: trim_byte_def)
qed (simp add: trim_byte_def)

lemma trim_byte_idem [simp]: "trim_byte c (trim_byte c s) = trim_byte c s"
  by (rule trim_byte_id) (use trim_byte_ends in blast)

lemma Slugify_shape: "slug_shape False (Slugify s)"
proof -
  obtain t where
    "dropWhile (\<lambda>x. x = CHR ''-'') (slug_loop False (ToLower (TrimSpace s))) = Slugify s @ t"
    using trim_byte_prefix unfolding Slugify_def by blast
  with slug_shape_dropWhile [OF slug_loop_shape] slug_shape_append show ?thesis by metis
qed

lemma slug_shape_chars: "slug_shape b s \<Longrightarrow> list_all (\<lambda>c. slug_ok c \<or> c = CHR ''-'') s"
  by (induction b s rule: slug_shape.induct) (auto split: if_splits)

lemma spaces_no_slug_char:
  "list_all (list_all (\<lambda>c. \<not> slug_ok c \<and> c \<noteq> CHR ''-'')) spaces"
  by code_simp

lemma TrimSpace_slug: "list_all (\<lambda>c. slug_ok c \<or> c = CHR ''-'') s \<Longrightarrow> TrimSpace s = s"
  using TrimSpace_no_space [OF spaces_no_slug_char, of s] by (simp add: list_all_iff)

lemma ToLower_slug: "list_all (\<lambda>c. slug_ok c \<or> c = CHR ''-'') s \<Longrightarrow> ToLower s = s"
  by (induction s) (auto simp: ToLower_def lower_char_def slug_ok_def Let_def)

lemma candidate_inj: "inj (candidate base)"
  by (auto intro!: injI simp: candidate_def dest!: Itoa_inj)

lemma candidate_neq [simp]: "base \<noteq> candidate base i"
  by (simp add: candidate_def)

lemma first_free_Some: "first_free used base is = Some c \<Longrightarrow> c \<notin> used"
  by (induction "is") (auto split: if_splits)

lemma first_free_None: "first_free used base is = None \<Longrightarrow> candidate base ` set is \<subseteq> used"
  by (induction "is") (auto split: if_splits)

lemma UniqueProfileID_fresh:
  assumes "length (Profiles pf) < 9999"
  shows "UniqueProfileID now pf base0 \<notin> P_ID ` set (Profiles pf)"
proof -
  define b where "b = trim_byte (CHR ''-'') (Slugify base0)"
  define base where "base = (if b = '''' then ''profile'' else b)"
  define used where "used = P_ID ` set (Profiles pf)"
  have u: "UniqueProfileID now pf base0 =
      (if base \<notin> used then base else case first_free used base [2..<10000] of
         Some c \<Rightarrow> c | None \<Rightarrow> base @ ''-'' @ Itoa now)"
    unfolding UniqueProfileID_def Let_def used_def base_def b_def set_map ..
  have "first_free used base [2..<10000] \<noteq> None" if "base \<in> used"
  proof
    assume "first_free used base [2..<10000] = None"
    from first_free_None [OF this] that
    have "insert base (candidate base ` {2..<10000}) \<subseteq> used" by (simp del: upt_rec_numeral)
    then have "card (insert base (candidate base ` {2..<10000})) \<le> card used"
      by (rule card_mono [rotated]) (simp add: used_def)
    moreover have "card (insert base (candidate base ` {2..<10000})) = 9999"
      using card_image [OF inj_on_subset [OF candidate_inj], of "{2..<10000}" base]
      by (subst card_insert_disjoint) auto
    moreover have "card used \<le> length (Profiles pf)"
      unfolding used_def by (metis card_length length_map set_map)
    ultimately show False using assms by simp
  qed
  moreover have "c \<notin> used" if "first_free used base [2..<10000] = Some c" for c
    using first_free_Some [OF that] .
  ultimately show ?thesis
    unfolding u used_def [symmetric]
    by (cases "first_free used base [2..<10000]"; cases "base \<in> used") (auto simp del: upt_rec_numeral)
qed

lemma SelectedProfile_None: "SelectedProfile pf = None \<longleftrightarrow> Profiles pf = []"
  by (auto simp: SelectedProfile_def selected_index_def Let_def index_where_None
      split: option.splits if_splits)

lemma SelectedProfile_in: "SelectedProfile pf = Some q \<Longrightarrow> q \<in> set (Profiles pf)"
  by (auto simp: SelectedProfile_def dest: selected_index_less)

lemma SelectedProfile_by_id:
  assumes "SelectedID pf \<noteq> ''''" "SelectedID pf \<in> P_ID ` set (Profiles pf)"
  obtains q where "SelectedProfile pf = Some q" "P_ID q = SelectedID pf"
proof (cases "index_where (\<lambda>p. P_ID p = SelectedID pf) (Profiles pf)")
  case None
  with assms show ?thesis by (auto simp: index_where_None)
next
  case (Some k)
  with assms(1) have "SelectedProfile pf = Some (Profiles pf ! k)"
    by (simp add: SelectedProfile_def selected_index_def Let_def)
  with index_where_Some [OF Some] show ?thesis by (intro that) auto
qed

lemma Slugify_slug_chars: "list_all (\<lambda>c. slug_ok c \<or> c = CHR ''-'') (Slugify s)"
  by (rule slug_shape_chars [OF Slugify_shape])

lemma Slugify_ends: "Slugify s = [] \<or> hd (Slugify s) \<noteq> CHR ''-'' \<and> last (Slugify s) \<noteq> CHR ''-''"
  unfolding Slugify_def using trim_byte_ends by blast

lemma Slugify_fixpoint:
  assumes "slug_shape False s" "s = [] \<or> hd s \<noteq> CHR ''-'' \<and> last s \<noteq> CHR ''-''"
  shows "Slugify s = s"
  unfolding Slugify_def
  using slug_shape_chars [OF assms(1)] slug_shape_fix [OF assms(1)] trim_byte_id [OF assms(2)]
  by (simp add: TrimSpace_slug ToLower_slug)

section \<open>Properties\<close>


text \<open>C20. Saving the configuration is atomic under any write or rename fault: after any sequence of
  saves, some of which may fail, a reader finds the document that was there before or one of the
  saved ones in normalised form, never a torn file; a save that reports success is the one read
  back, one that reports an error changes nothing, and documents at other paths are untouched. The
  JSON codec is only assumed to decode what it encoded.\<close>
theorem SaveConfig_atomic:
  assumes "list_all (\<lambda>c. codec_ok mar unm (Normalize c)) (cfg # cfgs)"
  shows "LoadConfig unm p (foldl (\<lambda>f c. snd (SaveConfig mar p c f)) f cfgs)
           \<in> insert (LoadConfig unm p f) ((Inr \<circ> Normalize) ` set cfgs) \<and>
         LoadConfig unm p (snd (SaveConfig mar p cfg f)) =
           (if fst (SaveConfig mar p cfg f) = None then Inr (Normalize cfg) else LoadConfig unm p f) \<and>
         (q \<noteq> p \<and> q \<noteq> p @ ''.tmp'' \<longrightarrow>
            LoadConfig unm q (snd (SaveConfig mar p cfg f)) = LoadConfig unm q f)"
proof (intro conjI)
  show "LoadConfig unm p (foldl (\<lambda>f c. snd (SaveConfig mar p c f)) f cfgs)
           \<in> insert (LoadConfig unm p f) ((Inr \<circ> Normalize) ` set cfgs)"
    using assms by (intro cfg_store.saves_atomic [of mar unm]) simp
  show "LoadConfig unm p (snd (SaveConfig mar p cfg f)) =
           (if fst (SaveConfig mar p cfg f) = None then Inr (Normalize cfg) else LoadConfig unm p f)"
    using assms cfg_store.save_ok [of mar p cfg f _ unm] cfg_store.save_err [of mar p cfg f _ _ unm]
    by (cases "SaveConfig mar p cfg f") auto
qed (blast intro: cfg_store.save_other)

theorem SaveConfig_atomic_witness:
  "let mar = (\<lambda>_. Some ''{}''); unm = (\<lambda>_. Some DefaultConfig);
       f = \<lparr>disk = (\<lambda>_. None), wr_fault = (\<lambda>_. None), mv_fault = (\<lambda>_. False)\<rparr> in
   LoadConfig unm ''c'' (snd (SaveConfig mar ''c'' DefaultConfig f)) = Inr DefaultConfig"
proof -
  have n: "Normalize DefaultConfig = DefaultConfig"
    by (rule Normalize_id) (simp add: normalized_def DefaultConfig_def default_ifaces_def)
  show ?thesis
    using SaveConfig_atomic [of "\<lambda>_. Some ''{}''" "\<lambda>_. Some DefaultConfig" DefaultConfig "[]" "''c''"
        "\<lparr>disk = (\<lambda>_. None), wr_fault = (\<lambda>_. None), mv_fault = (\<lambda>_. False)\<rparr>" "''d''"]
    by (simp add: n codec_ok_def SaveConfig_def save_doc_def write_file_def rename_file_def)
qed

text \<open>\<^verbatim>\<open>SelectByID\<close> on a list with distinct identifiers: it succeeds exactly when the trimmed id
  names a profile, and then the list satisfies the invariant (exactly that profile is flagged and
  is the one \<^verbatim>\<open>SelectedProfile\<close> returns); otherwise it reports the missing or unknown id, keeps the
  selected id, and has cleared every flag in the unknown case. It never changes identifiers, and
  \<^verbatim>\<open>SelectedProfile\<close> finds a profile of the list whenever the list is not empty.\<close>
theorem SelectByID_correct:
  assumes "distinct (map P_ID (Profiles pf))"
  shows "(case SelectByID i pf of
            (None, pf') \<Rightarrow> TrimSpace i \<noteq> '''' \<and> TrimSpace i \<in> P_ID ` set (Profiles pf) \<and>
               wf_profiles pf' \<and> SelectedID pf' = TrimSpace i \<and>
               map_option P_ID (SelectedProfile pf') = Some (TrimSpace i) \<and>
               map P_ID (Profiles pf') = map P_ID (Profiles pf)
          | (Some SelectedIDRequired, pf') \<Rightarrow> TrimSpace i = '''' \<and> pf' = pf
          | (Some (ProfileNotFound j), pf') \<Rightarrow> j = TrimSpace i \<and> j \<notin> P_ID ` set (Profiles pf) \<and>
               SelectedID pf' = SelectedID pf \<and> map P_ID (Profiles pf') = map P_ID (Profiles pf) \<and>
               list_all (\<lambda>q. \<not> P_Selected q) (Profiles pf')
          | (Some DeleteNotFound, _) \<Rightarrow> False) \<and>
         (SelectedProfile pf = None \<longleftrightarrow> Profiles pf = []) \<and>
         pred_option (\<lambda>q. q \<in> set (Profiles pf)) (SelectedProfile pf)"
proof (intro conjI)
  show "SelectedProfile pf = None \<longleftrightarrow> Profiles pf = []" by (rule SelectedProfile_None)
  show "pred_option (\<lambda>q. q \<in> set (Profiles pf)) (SelectedProfile pf)"
    by (auto simp: pred_option_def dest: SelectedProfile_in)
  let ?i = "TrimSpace i"
  consider "?i = ''''" | "?i \<noteq> ''''" "?i \<notin> P_ID ` set (Profiles pf)"
    | "?i \<noteq> ''''" "?i \<in> P_ID ` set (Profiles pf)" by blast
  then show "case SelectByID i pf of
            (None, pf') \<Rightarrow> ?i \<noteq> '''' \<and> ?i \<in> P_ID ` set (Profiles pf) \<and>
               wf_profiles pf' \<and> SelectedID pf' = ?i \<and>
               map_option P_ID (SelectedProfile pf') = Some ?i \<and>
               map P_ID (Profiles pf') = map P_ID (Profiles pf)
          | (Some SelectedIDRequired, pf') \<Rightarrow> ?i = '''' \<and> pf' = pf
          | (Some (ProfileNotFound j), pf') \<Rightarrow> j = ?i \<and> j \<notin> P_ID ` set (Profiles pf) \<and>
               SelectedID pf' = SelectedID pf \<and> map P_ID (Profiles pf') = map P_ID (Profiles pf) \<and>
               list_all (\<lambda>q. \<not> P_Selected q) (Profiles pf')
          | (Some DeleteNotFound, _) \<Rightarrow> False"
  proof cases
    case 2
    then have "list_all (\<lambda>q. \<not> P_Selected q) (mark_selected ?i (Profiles pf))"
      using list_ex_mark [of ?i "Profiles pf"] by (simp add: list_ex_iff list_all_iff)
    with 2 show ?thesis by (simp add: SelectByID_def Let_def list_ex_mark)
  next
    case 3
    define pf' where "pf' = pf\<lparr>Profiles := mark_selected ?i (Profiles pf), SelectedID := ?i\<rparr>"
    have s: "SelectByID i pf = (None, pf')"
      using 3 by (simp add: SelectByID_def Let_def list_ex_mark pf'_def)
    obtain q where "SelectedProfile pf' = Some q" "P_ID q = SelectedID pf'"
      using SelectedProfile_by_id [of pf'] 3 by (auto simp: pf'_def)
    then show ?thesis using wf_SelectByID [OF assms s] 3 by (simp add: s pf'_def)
  qed (simp add: SelectByID_def)
qed

definition demo_profile :: "string \<Rightarrow> bool \<Rightarrow> profile" where
  "demo_profile i sel =
     \<lparr>P_ID = i, P_Name = i, P_Selected = sel,
      P_SSH = \<lparr>SSH_Host = ''h'', SSH_Port = 22, SSH_Username = ''u'', SSH_Password = ''p'',
        SSH_AuthType = ''password'', SSH_FallbackIPs = []\<rparr>,
      P_Transport = \<lparr>TR_Mode = ''direct'', TR_Chain = [], TR_HTTPProxy = None, TR_TLS = None,
        TR_Payload = \<lparr>PL_Enabled = False, PL_Template = '''', PL_SendTiming = '''',
          PL_ReadResponse = False, PL_AllowStatuses = []\<rparr>\<rparr>\<rparr>"

definition demo_profiles :: profiles_file where
  "demo_profiles = \<lparr>SelectedID = ''a'', Profiles = [demo_profile ''a'' True, demo_profile ''b'' False]\<rparr>"

theorem SelectByID_correct_witness:
  "map_option P_ID (SelectedProfile (snd (SelectByID '' b'' demo_profiles))) = Some ''b''"
proof -
  have "distinct (map P_ID (Profiles demo_profiles))"
    by (simp add: demo_profiles_def demo_profile_def)
  moreover have t: "TrimSpace '' b'' = ''b''" by code_simp
  moreover have "fst (SelectByID '' b'' demo_profiles) = None"
    by (simp add: SelectByID_def t Let_def mark_selected_def demo_profiles_def demo_profile_def)
  ultimately show ?thesis
    using SelectByID_correct [of demo_profiles "'' b''"]
    by (cases "SelectByID '' b'' demo_profiles") auto
qed

text \<open>\<^verbatim>\<open>DeleteProfile\<close> keeps the invariant of the profile list: it removes exactly the profile with
  the given id, keeps the others in order, forgets the selection only when the selected profile is
  the deleted one, and reports an unknown id without changing anything.\<close>
theorem DeleteProfile_correct:
  assumes "wf_profiles pf"
  shows "case DeleteProfile i pf of
           (None, pf') \<Rightarrow> i \<in> P_ID ` set (Profiles pf) \<and> wf_profiles pf' \<and>
              Profiles pf' = filter (\<lambda>q. P_ID q \<noteq> i) (Profiles pf) \<and>
              SelectedID pf' = (if SelectedID pf = i then '''' else SelectedID pf)
         | (Some e, pf') \<Rightarrow> e = DeleteNotFound \<and> pf' = pf \<and> i \<notin> P_ID ` set (Profiles pf)"
proof (cases "index_where (\<lambda>p. P_ID p = i) (Profiles pf)")
  case None
  then have "DeleteProfile i pf = (Some DeleteNotFound, pf)" by (simp add: DeleteProfile_def)
  with None show ?thesis by (auto simp: index_where_None)
next
  case (Some k)
  define pf' where "pf' = snd (DeleteProfile i pf)"
  have del: "DeleteProfile i pf = (None, pf')"
    and ps: "Profiles pf' = take k (Profiles pf) @ drop (Suc k) (Profiles pf)"
    and sel: "SelectedID pf' = (if SelectedID pf = i then '''' else SelectedID pf)"
    using Some by (simp_all add: DeleteProfile_def pf'_def)
  have lt: "k < length (Profiles pf)" and id: "P_ID (Profiles pf ! k) = i"
    using index_where_Some [OF Some] by auto
  have "Profiles pf' = filter (\<lambda>q. P_ID q \<noteq> i) (Profiles pf)"
    unfolding ps using delete_at_filter [OF _ lt] assms id by (simp add: wf_profiles_def)
  moreover have "i \<in> P_ID ` set (Profiles pf)" using lt id by auto
  ultimately show ?thesis using wf_DeleteProfile [OF assms del] sel by (simp add: del)
qed

theorem DeleteProfile_correct_witness:
  "wf_profiles (snd (DeleteProfile ''a'' demo_profiles)) \<and>
   map P_ID (Profiles (snd (DeleteProfile ''a'' demo_profiles))) = [''b'']"
proof -
  have "wf_profiles demo_profiles"
    by (simp add: wf_profiles_def demo_profiles_def demo_profile_def)
  then show ?thesis
    using DeleteProfile_correct [of demo_profiles "''a''"]
    by (auto simp: DeleteProfile_def demo_profiles_def demo_profile_def)
qed

text \<open>\<^verbatim>\<open>UniqueProfileID\<close> never returns an id that is in use, as long as the list has fewer than
  9999 profiles (so that one of the candidates \<open>base\<close>, \<open>base-2\<close>, \dots, \<open>base-9999\<close> is free).\<close>
theorem UniqueProfileID_unused:
  assumes "length (Profiles pf) < 9999"
  shows "UniqueProfileID now pf base \<notin> P_ID ` set (Profiles pf)"
  using assms by (rule UniqueProfileID_fresh)

theorem UniqueProfileID_unused_witness:
  "UniqueProfileID 0 demo_profiles ''A'' \<notin> {''a'', ''b''}"
  using UniqueProfileID_unused [of demo_profiles 0 "''A''"]
  by (simp add: demo_profiles_def demo_profile_def)

text \<open>\<^verbatim>\<open>Slugify\<close> produces slugs: lower-case letters, digits and single dashes, with no dash at
  either end; it is idempotent, and its fixed points are exactly the slugs.\<close>
theorem Slugify_correct:
  "list_all (\<lambda>c. slug_ok c \<or> c = CHR ''-'') (Slugify s) \<and>
   Slugify (Slugify s) = Slugify s \<and>
   (Slugify s = s \<longleftrightarrow>
      slug_shape False s \<and> (s = [] \<or> hd s \<noteq> CHR ''-'' \<and> last s \<noteq> CHR ''-''))"
proof (intro conjI)
  show "Slugify (Slugify s) = Slugify s" by (rule Slugify_fixpoint [OF Slugify_shape Slugify_ends])
  show "Slugify s = s \<longleftrightarrow>
      slug_shape False s \<and> (s = [] \<or> hd s \<noteq> CHR ''-'' \<and> last s \<noteq> CHR ''-'')"
    using Slugify_fixpoint [of s] Slugify_shape [of s] Slugify_ends [of s] by fastforce
qed (rule Slugify_slug_chars)

end
