(* ===== verification/Runtime.thy ===== *)
theory Runtime
  imports Complex_Main Config
begin

text \<open>
  The runtime state of \<^verbatim>\<open>internal/api/api.go\<close> (\<open>State\<close>): its fields, the \<open>Snapshot\<close> that the
  handlers serve, and the notification of the event streams (\<open>Set\<close>, \<open>broadcast\<close>, \<open>Subscribe\<close>,
  the loop of \<open>handleEvents\<close>) as a step relation over the goroutines involved. Values of Go's
  \<^verbatim>\<open>any\<close> are the datatype \<open>val\<close>; a nil and an empty slice are the same value, and a float is its
  rational value.
\<close>

section \<open>Definitions\<close>

subsection \<open>Values\<close>

datatype val =
    VNil | VBool bool | VInt int | VFloat rat | VStr string
  | VStrs "string list" | VInts "int list" | VMap "(string \<times> val) list" | VList "val list"

text \<open>Reading a missing key of a \<^verbatim>\<open>map[string]any\<close> gives \<^verbatim>\<open>nil\<close>; a failed type assertion with the
  comma form gives the zero value.\<close>

definition lookup :: "(string \<times> val) list \<Rightarrow> string \<Rightarrow> val" where
  "lookup m k = (case map_of m k of Some v \<Rightarrow> v | None \<Rightarrow> VNil)"

fun as_bool :: "val \<Rightarrow> bool" where
  "as_bool (VBool b) = b"
| "as_bool _ = False"

fun as_str :: "val \<Rightarrow> string" where
  "as_str (VStr s) = s"
| "as_str _ = ''''"

subsection \<open>The state\<close>

text \<open>The fields of the flat Go struct, grouped; \<open>None\<close> is the zero time.\<close>

record st_status =
  S_StartedAt :: "instant option"
  S_TunnelStartedAt :: "instant option"
  S_State :: string
  S_Running :: bool
  S_Connected :: bool
  S_SSHAuthenticated :: bool
  S_TransportReady :: bool
  S_Phase :: string
  S_LastError :: string
  S_LastEvent :: string
  S_Attempt :: int
  S_Note :: string

record st_paths =
  S_Version :: string
  S_GOOS :: string
  S_GOARCH :: string
  S_WorkDir :: string
  S_ConfigPath :: string
  S_ProfilesPath :: string
  S_APIAddr :: string

record st_profile =
  S_SelectedProfile :: string
  S_SelectedMode :: string
  S_TransportChain :: string
  S_PayloadEnabled :: bool

record st_net =
  S_NetworkOnline :: bool
  S_DefaultRoute :: string
  S_Interface :: string
  S_Gateway :: string
  S_SourceIP :: string
  S_RemoteBanner :: string
  S_HTTPStatuses :: "int list"
  S_ResolvedDial :: string
  S_ResolverMethod :: string
  S_ResolvedIPs :: "string list"
  S_DNSMode :: string
  S_DNSServers :: "string list"

record st_proxy =
  S_HotspotEnabled :: bool
  S_SocksEnabled :: bool
  S_SocksAddr :: string
  S_SocksRunning :: bool
  S_TransparentEnabled :: bool
  S_TransparentAddr :: string
  S_TransparentRunning :: bool
  S_TransparentApplied :: bool
  S_HotspotRunning :: bool

record st_metrics =
  S_CPUPercent :: rat
  S_MemoryRSSBytes :: u64
  S_MemoryRSSMB :: rat
  S_SystemMemTotalBytes :: u64
  S_SystemMemAvailBytes :: u64
  S_SystemMemUsedPct :: rat
  S_Goroutines :: int

record st_pool =
  S_PoolSize :: int
  S_PoolHealthy :: int
  S_PoolReconnecting :: int
  S_PoolStreams :: int
  S_PoolMaxStreams :: int
  S_PoolLastError :: string

record runtime =
  R_status :: st_status
  R_paths :: st_paths
  R_profile :: st_profile
  R_net :: st_net
  R_proxy :: st_proxy
  R_metrics :: st_metrics
  R_pool :: st_pool

definition trunc_seconds :: "duration \<Rightarrow> int" where
  "trunc_seconds d = (if 0 \<le> d then d div second else - ((- d) div second))"

text \<open>\<open>rfc3339\<close> is the time formatter of the standard library and \<open>now\<close> the clock.\<close>

definition Snapshot :: "(instant option \<Rightarrow> string) \<Rightarrow> instant \<Rightarrow> runtime \<Rightarrow> (string \<times> val) list" where
  "Snapshot rfc3339 now r =
     (let s = R_status r; pa = R_paths r; pr = R_profile r; n = R_net r; x = R_proxy r;
          m = R_metrics r; po = R_pool r;
          uptime = (case S_StartedAt s of None \<Rightarrow> 0 | Some t \<Rightarrow> trunc_seconds (now - t));
          tunnelUptime = (case S_TunnelStartedAt s of None \<Rightarrow> 0
                          | Some t \<Rightarrow> if S_Running s then trunc_seconds (now - t) else 0) in
      [(''started_at'', VStr (rfc3339 (S_StartedAt s))),
       (''uptime_seconds'', VInt uptime),
       (''tunnel_uptime_seconds'', VInt tunnelUptime),
       (''state'', VStr (S_State s)),
       (''running'', VBool (S_Running s)),
       (''connected'', VBool (S_Connected s)),
       (''ssh_authenticated'', VBool (S_SSHAuthenticated s)),
       (''transport_ready'', VBool (S_TransportReady s)),
       (''phase'', VStr (S_Phase s)),
       (''version'', VStr (S_Version pa)),
       (''goos'', VStr (S_GOOS pa)),
       (''goarch'', VStr (S_GOARCH pa)),
       (''work_dir'', VStr (S_WorkDir pa)),
       (''config_path'', VStr (S_ConfigPath pa)),
       (''profiles_path'', VStr (S_ProfilesPath pa)),
       (''selected_profile'', VStr (S_SelectedProfile pr)),
       (''selected_mode'', VStr (S_SelectedMode pr)),
       (''transport_chain'', VStr (S_TransportChain pr)),
       (''payload_enabled'', VBool (S_PayloadEnabled pr)),
       (''last_error'', VStr (S_LastError s)),
       (''last_event'', VStr (S_LastEvent s)),
       (''attempt'', VInt (S_Attempt s)),
       (''network_online'', VBool (S_NetworkOnline n)),
       (''default_route'', VStr (S_DefaultRoute n)),
       (''interface'', VStr (S_Interface n)),
       (''gateway'', VStr (S_Gateway n)),
       (''source_ip'', VStr (S_SourceIP n)),
       (''hotspot_enabled'', VBool (S_HotspotEnabled x)),
       (''api_addr'', VStr (S_APIAddr pa)),
       (''resolved_dial'', VStr (S_ResolvedDial n)),
       (''resolver_method'', VStr (S_ResolverMethod n)),
       (''resolved_ips'', VStrs (S_ResolvedIPs n)),
       (''dns_mode'', VStr (S_DNSMode n)),
       (''dns_servers'', VStrs (S_DNSServers n)),
       (''pool_size'', VInt (S_PoolSize po)),
       (''pool_healthy'', VInt (S_PoolHealthy po)),
       (''pool_reconnecting'', VInt (S_PoolReconnecting po)),
       (''pool_streams'', VInt (S_PoolStreams po)),
       (''pool_max_streams'', VInt (S_PoolMaxStreams po)),
       (''pool_last_error'', VStr (S_PoolLastError po)),
       (''socks_enabled'', VBool (S_SocksEnabled x)),
       (''socks_addr'', VStr (S_SocksAddr x)),
       (''socks_running'', VBool (S_SocksRunning x)),
       (''transparent_enabled'', VBool (S_TransparentEnabled x)),
       (''transparent_addr'', VStr (S_TransparentAddr x)),
       (''transparent_running'', VBool (S_TransparentRunning x)),
       (''transparent_applied'', VBool (S_TransparentApplied x)),
       (''hotspot_running'', VBool (S_HotspotRunning x)),
       (''cpu_percent'', VFloat (S_CPUPercent m)),
       (''memory_rss_bytes'', VInt (uint (S_MemoryRSSBytes m))),
       (''memory_rss_mb'', VFloat (S_MemoryRSSMB m)),
       (''system_mem_used_percent'', VFloat (S_SystemMemUsedPct m)),
       (''remote_banner'', VStr (S_RemoteBanner n)),
       (''http_statuses'', VInts (S_HTTPStatuses n)),
       (''note'', VStr (S_Note s))])"

subsection \<open>Notification\<close>

text \<open>
  The hub: the state \<open>now\<close> held under the lock, the subscribed channels in order, and for each
  channel whether its one-place buffer is full. Channels are numbered by \<open>Subscribe\<close>.
\<close>

record 's hub =
  cur :: 's
  subs :: "nat list"
  token :: "nat \<Rightarrow> bool"
  fresh :: nat

text \<open>\<open>Set\<close> is two steps: the change under the lock, and the broadcast after it was released.\<close>

definition set_apply :: "('s \<Rightarrow> 's) \<Rightarrow> 's hub \<Rightarrow> 's hub" where
  "set_apply f h = h\<lparr>cur := f (cur h)\<rparr>"

text \<open>The \<^verbatim>\<open>select\<close> with a default case: a full channel is skipped.\<close>

definition try_send :: "nat \<Rightarrow> 's hub \<Rightarrow> 's hub" where
  "try_send ch h = (if token h ch then h else h\<lparr>token := (token h)(ch := True)\<rparr>)"

definition broadcast :: "'s hub \<Rightarrow> 's hub" where
  "broadcast h = fold try_send (subs h) h"

definition Subscribe :: "'s hub \<Rightarrow> nat \<times> 's hub" where
  "Subscribe h =
     (let ch = fresh h in
      (ch, h\<lparr>subs := subs h @ [ch], token := (token h)(ch := False), fresh := Suc ch\<rparr>))"

fun remove_chan :: "nat \<Rightarrow> nat list \<Rightarrow> nat list" where
  "remove_chan ch [] = []"
| "remove_chan ch (c # cs) = (if c = ch then cs else c # remove_chan ch cs)"

definition cleanup :: "nat \<Rightarrow> 's hub \<Rightarrow> 's hub" where
  "cleanup ch h = h\<lparr>subs := remove_chan ch (subs h)\<rparr>"

definition receive :: "nat \<Rightarrow> 's hub \<Rightarrow> 's hub" where
  "receive ch h = h\<lparr>token := (token h)(ch := False)\<rparr>"

text \<open>
  The event streams. A stream goes through the phases of \<open>handleEvents\<close>: it sends a first
  snapshot, subscribes, then waits; a wake-up takes the token and the next step sends a snapshot
  again; an error or the end of the request leaves through the deferred \<open>cleanup\<close>. \<open>shown\<close> is
  what its client saw last, \<open>since\<close> (not part of the program) the state at its subscription or, if
  later, its last snapshot.
  \<open>inflight\<close> counts the calls of \<open>Set\<close> that released the lock and have not broadcast yet.
\<close>

datatype 's stream =
    Opening
  | Sent (shown: 's)
  | Waiting (chan: nat) (shown: 's) (since: 's)
  | Woken (chan: nat) (shown: 's) (since: 's)
  | Gone

record 's events =
  hub :: "'s hub"
  inflight :: nat
  streams :: "nat \<Rightarrow> 's stream"

inductive event_step :: "'s events \<Rightarrow> 's events \<Rightarrow> bool" where
  apply_change:
    "event_step e (e\<lparr>hub := set_apply f (hub e), inflight := Suc (inflight e)\<rparr>)"
| notify:
    "inflight e = Suc n \<Longrightarrow> event_step e (e\<lparr>hub := broadcast (hub e), inflight := n\<rparr>)"
| first_send:
    "streams e k = Opening \<Longrightarrow>
     event_step e (e\<lparr>streams := (streams e)(k := Sent (cur (hub e)))\<rparr>)"
| first_fail:
    "streams e k = Opening \<Longrightarrow> event_step e (e\<lparr>streams := (streams e)(k := Gone)\<rparr>)"
| subscribe:
    "streams e k = Sent s \<Longrightarrow> Subscribe (hub e) = (ch, h') \<Longrightarrow>
     event_step e (e\<lparr>hub := h', streams := (streams e)(k := Waiting ch s (cur (hub e)))\<rparr>)"
| wake:
    "streams e k = Waiting ch s b \<Longrightarrow> token (hub e) ch \<Longrightarrow>
     event_step e (e\<lparr>hub := receive ch (hub e), streams := (streams e)(k := Woken ch s b)\<rparr>)"
| send:
    "streams e k = Woken ch s b \<Longrightarrow>
     event_step e (e\<lparr>streams := (streams e)(k := Waiting ch (cur (hub e)) (cur (hub e)))\<rparr>)"
| heartbeat:
    "streams e k = Waiting ch s b \<Longrightarrow> event_step e e"
| leave:
    "streams e k = Waiting ch s b \<or> streams e k = Woken ch s b \<Longrightarrow>
     event_step e (e\<lparr>hub := cleanup ch (hub e), streams := (streams e)(k := Gone)\<rparr>)"

definition events_init :: "'s \<Rightarrow> 's events" where
  "events_init s =
     \<lparr>hub = \<lparr>cur = s, subs = [], token = (\<lambda>_. False), fresh = 0\<rparr>, inflight = 0, streams = (\<lambda>_. Opening)\<rparr>"

abbreviation event_reach :: "'s \<Rightarrow> 's events \<Rightarrow> bool" where
  "event_reach s e \<equiv> event_step\<^sup>*\<^sup>* (events_init s) e"

section \<open>Lemmas\<close>

subsection \<open>Broadcast\<close>

lemma fold_try_send:
  "fold try_send cs h = h\<lparr>token := (\<lambda>c. token h c \<or> c \<in> set cs)\<rparr>"
proof (induction cs arbitrary: h)
  case (Cons c cs)
  have "try_send c h = h\<lparr>token := (\<lambda>d. token h d \<or> d = c)\<rparr>"
    by (cases h) (auto simp: try_send_def fun_eq_iff)
  then show ?case by (simp add: Cons.IH disj_assoc)
qed simp

lemma broadcast_eq: "broadcast h = h\<lparr>token := (\<lambda>c. token h c \<or> c \<in> set (subs h))\<rparr>"
  by (simp add: broadcast_def fold_try_send)

lemma remove_chan_remove1: "remove_chan c cs = remove1 c cs"
  by (induction cs) auto

lemmas hub_simps = set_apply_def broadcast_eq Subscribe_def Let_def cleanup_def receive_def remove_chan_remove1

subsection \<open>The invariant of the event streams\<close>

fun chan_of :: "'s stream \<Rightarrow> nat option" where
  "chan_of (Waiting ch _ _) = Some ch"
| "chan_of (Woken ch _ _) = Some ch"
| "chan_of _ = None"

text \<open>A stream that is up to date: it waits with an empty channel and no broadcast is due.\<close>

definition current :: "'s events \<Rightarrow> nat \<Rightarrow> bool" where
  "current e k \<longleftrightarrow>
     (case streams e k of Waiting ch s b \<Rightarrow> token (hub e) ch \<or> 0 < inflight e \<or> b = cur (hub e) | _ \<Rightarrow> True)"

definition events_ok :: "'s events \<Rightarrow> bool" where
  "events_ok e \<longleftrightarrow>
     distinct (subs (hub e)) \<and> (\<forall>c \<in> set (subs (hub e)). c < fresh (hub e)) \<and>
     (\<forall>c. c \<in> set (subs (hub e)) \<longleftrightarrow> (\<exists>k. chan_of (streams e k) = Some c)) \<and>
     (\<forall>j k c. chan_of (streams e j) = Some c \<and> chan_of (streams e k) = Some c \<longrightarrow> j = k) \<and>
     (\<forall>k. current e k)"

lemma events_ok_init: "events_ok (events_init s)"
  by (simp add: events_ok_def events_init_def current_def)

text \<open>The part about channels depends on the hub and on who holds which channel only.\<close>

definition chans_ok :: "nat list \<Rightarrow> nat \<Rightarrow> (nat \<Rightarrow> nat option) \<Rightarrow> bool" where
  "chans_ok cs n g \<longleftrightarrow>
     distinct cs \<and> (\<forall>c \<in> set cs. c < n) \<and> (\<forall>c. c \<in> set cs \<longleftrightarrow> (\<exists>k. g k = Some c)) \<and>
     (\<forall>j k c. g j = Some c \<and> g k = Some c \<longrightarrow> j = k)"

lemma events_ok_alt:
  "events_ok e \<longleftrightarrow>
     chans_ok (subs (hub e)) (fresh (hub e)) (\<lambda>k. chan_of (streams e k)) \<and> (\<forall>k. current e k)"
  by (simp add: events_ok_def chans_ok_def)

lemma chans_ok_subscribe:
  "chans_ok cs n g \<Longrightarrow> g k = None \<Longrightarrow> chans_ok (cs @ [n]) (Suc n) (g(k := Some n))"
  unfolding chans_ok_def by (auto simp: less_Suc_eq) (metis less_irrefl option.distinct(1) option.inject)+

lemma chans_ok_remove:
  assumes "chans_ok cs n g" "g k = Some c"
  shows "chans_ok (remove1 c cs) n (g(k := None))"
proof -
  have d: "distinct cs" and m: "\<And>c. c \<in> set cs \<longleftrightarrow> (\<exists>k. g k = Some c)"
    and i: "\<And>j k c. g j = Some c \<Longrightarrow> g k = Some c \<Longrightarrow> j = k" and l: "\<forall>c \<in> set cs. c < n"
    using assms(1) unfolding chans_ok_def by blast+
  have "set (remove1 c cs) = set cs - {c}" using d by (rule set_remove1_eq)
  then show ?thesis using d l m i assms(2) unfolding chans_ok_def by (auto split: if_splits) (metis option.inject)
qed

lemma chans_ok_same: "chans_ok cs n g \<Longrightarrow> g k = v \<Longrightarrow> chans_ok cs n (g(k := v))"
  by (simp add: fun_upd_idem)

lemma comp_chan_upd: "(\<lambda>j. chan_of (if j = k then v else f j)) = (\<lambda>j. chan_of (f j))(k := chan_of v)"
  by auto

lemma events_ok_step: "event_step e e' \<Longrightarrow> events_ok e \<Longrightarrow> events_ok e'"
proof (induction rule: event_step.induct)
  case (apply_change e f)
  then show ?case by (simp add: events_ok_alt hub_simps current_def split: stream.split)
next
  case (notify e n)
  then have "current (e\<lparr>hub := broadcast (hub e), inflight := n\<rparr>) k" for k
    by (auto simp: events_ok_alt chans_ok_def hub_simps current_def split: stream.split) (metis chan_of.simps(1))
  with notify show ?case by (simp add: events_ok_alt hub_simps)
next
  case (first_send e k)
  then have "chans_ok (subs (hub e)) (fresh (hub e)) ((\<lambda>j. chan_of (streams e j))(k := None))"
    by (intro chans_ok_same) (simp_all add: events_ok_alt)
  with first_send show ?case by (simp add: events_ok_alt comp_chan_upd current_def split: stream.splits)
next
  case (first_fail e k)
  then have "chans_ok (subs (hub e)) (fresh (hub e)) ((\<lambda>j. chan_of (streams e j))(k := None))"
    by (intro chans_ok_same) (simp_all add: events_ok_alt)
  with first_fail show ?case by (simp add: events_ok_alt comp_chan_upd current_def split: stream.splits)
next
  case (subscribe e k s ch h')
  have h': "ch = fresh (hub e)"
      "h' = (hub e)\<lparr>subs := subs (hub e) @ [ch], token := (token (hub e))(ch := False), fresh := Suc ch\<rparr>"
    using subscribe by (auto simp: hub_simps)
  have "chans_ok (subs h') (fresh h') ((\<lambda>j. chan_of (streams e j))(k := Some ch))"
    using subscribe chans_ok_subscribe [of "subs (hub e)" "fresh (hub e)" "\<lambda>j. chan_of (streams e j)" k]
    by (simp add: events_ok_alt h')
  moreover have "current (e\<lparr>hub := h', streams := (streams e)(k := Waiting ch s (cur (hub e)))\<rparr>) j" for j
  proof (cases "j = k")
    case False
    have "c \<noteq> ch" if "streams e j = Waiting c x b" for c x b
    proof -
      have "c \<in> set (subs (hub e))"
        using subscribe that unfolding events_ok_alt chans_ok_def by (metis chan_of.simps(1))
      then show ?thesis using subscribe h'(1) unfolding events_ok_alt chans_ok_def by auto
    qed
    then show ?thesis
      using False subscribe by (auto simp: events_ok_alt current_def h'(2) split: stream.splits)
  qed (simp add: current_def h'(2))
  ultimately show ?case by (simp add: events_ok_alt comp_chan_upd)
next
  case (wake e k ch s b)
  have other: "c \<noteq> ch" if "j \<noteq> k" "streams e j = Waiting c x y" for j c x y
    using wake that unfolding events_ok_alt chans_ok_def by (metis chan_of.simps(1))
  have "chans_ok (subs (hub e)) (fresh (hub e)) ((\<lambda>j. chan_of (streams e j))(k := Some ch))"
    using wake by (intro chans_ok_same) (simp_all add: events_ok_alt)
  moreover have "current (e\<lparr>hub := receive ch (hub e), streams := (streams e)(k := Woken ch s b)\<rparr>) j" for j
    using wake other [of j]
    by (cases "j = k") (auto simp: events_ok_alt current_def hub_simps split: stream.splits)
  ultimately show ?case by (simp add: events_ok_alt comp_chan_upd hub_simps)
next
  case (send e k ch s b)
  then have "chans_ok (subs (hub e)) (fresh (hub e)) ((\<lambda>j. chan_of (streams e j))(k := Some ch))"
    by (intro chans_ok_same) (simp_all add: events_ok_alt)
  with send show ?case by (simp add: events_ok_alt comp_chan_upd current_def split: stream.splits)
next
  case (leave e k ch s b)
  then have "chans_ok (remove1 ch (subs (hub e))) (fresh (hub e)) ((\<lambda>j. chan_of (streams e j))(k := None))"
    by (intro chans_ok_remove) (auto simp: events_ok_alt)
  with leave show ?case by (simp add: events_ok_alt comp_chan_upd hub_simps current_def split: stream.splits)
qed auto

lemma events_ok_reach: "event_reach s e \<Longrightarrow> events_ok e"
  by (induction rule: rtranclp_induct) (auto intro: events_ok_init events_ok_step)

section \<open>Properties\<close>

text \<open>C33. No wake-up is lost once a stream has subscribed: whenever no \<^verbatim>\<open>Set\<close> is between its change and
  its broadcast, a stream that waits with an empty channel has nothing left to show, because the
  state is the one of its last snapshot or of its subscription. Its channel is in the list of
  subscribers, and nobody else waits on it, so the next broadcast reaches it.\<close>
theorem waiting_stream_current:
  assumes "event_reach s e" "streams e k = Waiting ch sh b" "inflight e = 0" "\<not> token (hub e) ch"
  shows "b = cur (hub e) \<and> ch \<in> set (subs (hub e)) \<and> token (broadcast (hub e)) ch \<and>
         (chan_of (streams e j) = Some ch \<longrightarrow> j = k)"
proof -
  have ok: "events_ok e" using assms(1) by (rule events_ok_reach)
  then have "current e k" by (simp add: events_ok_def)
  then have "b = cur (hub e)" using assms by (simp add: current_def)
  moreover have "ch \<in> set (subs (hub e))"
    using ok assms(2) unfolding events_ok_def by (metis chan_of.simps(1))
  moreover have "j = k" if "chan_of (streams e j) = Some ch"
    using ok assms(2) that unfolding events_ok_def by (metis chan_of.simps(1))
  ultimately show ?thesis by (simp add: broadcast_eq)
qed

text \<open>The run of one stream that is used as an example: it opens in the state \<open>s\<close>, the state changes
  to \<open>t\<close> (and is broadcast to nobody), and only then does the stream subscribe.\<close>

definition raced :: "'s \<Rightarrow> 's \<Rightarrow> 's events" where
  "raced s t =
     \<lparr>hub = \<lparr>cur = t, subs = [0], token = (\<lambda>_. False), fresh = 1\<rparr>, inflight = 0,
      streams = (\<lambda>_. Opening)(0 := Waiting 0 s t)\<rparr>"

lemma raced_reach: "event_reach s (raced s t)"
proof -
  let ?h = "\<lambda>c. \<lparr>cur = c, subs = [], token = (\<lambda>_. False), fresh = 0\<rparr>"
  let ?f = "(\<lambda>_. Opening)(0 := Sent s)"
  have 1: "event_step (events_init s) \<lparr>hub = ?h s, inflight = 0, streams = ?f\<rparr>"
    using first_send [of "events_init s" 0] by (simp add: events_init_def)
  have 2: "event_step \<lparr>hub = ?h s, inflight = 0, streams = ?f\<rparr> \<lparr>hub = ?h t, inflight = 1, streams = ?f\<rparr>"
    using apply_change [of "\<lparr>hub = ?h s, inflight = 0, streams = ?f\<rparr>" "\<lambda>_. t"] by (simp add: set_apply_def)
  have 3: "event_step \<lparr>hub = ?h t, inflight = 1, streams = ?f\<rparr> \<lparr>hub = ?h t, inflight = 0, streams = ?f\<rparr>"
    using notify [of "\<lparr>hub = ?h t, inflight = 1, streams = ?f\<rparr>" 0] by (simp add: broadcast_eq)
  have 4: "event_step \<lparr>hub = ?h t, inflight = 0, streams = ?f\<rparr> (raced s t)"
    using subscribe [of "\<lparr>hub = ?h t, inflight = 0, streams = ?f\<rparr>" 0 s 0
        "\<lparr>cur = t, subs = [0], token = (\<lambda>_. False), fresh = 1\<rparr>"]
    by (simp add: Subscribe_def raced_def fun_upd_idem)
  from 1 2 3 4 show ?thesis by (meson converse_rtranclp_into_rtranclp rtranclp.rtrancl_refl)
qed

theorem waiting_stream_current_witness:
  "cur (hub (raced ''IDLE'' ''CONNECTED'')) = ''CONNECTED'' \<and>
   0 \<in> set (subs (hub (raced ''IDLE'' ''CONNECTED'')))"
  using waiting_stream_current [OF raced_reach, of "''IDLE''" "''CONNECTED''" 0 0 "''IDLE''" "''CONNECTED''"]
  by (simp add: raced_def)

text \<open>The window before the subscription does lose an update: \<^verbatim>\<open>handleEvents\<close> sends its first
  snapshot and subscribes afterwards, so for any change of the state there is a run in which
  the stream waits, nothing is in flight and no token is pending, while its client still shows
  the old state; the heartbeats that follow do not repair it.\<close>
theorem first_snapshot_race:
  "\<exists>e. event_reach s e \<and> cur (hub e) = t \<and> inflight e = 0 \<and>
       streams e 0 = Waiting 0 s t \<and> \<not> token (hub e) 0"
proof (rule exI [of _ "raced s t"], intro conjI)
  show "event_reach s (raced s t)" by (rule raced_reach)
qed (simp_all add: raced_def)

end
