(* ===== verification/Dnsx.thy ===== *)
theory Dnsx
  imports GoNet "HOL-Library.Multiset"
begin

text \<open>
  \<^verbatim>\<open>internal/dnsx/dnsx.go\<close>: the resolver with its five minute cache, the carrier DNS properties, the
  direct queries and the shell fallback, and the helpers on address lists. The network, the
  subprocesses and the clock are the record \<open>dns_env\<close>: what a DNS server, a command or
  \<^verbatim>\<open>getprop\<close> answers, in which order the parallel queries answer, and the times a call
  reads. A Go map is an association list with distinct keys whose order stands for the iteration
  order, so a lemma for every list is a lemma for every iteration order.
\<close>

section \<open>Definitions\<close>

subsection \<open>Address lists\<close>

definition appendUnique :: "string list \<Rightarrow> string \<Rightarrow> string list" where
  "appendUnique xs v = (if list_ex (\<lambda>x. x = v) xs then xs else xs @ [v])"

text \<open>The body of the three loops that keep IPv4 addresses in canonical form.\<close>

definition canonical_v4 :: "string \<Rightarrow> string option" where
  "canonical_v4 s =
     (case ParseIP s of
        None \<Rightarrow> None
      | Some i \<Rightarrow> if To4 i = None then None else Some (IP_String i))"

definition add_v4 :: "string list \<Rightarrow> string \<Rightarrow> string list" where
  "add_v4 out s = (case canonical_v4 s of None \<Rightarrow> out | Some a \<Rightarrow> appendUnique out a)"

definition ip_sep :: "char \<Rightarrow> bool" where
  "ip_sep r \<longleftrightarrow> \<not> (r = CHR ''.'' \<or> is_digit r)"

definition ExtractIPv4s :: "string \<Rightarrow> string list" where
  "ExtractIPv4s s = foldl add_v4 [] (FieldsFunc s ip_sep)"

definition SanitizeIPv4List :: "string list \<Rightarrow> string list" where
  "SanitizeIPv4List ins = foldl (\<lambda>out s. add_v4 out (TrimSpace s)) [] ins"

text \<open>\<open>now\<close> is \<^verbatim>\<open>time.Now().UnixNano()\<close>.\<close>

definition RotateIPs :: "int \<Rightarrow> string list \<Rightarrow> string list" where
  "RotateIPs now ins =
     (if length ins \<le> 1 then ins
      else let off = nat (now mod int (length ins)) in drop off ins @ take off ins)"

subsection \<open>Servers\<close>

definition with_port :: "string \<Rightarrow> string" where
  "with_port s = (case SplitHostPort s of None \<Rightarrow> JoinHostPort s ''53'' | Some _ \<Rightarrow> s)"

fun normalize_loop :: "string list \<Rightarrow> string set \<Rightarrow> string list \<Rightarrow> string list" where
  "normalize_loop out seen [] = out"
| "normalize_loop out seen (s0 # ss) =
     (let s = TrimSpace s0 in
      if s = '''' then normalize_loop out seen ss
      else let a = with_port s in
        if a \<notin> seen then normalize_loop (out @ [a]) (insert a seen) ss
        else normalize_loop out seen ss)"

definition NormalizeServers :: "string list \<Rightarrow> string list" where
  "NormalizeServers ins = normalize_loop [] {} ins"

record dns_config =
  Mode :: string
  Servers :: "string list"
  TimeoutSec :: int

definition cacheKey :: "dns_config \<Rightarrow> string \<Rightarrow> string" where
  "cacheKey cfg host = Mode cfg @ ''|'' @ Join (NormalizeServers (Servers cfg)) '','' @ ''|'' @ host"

subsection \<open>State and environment\<close>

record cache_entry =
  ips :: "string list"
  meth :: string
  expires :: instant

type_synonym host_cache = "(string \<times> cache_entry) list"

record dns_state =
  hostCache :: host_cache
  prop_servers :: "string list"
  prop_expires :: instant

record dns_env =
  t_check :: instant
  t_store :: instant
  getprop :: "string \<Rightarrow> string option"
  lookup_host :: "duration \<Rightarrow> string \<Rightarrow> string \<Rightarrow> string list option"
  arrival :: "string list \<Rightarrow> string list"
  run_cmd :: "duration \<Rightarrow> string list \<Rightarrow> string \<times> bool"

text \<open>The scan for the entry that expires first: \<^verbatim>\<open>oldestKey == ""\<close> marks the first iteration.\<close>

fun oldest :: "string \<Rightarrow> instant \<Rightarrow> host_cache \<Rightarrow> string" where
  "oldest k t [] = k"
| "oldest k t ((k', e) # es) =
     (if k = '''' \<or> expires e < t then oldest k' (expires e) es else oldest k t es)"

definition cache :: "instant \<Rightarrow> string \<Rightarrow> string list \<Rightarrow> string \<Rightarrow> host_cache \<Rightarrow> host_cache" where
  "cache now key addrs method es =
     (let es1 = (if length es \<ge> 2000 then map_delete (oldest '''' 0 es) es else es) in
      map_store key \<lparr>ips = addrs, meth = method, expires = now + 5 * minute\<rparr> es1)"

definition EvictHost :: "string \<Rightarrow> host_cache \<Rightarrow> host_cache" where
  "EvictHost host0 es =
     (let host = ToLower (TrimSpace host0) in
      if host = '''' then es
      else filter (\<lambda>(k, _). \<not> HasSuffix k (''|'' @ host)) es)"

subsection \<open>Resolution\<close>

definition dns_props :: "string list" where
  "dns_props =
     [''net.dns1'', ''net.dns2'', ''net.dns3'', ''net.dns4'',
      ''net.rmnet0.dns1'', ''net.rmnet0.dns2'',
      ''net.rmnet_data0.dns1'', ''net.rmnet_data0.dns2'',
      ''net.rmnet_data1.dns1'', ''net.rmnet_data1.dns2'',
      ''net.rmnet_data2.dns1'', ''net.rmnet_data2.dns2'',
      ''dhcp.rmnet_data0.dns1'', ''dhcp.rmnet_data0.dns2'',
      ''dhcp.wlan0.dns1'', ''dhcp.wlan0.dns2'']"

text \<open>The loop breaks after the first usable property, so at most one server is found.\<close>

fun scan_props :: "(string \<Rightarrow> string option) \<Rightarrow> string list \<Rightarrow> string list" where
  "scan_props gp [] = []"
| "scan_props gp (p # ps) =
     (case gp p of
        None \<Rightarrow> scan_props gp ps
      | Some out \<Rightarrow>
          let ip = TrimSpace out in
          if ip = '''' \<or> ip = ''0.0.0.0'' then scan_props gp ps
          else if ParseIP ip = None then scan_props gp ps
          else [JoinHostPort ip ''53''])"

definition AndroidCarrierDNS :: "dns_env \<Rightarrow> dns_state \<Rightarrow> string list \<times> dns_state" where
  "AndroidCarrierDNS env st =
     (if t_check env < prop_expires st \<and> 0 < length (prop_servers st) then (prop_servers st, st)
      else let servers = scan_props (getprop env) dns_props in
        (servers, if 0 < length servers
                  then st\<lparr>prop_servers := servers, prop_expires := t_store env + 2 * minute\<rparr>
                  else st))"

definition configuredServers ::
  "dns_env \<Rightarrow> dns_config \<Rightarrow> dns_state \<Rightarrow> (string list \<times> string) \<times> dns_state" where
  "configuredServers env cfg st =
     (if Mode cfg = ''google'' then ((NormalizeServers [''8.8.8.8'', ''8.8.4.4''], ''google_dns''), st)
      else if Mode cfg = ''cloudflare''
        then ((NormalizeServers [''1.1.1.1'', ''1.0.0.1''], ''cloudflare_dns''), st)
      else if Mode cfg = ''custom'' then ((NormalizeServers (Servers cfg), ''custom_dns''), st)
      else (case AndroidCarrierDNS env st of (s, st') \<Rightarrow> ((s, ''android_real_dns''), st')))"

definition query_server :: "dns_env \<Rightarrow> duration \<Rightarrow> string \<Rightarrow> string \<Rightarrow> string list" where
  "query_server env timeout host srv =
     (case lookup_host env timeout srv host of
        None \<Rightarrow> []
      | Some addrs \<Rightarrow> foldl add_v4 [] addrs)"

fun first_answer :: "(string \<Rightarrow> string list) \<Rightarrow> string list \<Rightarrow> string list" where
  "first_answer q [] = []"
| "first_answer q (s # ss) = (let r = q s in if 0 < length r then r else first_answer q ss)"

definition resolveViaDirectDNS :: "dns_env \<Rightarrow> string \<Rightarrow> string list \<Rightarrow> int \<Rightarrow> string list" where
  "resolveViaDirectDNS env host servers timeoutSec =
     (let t = wrap64 (timeoutSec * second);
          timeout = (if t < 1 * second then 3 * second else t) in
      first_answer (query_server env timeout host) (arrival env servers))"

definition shell_cmds :: "string \<Rightarrow> string list list" where
  "shell_cmds host =
     [[''getent'', ''ahostsv4'', host], [''toybox'', ''getent'', ''ahostsv4'', host],
      [''ping'', ''-c'', ''1'', ''-W'', ''2'', host]]"

fun shell_loop :: "(string list \<Rightarrow> string \<times> bool) \<Rightarrow> string list list \<Rightarrow> string list" where
  "shell_loop run [] = []"
| "shell_loop run (c # cs) =
     (case run c of (out, err) \<Rightarrow>
        if err \<and> length out = 0 then shell_loop run cs
        else let found = ExtractIPv4s out in
          if 0 < length found then found else shell_loop run cs)"

definition shellResolve :: "dns_env \<Rightarrow> string \<Rightarrow> int \<Rightarrow> string list" where
  "shellResolve env host timeoutSec =
     (let t = wrap64 (timeoutSec * second);
          timeout = (if t < 1 * second then 3500 * millisecond else t) in
      shell_loop (run_cmd env timeout) (shell_cmds host))"

text \<open>The part of \<^verbatim>\<open>ResolveHost\<close> after the cache lookup.\<close>

definition resolve_fresh ::
  "dns_env \<Rightarrow> dns_config \<Rightarrow> string \<Rightarrow> string \<Rightarrow> dns_state \<Rightarrow> (string list \<times> string) \<times> dns_state" where
  "resolve_fresh env cfg host key st =
     (case configuredServers env cfg st of ((servers, method), st1) \<Rightarrow>
        let timeout = (if TimeoutSec cfg \<le> 0 then 4 else TimeoutSec cfg);
            direct = (if 0 < length servers then resolveViaDirectDNS env host servers timeout else [])
        in
        if 0 < length direct
        then ((direct, method), st1\<lparr>hostCache := cache (t_store env) key direct method (hostCache st1)\<rparr>)
        else let shell = shellResolve env host timeout in
          if 0 < length shell
          then ((shell, ''android_shell_dns''),
                st1\<lparr>hostCache := cache (t_store env) key shell ''android_shell_dns'' (hostCache st1)\<rparr>)
          else (([], ''dns_failed''), st1))"

definition ResolveHost ::
  "dns_env \<Rightarrow> dns_config \<Rightarrow> string \<Rightarrow> dns_state \<Rightarrow> (string list \<times> string) \<times> dns_state" where
  "ResolveHost env cfg host0 st =
     (let host = ToLower (TrimSpace host0); key = cacheKey cfg host in
      case map_of (hostCache st) key of
        Some e \<Rightarrow>
          if t_check env < expires e then ((ips e, ''dns_cached_'' @ meth e), st)
          else resolve_fresh env cfg host key st
      | None \<Rightarrow> resolve_fresh env cfg host key st)"

text \<open>What the daemon does with the resolver, as a sequence of operations.\<close>

datatype dns_op = Resolve dns_env dns_config string | Evict string

fun dns_exec :: "dns_state \<Rightarrow> dns_op \<Rightarrow> dns_state" where
  "dns_exec st (Resolve env cfg h) = snd (ResolveHost env cfg h st)"
| "dns_exec st (Evict h) = st\<lparr>hostCache := EvictHost h (hostCache st)\<rparr>"

definition dns_init :: dns_state where
  "dns_init = \<lparr>hostCache = [], prop_servers = [], prop_expires = 0\<rparr>"

text \<open>The invariants: lists of distinct canonical IPv4 addresses, and the cache.\<close>

definition v4_list :: "string list \<Rightarrow> bool" where
  "v4_list xs \<longleftrightarrow> distinct xs \<and> list_all (\<lambda>a. canonical_v4 a = Some a) xs"

definition cache_inv :: "host_cache \<Rightarrow> bool" where
  "cache_inv es \<longleftrightarrow> distinct (map fst es) \<and> length es \<le> 2000 \<and>
     list_all (\<lambda>(k, e). k \<noteq> '''' \<and> ips e \<noteq> [] \<and> v4_list (ips e)) es"

section \<open>Lemmas\<close>

subsection \<open>Address lists\<close>

interpretation uniq: collector appendUnique
  by unfold_locales (auto simp: appendUnique_def list_ex_iff)

lemma foldl_add_v4: "foldl add_v4 out ss = foldl appendUnique out (List.map_filter canonical_v4 ss)"
  by (induction ss arbitrary: out) (auto simp: add_v4_def List.map_filter_simps split: option.splits)

lemma canonical_v4_dotted:
  assumes "canonical_v4 s = Some x"
  obtains a b c d where "x = dotted [a, b, c, d]"
proof -
  from assms obtain i v where i: "ParseIP s = Some i" "To4 i = Some v" "x = IP_String i"
    by (auto simp: canonical_v4_def split: option.splits if_splits)
  then have "length v = 4" by (auto dest: To4_length)
  then obtain a b c d where v: "v = [a, b, c, d]"
    by (auto simp: numeral_eq_Suc length_Suc_conv)
  from i have "i = v4InV6Prefix @ v" by (auto intro: To4_16 ParseIP_length)
  with v have "i = IPv4 a b c d" by (simp add: IPv4_def)
  with i(3) show ?thesis by (intro that) simp
qed

lemma canonical_dotted [simp]: "canonical_v4 (dotted [a, b, c, d]) = Some (dotted [a, b, c, d])"
  by (simp add: canonical_v4_def ParseIP_dotted)

lemma canonical_v4_idem: "canonical_v4 s = Some x \<Longrightarrow> canonical_v4 x = Some x"
  by (erule canonical_v4_dotted) simp

lemma v4_list_fold: "v4_list (foldl add_v4 [] ss)"
proof -
  have "canonical_v4 x = Some x" if "x \<in> set (List.map_filter canonical_v4 ss)" for x
    using that by (auto simp: List.map_filter_def intro: canonical_v4_idem)
  then show ?thesis
    by (simp add: foldl_add_v4 v4_list_def list_all_iff uniq.set_collect uniq.distinct_collect)
qed

lemma map_filter_canonical: "list_all (\<lambda>a. canonical_v4 a = Some a) xs \<Longrightarrow> List.map_filter canonical_v4 xs = xs"
  by (induction xs) (simp_all add: List.map_filter_simps)

lemma fold_v4_list_id: "v4_list xs \<Longrightarrow> foldl add_v4 [] xs = xs"
  using uniq.collect_distinct_id [of "[]" xs]
  by (simp add: foldl_add_v4 v4_list_def map_filter_canonical)

lemma foldl_map: "foldl (\<lambda>out s. f out (g s)) acc xs = foldl f acc (map g xs)"
  by (induction xs arbitrary: acc) auto

lemma SanitizeIPv4List_fold: "SanitizeIPv4List xs = foldl add_v4 [] (map TrimSpace xs)"
  by (simp add: SanitizeIPv4List_def foldl_map)

lemma spaces_no_ip_char: "list_all (list_all ip_sep) spaces"
  by code_simp

lemma TrimSpace_no_sep: "list_all (\<lambda>c. \<not> ip_sep c) s \<Longrightarrow> TrimSpace s = s"
  using TrimSpace_no_space [OF spaces_no_ip_char] .

lemma dotted_no_sep: "list_all (\<lambda>c. \<not> ip_sep c) (dotted [a, b, c, d])"
proof -
  have "x \<notin> set (dotted [a, b, c, d])" if "ip_sep x" for x
    using that by (intro dotted_not_mem) (auto simp: ip_sep_def)
  then show ?thesis by (auto simp: list_all_iff)
qed

lemma dotted_nonempty [simp]: "dotted [a, b, c, d] \<noteq> []"
  by (simp add: dotted_def)

lemma TrimSpace_canonical: "canonical_v4 x = Some x \<Longrightarrow> TrimSpace x = x"
  by (erule canonical_v4_dotted) (simp add: TrimSpace_no_sep dotted_no_sep)

lemma map_TrimSpace_v4: "v4_list xs \<Longrightarrow> map TrimSpace xs = xs"
  by (auto simp: v4_list_def list_all_iff intro!: map_idI TrimSpace_canonical)

lemma fields_func_Join:
  assumes "\<And>f. f \<in> set fs \<Longrightarrow> f \<noteq> [] \<and> list_all (\<lambda>x. \<not> sep x) f" and "sep c"
  shows "FieldsFunc (Join fs [c]) sep = fs"
  using assms(1)
proof (induction fs)
  case Nil
  then show ?case by (simp add: FieldsFunc_def)
next
  case (Cons f fs)
  then have f: "f \<noteq> []" "list_all (\<lambda>x. \<not> sep x) f" and IH: "FieldsFunc (Join fs [c]) sep = fs"
    by auto
  show ?case
  proof (cases "fs = []")
    case True
    then show ?thesis using f fields_func_no_sep [of sep f "[]"] by (simp add: FieldsFunc_def)
  next
    case False
    then have "Join (f # fs) [c] = f @ c # Join fs [c]" by (simp add: Join_Cons)
    then show ?thesis
      using f IH fields_func_sep [of sep f c "[]" "Join fs [c]"] assms(2) by (simp add: FieldsFunc_def)
  qed
qed

subsection \<open>Servers\<close>

lemma normalize_loop_fold:
  "seen = set out \<Longrightarrow>
   normalize_loop out seen ss =
     foldl appendUnique out (map with_port (filter (\<lambda>s. s \<noteq> '''') (map TrimSpace ss)))"
  by (induction out seen ss rule: normalize_loop.induct)
    (auto simp: Let_def uniq.add_new uniq.add_old)

lemma NormalizeServers_fold:
  "NormalizeServers ss = foldl appendUnique [] (map with_port (filter (\<lambda>s. s \<noteq> '''') (map TrimSpace ss)))"
  by (simp add: NormalizeServers_def normalize_loop_fold)

lemma NormalizeServers_distinct: "distinct (NormalizeServers ss)"
  by (simp add: NormalizeServers_fold uniq.distinct_collect)

lemma NormalizeServers_set:
  "set (NormalizeServers ss) = with_port ` ({TrimSpace s | s. s \<in> set ss} - {''''})"
  by (auto simp: NormalizeServers_fold uniq.set_collect)

lemma NormalizeServers_id:
  assumes "distinct ss" "\<And>s. s \<in> set ss \<Longrightarrow> s \<noteq> '''' \<and> TrimSpace s = s \<and> SplitHostPort s \<noteq> None"
  shows "NormalizeServers ss = ss"
proof -
  have "map TrimSpace ss = ss" using assms(2) by (intro map_idI) auto
  moreover have "filter (\<lambda>s. s \<noteq> '''') ss = ss" using assms(2) by (intro filter_True) auto
  moreover have "map with_port ss = ss"
    using assms(2) by (intro map_idI) (force simp: with_port_def split: option.splits)
  ultimately show ?thesis using uniq.collect_distinct_id [of "[]" ss] assms(1)
    by (simp add: NormalizeServers_fold)
qed

subsection \<open>Cache\<close>

lemma oldest_min:
  assumes "k \<noteq> ''''" "'''' \<notin> fst ` set es"
  shows "\<exists>u. (oldest k t es, u) \<in> insert (k, t) (map_prod id expires ` set es) \<and> u \<le> t \<and>
           (\<forall>(k', e) \<in> set es. u \<le> expires e)"
  using assms
proof (induction k t es rule: oldest.induct)
  case (2 k t k' e es)
  show ?case
  proof (cases "expires e < t")
    case True
    from "2.prems" have "k' \<noteq> ''''" "'''' \<notin> fst ` set es" by auto
    from "2.IH"(1) [OF disjI2 [OF True] this]
    obtain u where u: "(oldest k' (expires e) es, u) \<in> insert (k', expires e) (map_prod id expires ` set es)"
      "u \<le> expires e" "\<forall>(k', e) \<in> set es. u \<le> expires e" by (elim exE conjE) (rule that)
    then show ?thesis using True by (intro exI [of _ u]) auto
  next
    case False
    with "2.prems" have "\<not> (k = '''' \<or> expires e < t)" "'''' \<notin> fst ` set es" by auto
    from "2.IH"(2) [OF this(1) "2.prems"(1) this(2)]
    obtain u where u: "(oldest k t es, u) \<in> insert (k, t) (map_prod id expires ` set es)"
      "u \<le> t" "\<forall>(k', e) \<in> set es. u \<le> expires e" by (elim exE conjE) (rule that)
    then show ?thesis using False 2 by (intro exI [of _ u]) auto
  qed
qed simp

lemma oldest_expires_first:
  assumes "es \<noteq> []" "'''' \<notin> fst ` set es"
  obtains e where "(oldest '''' t es, e) \<in> set es" "\<forall>(k', e') \<in> set es. expires e \<le> expires e'"
proof -
  obtain k e es' where es: "es = (k, e) # es'" using assms(1) by (cases es) auto
  then have o: "oldest '''' t es = oldest k (expires e) es'" by simp
  have "k \<noteq> ''''" "'''' \<notin> fst ` set es'" using assms(2) es by auto
  from oldest_min [OF this, of "expires e"] obtain u where
    "(oldest '''' t es, u) \<in> insert (k, expires e) (map_prod id expires ` set es')"
      "u \<le> expires e" "\<forall>(k', e') \<in> set es'. u \<le> expires e'"
    using o by (elim exE conjE) (rule that, simp_all)
  then have u: "(oldest '''' t es, u) \<in> map_prod id expires ` set es"
      "\<forall>(k', e') \<in> set es. u \<le> expires e'"
    by (simp_all add: es)
  then obtain e' where "(oldest '''' t es, e') \<in> set es" "u = expires e'" by auto
  with u show ?thesis by (intro that) auto
qed

lemma cache_inv_no_empty: "cache_inv es \<Longrightarrow> '''' \<notin> fst ` set es"
  by (auto simp: cache_inv_def list_all_iff)

lemma cache_inv_cache:
  assumes inv: "cache_inv es" and new: "k \<noteq> ''''" "a \<noteq> []" "v4_list a"
  shows "cache_inv (cache now k a m es)"
proof -
  define es1 where "es1 = (if length es \<ge> 2000 then map_delete (oldest '''' 0 es) es else es)"
  define v where "v = \<lparr>ips = a, meth = m, expires = now + 5 * minute\<rparr>"
  have c: "cache now k a m es = map_store k v es1" by (simp add: cache_def es1_def v_def)
  have "length es1 < 2000"
  proof (cases "length es \<ge> 2000")
    case True
    then have "es \<noteq> []" by auto
    then obtain e where "(oldest '''' 0 es, e) \<in> set es"
      using oldest_expires_first [OF _ cache_inv_no_empty [OF inv]] by blast
    then have "oldest '''' 0 es \<in> fst ` set es" by force
    then show ?thesis using True inv length_map_delete [of "oldest '''' 0 es" es]
      by (simp add: es1_def cache_inv_def)
  qed (simp add: es1_def)
  moreover have "distinct (map fst es1)" "set es1 \<subseteq> set es"
    using inv map_delete_props(2) [of es "oldest '''' 0 es"] map_delete_props(3) [of "oldest '''' 0 es" es]
    by (auto simp: es1_def cache_inv_def)
  moreover have "list_all (\<lambda>(k, e). k \<noteq> '''' \<and> ips e \<noteq> [] \<and> v4_list (ips e)) (map_store k v es1)"
  proof -
    have "list_all (\<lambda>(k, e). k \<noteq> '''' \<and> ips e \<noteq> [] \<and> v4_list (ips e)) ((k, v) # es)"
      using inv new by (simp add: cache_inv_def v_def)
    moreover have "set (map_store k v es1) \<subseteq> set ((k, v) # es)"
      using set_map_store [of k v es1] \<open>set es1 \<subseteq> set es\<close> by auto
    ultimately show ?thesis unfolding list_all_iff by blast
  qed
  ultimately show ?thesis
    unfolding c cache_inv_def by (simp add: distinct_map_store length_map_store)
qed

lemma cache_inv_Evict: "cache_inv es \<Longrightarrow> cache_inv (EvictHost h es)"
proof -
  assume inv: "cache_inv es"
  have "length (filter P es) \<le> 2000" for P
    using inv length_filter_le [of P es] by (simp add: cache_inv_def del: length_filter_le)
  moreover have "distinct (map fst (filter P es))" for P
    using inv by (auto simp: cache_inv_def intro: distinct_map_filter)
  ultimately show ?thesis using inv
    by (auto simp: EvictHost_def Let_def cache_inv_def list_all_iff)
qed

subsection \<open>Resolution\<close>

lemma cacheKey_nonempty [simp]: "cacheKey cfg h \<noteq> ''''"
  by (simp add: cacheKey_def)

lemma v4_list_query: "v4_list (query_server env t h s)"
  by (simp add: query_server_def v4_list_fold split: option.split) (simp add: v4_list_def)

lemma first_answer_Nil: "first_answer q ss = [] \<longleftrightarrow> (\<forall>s \<in> set ss. q s = [])"
  by (induction ss) (auto simp: Let_def)

lemma first_answer_cases: "first_answer q ss = [] \<or> (\<exists>s \<in> set ss. first_answer q ss = q s)"
  by (induction ss) (auto simp: Let_def)

lemma v4_list_Nil [simp]: "v4_list []"
  by (simp add: v4_list_def)

lemma v4_list_direct: "v4_list (resolveViaDirectDNS env h ss n)"
  using first_answer_cases v4_list_query
  unfolding resolveViaDirectDNS_def Let_def by (metis v4_list_Nil)

lemma v4_list_shell_loop: "v4_list (shell_loop run cs)"
  by (induction cs) (auto simp: Let_def ExtractIPv4s_def v4_list_fold split: prod.split)

lemma v4_list_shell: "v4_list (shellResolve env h n)"
  by (simp add: shellResolve_def Let_def v4_list_shell_loop)

lemma configuredServers_cache: "configuredServers env cfg st = (r, st1) \<Longrightarrow> hostCache st1 = hostCache st"
  by (auto simp: configuredServers_def AndroidCarrierDNS_def Let_def split: if_splits prod.splits)

text \<open>What a lookup that misses the cache does: it fails with the cache as it was, or stores what it
  returns.\<close>

lemma resolve_fresh_cases:
  assumes "resolve_fresh env cfg h k st = ((r, m), st')"
  obtains (failed) "r = []" "m = ''dns_failed''" "hostCache st' = hostCache st"
    | (stored) "r \<noteq> []" "v4_list r" "hostCache st' = cache (t_store env) k r m (hostCache st)"
        "m \<in> {''google_dns'', ''cloudflare_dns'', ''custom_dns'', ''android_real_dns'', ''android_shell_dns''}"
proof -
  obtain servers meth1 st1 where cs: "configuredServers env cfg st = ((servers, meth1), st1)"
    by (cases "configuredServers env cfg st") auto
  have m1: "meth1 \<in> {''google_dns'', ''cloudflare_dns'', ''custom_dns'', ''android_real_dns''}"
    using cs by (auto simp: configuredServers_def split: if_splits prod.splits)
  define t where "t = (if TimeoutSec cfg \<le> 0 then 4 else TimeoutSec cfg)"
  define d where "d = (if 0 < length servers then resolveViaDirectDNS env h servers t else [])"
  have res: "((r, m), st') =
      (if 0 < length d then ((d, meth1), st1\<lparr>hostCache := cache (t_store env) k d meth1 (hostCache st1)\<rparr>)
       else if 0 < length (shellResolve env h t)
       then ((shellResolve env h t, ''android_shell_dns''), st1\<lparr>hostCache :=
          cache (t_store env) k (shellResolve env h t) ''android_shell_dns'' (hostCache st1)\<rparr>)
       else (([], ''dns_failed''), st1))"
    unfolding assms [symmetric] resolve_fresh_def cs prod.case Let_def d_def t_def ..
  define s where "s = shellResolve env h t"
  note res = res [folded s_def]
  have v: "v4_list d" "v4_list s" by (simp_all add: d_def s_def v4_list_direct v4_list_shell)
  note hc = configuredServers_cache [OF cs]
  consider "d \<noteq> []" | "d = []" "s \<noteq> []" | "d = []" "s = []" by blast
  then show ?thesis
  proof cases
    case 1
    with res have "r = d" "m = meth1" "hostCache st' = cache (t_store env) k d meth1 (hostCache st)"
      by (simp_all add: hc)
    with 1 v m1 show ?thesis by (intro stored) auto
  next
    case 2
    with res have "r = s" "m = ''android_shell_dns''"
      "hostCache st' = cache (t_store env) k s ''android_shell_dns'' (hostCache st)"
      by (simp_all add: hc)
    with 2 v show ?thesis by (intro stored) auto
  next
    case 3
    with res show ?thesis by (intro failed) (simp_all add: hc)
  qed
qed

lemma ResolveHost_cases:
  assumes "ResolveHost env cfg h st = ((r, m), st')"
  obtains (cached) e where "map_of (hostCache st) (cacheKey cfg (ToLower (TrimSpace h))) = Some e"
      "t_check env < expires e" "r = ips e" "m = ''dns_cached_'' @ meth e" "st' = st"
    | (fresh) "\<forall>e. map_of (hostCache st) (cacheKey cfg (ToLower (TrimSpace h))) = Some e
          \<longrightarrow> expires e \<le> t_check env"
      "resolve_fresh env cfg (ToLower (TrimSpace h)) (cacheKey cfg (ToLower (TrimSpace h))) st = ((r, m), st')"
  using assms by (auto simp: ResolveHost_def Let_def split: option.splits if_splits)

lemma ResolveHost_inv:
  assumes "ResolveHost env cfg h st = ((r, m), st')" "cache_inv (hostCache st)"
  shows "cache_inv (hostCache st') \<and> v4_list r \<and> (r = [] \<longleftrightarrow> m = ''dns_failed'')"
  using assms(1)
proof (cases rule: ResolveHost_cases)
  case (cached e)
  then have "(cacheKey cfg (ToLower (TrimSpace h)), e) \<in> set (hostCache st)" by (simp add: map_of_SomeD)
  with assms(2) have "ips e \<noteq> []" "v4_list (ips e)" by (auto simp: cache_inv_def list_all_iff)
  with cached assms(2) show ?thesis by auto
next
  case fresh
  from fresh(2) show ?thesis
  proof (cases rule: resolve_fresh_cases)
    case stored
    with assms(2) show ?thesis by (auto simp: cache_inv_cache)
  qed (use assms(2) in auto)
qed

lemma map_of_cache: "map_of (cache now k a m es) k = Some \<lparr>ips = a, meth = m, expires = now + 5 * minute\<rparr>"
  by (simp add: cache_def Let_def)

lemma suffix_bar:
  assumes "c \<notin> set h" "c \<notin> set h'"
  shows "suffix (c # h) (p @ c # h') \<longleftrightarrow> h = h'"
proof
  assume "suffix (c # h) (p @ c # h')"
  then obtain q where q: "p @ c # h' = q @ c # h" by (auto simp: suffix_def)
  then have "rev h' @ c # rev p = rev h @ c # rev q" by (metis append.assoc rev.simps(2) rev_append append_Cons append_Nil)
  moreover have "takeWhile (\<lambda>x. x \<noteq> c) (rev u @ c # v) = rev u" if "c \<notin> set u" for u v
    using that by (simp add: takeWhile_tail takeWhile_append)
  ultimately have "rev h' = rev h" using assms by metis
  then show "h = h'" by simp
qed (simp add: suffix_appendI)

lemma EvictHost_map_of:
  assumes "CHR ''|'' \<notin> set (ToLower (TrimSpace h))" "CHR ''|'' \<notin> set h'"
  shows "map_of (EvictHost h es) (cacheKey cfg h') =
    (if ToLower (TrimSpace h) \<noteq> '''' \<and> ToLower (TrimSpace h) = h' then None
     else map_of es (cacheKey cfg h'))"
proof -
  let ?h = "ToLower (TrimSpace h)"
  have suf: "HasSuffix (cacheKey cfg h') (''|'' @ ?h) \<longleftrightarrow> ?h = h'"
    using suffix_bar [OF assms, of "Mode cfg @ ''|'' @ Join (NormalizeServers (Servers cfg)) '',''"]
    by (simp add: HasSuffix_def cacheKey_def)
  show ?thesis using suf by (auto simp: EvictHost_def Let_def map_of_filter_key)
qed

lemma dns_run_inv: "cache_inv (hostCache st) \<Longrightarrow> cache_inv (hostCache (foldl dns_exec st ops))"
proof (induction ops arbitrary: st)
  case (Cons op ops)
  have "cache_inv (hostCache (dns_exec st op))"
  proof (cases op)
    case (Resolve env cfg h)
    then show ?thesis
      using ResolveHost_inv [of env cfg h st] Cons.prems by (cases "ResolveHost env cfg h st") auto
  qed (simp add: cache_inv_Evict Cons.prems)
  then show ?case using Cons.IH by simp
qed simp

lemma cache_inv_init [simp]: "cache_inv (hostCache dns_init)"
  by (simp add: cache_inv_def dns_init_def)

lemma RotateIPs_rotate: "RotateIPs now xs = rotate (nat (now mod int (length xs))) xs"
proof (cases "length xs \<le> 1")
  case True
  then have "xs = [] \<or> (\<exists>x. xs = [x])" by (cases xs) auto
  then show ?thesis by (auto simp: RotateIPs_def)
next
  case False
  then have "0 < int (length xs)" by (cases xs) simp_all
  then have "nat (now mod int (length xs)) < length xs"
    using pos_mod_bound [of "int (length xs)" now] pos_mod_sign [of "int (length xs)" now] by linarith
  with False show ?thesis by (simp add: RotateIPs_def Let_def rotate_drop_take)
qed

lemma with_port_parses:
  assumes "CHR ''['' \<notin> set s" "CHR '']'' \<notin> set s"
  shows "SplitHostPort (with_port s) \<noteq> None"
  using SplitHostPort_JoinHostPort [OF assms, of "''53''"]
  by (simp add: with_port_def split: option.splits)

lemma spaces_not_port:
  "list_all (\<lambda>w. CHR '':'' \<notin> set w \<and> CHR ''['' \<notin> set w \<and> CHR ''3'' \<notin> set w) spaces"
  by code_simp

lemma with_port_trimmed:
  assumes "TrimSpace s = s" "s \<noteq> ''''"
  shows "with_port s \<noteq> '''' \<and> TrimSpace (with_port s) = with_port s"
proof (cases "SplitHostPort s")
  case None
  define p where "p = (if CHR '':'' \<in> set s then ''['' @ s @ '']'' else s)"
  have j: "JoinHostPort s ''53'' = p @ '':53''" "p = s \<or> hd p = CHR ''['' \<and> p \<noteq> []"
    by (simp_all add: JoinHostPort_def p_def)
  have "space_len (p @ '':53'') = 0"
  proof -
    have False if w: "w \<in> set spaces" "prefix w (p @ '':53'')" for w
    proof -
      have ne: "w \<noteq> []" and c: "CHR '':'' \<notin> set w" "CHR ''['' \<notin> set w"
        using w(1) spaces_nonempty spaces_not_port by (auto simp: list_all_iff)
      have "prefix w p" using w(2) c by (auto simp: prefix_append prefix_Cons)
      moreover have "\<not> prefix w s" using w(1) TrimSpace_ends(1) [of s] assms(1) by (simp add: space_len_0_iff)
      ultimately have "hd p = CHR ''[''" "hd w = hd p" using j(2) ne by (auto simp: prefix_def)
      then show False using c ne by (metis hd_in_set)
    qed
    then show ?thesis by (auto simp: space_len_0_iff)
  qed
  moreover have "space_len_end (p @ '':53'') = 0"
  proof -
    have False if w: "w \<in> set spaces" "suffix w (p @ '':53'')" for w
    proof -
      have ne: "w \<noteq> []" and c: "CHR ''3'' \<notin> set w"
        using w(1) spaces_nonempty spaces_not_port by (auto simp: list_all_iff)
      then have "last w = CHR ''3''" using w(2) by (auto simp: suffix_def) (metis last.simps last_appendR list.distinct(1))
      then show False using c ne by (metis last_in_set)
    qed
    then show ?thesis by (auto simp: space_len_end_0_iff)
  qed
  ultimately show ?thesis using None j(1) by (simp add: with_port_def TrimSpace_id)
qed (use assms in \<open>simp add: with_port_def\<close>)

section \<open>Properties\<close>

text \<open>C24. After any sequence of lookups and evictions, in any environment, the host cache has at most
  2000 entries with distinct keys, each holding a non-empty list of distinct canonical IPv4
  addresses; and every lookup then returns such a list, which is empty exactly when the method is
  \<^verbatim>\<open>dns_failed\<close>.\<close>
theorem resolver_invariant:
  "cache_inv (hostCache (foldl dns_exec dns_init ops)) \<and>
   (case ResolveHost env cfg h (foldl dns_exec dns_init ops) of ((r, m), _) \<Rightarrow>
      distinct r \<and> list_all (\<lambda>a. canonical_v4 a = Some a) r \<and> (r = [] \<longleftrightarrow> m = ''dns_failed''))"
proof -
  have inv: "cache_inv (hostCache (foldl dns_exec dns_init ops))" by (simp add: dns_run_inv)
  then show ?thesis
    using ResolveHost_inv [OF _ inv, of env cfg h]
    by (cases "ResolveHost env cfg h (foldl dns_exec dns_init ops)") (auto simp: v4_list_def)
qed

text \<open>A successful lookup is cached for exactly five minutes: a second lookup of the same host
  (up to case and surrounding space) with the same configuration before that time is answered from
  the cache with the same addresses, without asking the network, whatever the network would say;
  afterwards the host is resolved afresh.\<close>
theorem ResolveHost_cached:
  assumes first: "ResolveHost env cfg h st = ((r, m), st')"
    and miss: "map_of (hostCache st) (cacheKey cfg (ToLower (TrimSpace h))) = None"
    and ok: "m \<noteq> ''dns_failed''"
    and same: "ToLower (TrimSpace h') = ToLower (TrimSpace h)"
  shows "ResolveHost env' cfg h' st' =
     (if t_check env' < t_store env + 5 * minute then ((r, ''dns_cached_'' @ m), st')
      else resolve_fresh env' cfg (ToLower (TrimSpace h)) (cacheKey cfg (ToLower (TrimSpace h))) st')"
  using first
proof (cases rule: ResolveHost_cases)
  case fresh
  from fresh(2) show ?thesis
  proof (cases rule: resolve_fresh_cases)
    case stored
    then show ?thesis by (simp add: ResolveHost_def Let_def same map_of_cache)
  qed (use ok in simp)
qed (use miss in simp)

definition dns_demo_env :: dns_env where
  "dns_demo_env =
     \<lparr>t_check = 0, t_store = 1, getprop = (\<lambda>_. None), lookup_host = (\<lambda>_ _ _. Some [''1.2.3.4'']),
      arrival = (\<lambda>xs. xs), run_cmd = (\<lambda>_ _. ('''', True))\<rparr>"

definition dns_demo_cfg :: dns_config where
  "dns_demo_cfg = \<lparr>Mode = ''google'', Servers = [], TimeoutSec = 4\<rparr>"

theorem ResolveHost_cached_witness:
  "fst (ResolveHost dns_demo_env dns_demo_cfg '' Example.org''
          (snd (ResolveHost dns_demo_env dns_demo_cfg ''example.org'' dns_init))) =
     ([''1.2.3.4''], ''dns_cached_google_dns'')"
proof -
  have r: "fst (ResolveHost dns_demo_env dns_demo_cfg ''example.org'' dns_init) =
      ([''1.2.3.4''], ''google_dns'')" by code_simp
  have n: "ToLower (TrimSpace '' Example.org'') = ToLower (TrimSpace ''example.org'')" by code_simp
  obtain st' where st': "ResolveHost dns_demo_env dns_demo_cfg ''example.org'' dns_init =
      (([''1.2.3.4''], ''google_dns''), st')"
    using r by (cases "ResolveHost dns_demo_env dns_demo_cfg ''example.org'' dns_init") auto
  from ResolveHost_cached [OF st' _ _ n, of dns_demo_env] show ?thesis
    unfolding st' by (simp add: dns_init_def) (simp add: dns_demo_env_def minute_def second_def)
qed

text \<open>\<^verbatim>\<open>EvictHost\<close> removes the cached answers of a host for every mode and server list, and of no
  other host (host names contain no bar), so the next lookup of that host is not answered from the
  cache.\<close>
theorem EvictHost_exact:
  assumes "CHR ''|'' \<notin> set (ToLower (TrimSpace h))" "CHR ''|'' \<notin> set (ToLower (TrimSpace h'))"
  shows "map_of (EvictHost h es) (cacheKey cfg (ToLower (TrimSpace h'))) =
    (if ToLower (TrimSpace h) \<noteq> '''' \<and> ToLower (TrimSpace h) = ToLower (TrimSpace h') then None
     else map_of es (cacheKey cfg (ToLower (TrimSpace h'))))"
  by (rule EvictHost_map_of [OF assms])

theorem EvictHost_exact_witness:
  "map_of (EvictHost ''A'' [(cacheKey dns_demo_cfg ''a'', \<lparr>ips = [''1.2.3.4''], meth = ''m'', expires = 9\<rparr>)])
     (cacheKey dns_demo_cfg ''a'') = None"
proof -
  have n: "ToLower (TrimSpace ''A'') = ''a''" "ToLower (TrimSpace ''a'') = ''a''" by code_simp+
  show ?thesis using EvictHost_exact [of "''A''" "''a''" _ dns_demo_cfg] by (simp add: n)
qed

text \<open>\<^verbatim>\<open>SanitizeIPv4List\<close> yields distinct canonical IPv4 addresses, exactly those that occur
  (trimmed, in any accepted spelling) in its input, and is idempotent; \<^verbatim>\<open>ExtractIPv4s\<close> finds the
  addresses that a text lists, in order and without duplicates, whatever the separator.\<close>
theorem address_lists_correct:
  "distinct (SanitizeIPv4List xs) \<and>
   set (SanitizeIPv4List xs) = {a. \<exists>s \<in> set xs. canonical_v4 (TrimSpace s) = Some a} \<and>
   SanitizeIPv4List (SanitizeIPv4List xs) = SanitizeIPv4List xs \<and>
   (ip_sep c \<longrightarrow>
      ExtractIPv4s (Join (map (\<lambda>(p, q, r, s). dotted [p, q, r, s]) quads) [c]) =
        foldl appendUnique [] (map (\<lambda>(p, q, r, s). dotted [p, q, r, s]) quads))"
proof (intro conjI impI)
  let ?S = "SanitizeIPv4List xs"
  have v: "v4_list ?S" by (simp add: SanitizeIPv4List_fold v4_list_fold)
  then show "distinct ?S" by (simp add: v4_list_def)
  show "set ?S = {a. \<exists>s \<in> set xs. canonical_v4 (TrimSpace s) = Some a}"
    unfolding SanitizeIPv4List_fold foldl_add_v4 uniq.set_collect List.map_filter_def by force
  show "SanitizeIPv4List ?S = ?S"
    using fold_v4_list_id [OF v] map_TrimSpace_v4 [OF v] by (simp only: SanitizeIPv4List_fold [of ?S])
  assume "ip_sep c"
  let ?fs = "map (\<lambda>(p, q, r, s). dotted [p, q, r, s]) quads"
  have "FieldsFunc (Join ?fs [c]) ip_sep = ?fs"
    using \<open>ip_sep c\<close> by (intro fields_func_Join) (auto simp: dotted_no_sep)
  moreover have "List.map_filter canonical_v4 ?fs = ?fs"
    by (rule map_filter_canonical) (auto simp: list_all_iff)
  ultimately show "ExtractIPv4s (Join ?fs [c]) = foldl appendUnique [] ?fs"
    by (simp add: ExtractIPv4s_def foldl_add_v4)
qed

theorem address_lists_correct_witness:
  "ip_sep nl \<and> ExtractIPv4s (Join [dotted [1, 2, 3, 4], dotted [1, 2, 3, 4]] [nl]) = [dotted [1, 2, 3, 4]]"
proof -
  have "ip_sep nl" by code_simp
  then show ?thesis
    using address_lists_correct [of "[]" nl "[(1, 2, 3, 4), (1, 2, 3, 4)]"]
    by (simp add: appendUnique_def)
qed

text \<open>\<^verbatim>\<open>RotateIPs\<close> is a rotation: no address is lost or duplicated, and over time every address
  comes first.\<close>
theorem RotateIPs_correct:
  "mset (RotateIPs now xs) = mset xs \<and> (\<exists>k. RotateIPs now xs = rotate k xs) \<and>
   {hd (RotateIPs t (x # xs)) | t. True} = set (x # xs)"
proof (intro conjI)
  show "mset (RotateIPs now xs) = mset xs" by (simp add: RotateIPs_def Let_def union_code [symmetric]) (metis append_take_drop_id mset_append union_commute)
  show "\<exists>k. RotateIPs now xs = rotate k xs" unfolding RotateIPs_rotate by blast
  show "{hd (RotateIPs t (x # xs)) | t. True} = set (x # xs)"
  proof (intro subset_antisym subsetI)
    fix y assume "y \<in> {hd (RotateIPs t (x # xs)) | t. True}"
    then obtain t where "y = hd (rotate (nat (t mod int (length (x # xs)))) (x # xs))"
      by (auto simp: RotateIPs_rotate)
    then show "y \<in> set (x # xs)"
      by (metis hd_in_set list.distinct(1) rotate_is_Nil_conv set_rotate)
  next
    fix y assume "y \<in> set (x # xs)"
    then obtain i where i: "i < length (x # xs)" "(x # xs) ! i = y" by (meson in_set_conv_nth)
    then have "nat (int i mod int (length (x # xs))) = i" by (simp del: length_Cons)
    then have "hd (RotateIPs (int i) (x # xs)) = y"
      using i by (simp add: RotateIPs_rotate hd_rotate_conv_nth del: length_Cons)
    then show "y \<in> {hd (RotateIPs t (x # xs)) | t. True}" by blast
  qed
qed

text \<open>On server lists without bracketed entries \<^verbatim>\<open>NormalizeServers\<close> yields distinct entries that
  all parse as host and port, keeps the order, and is idempotent.\<close>
theorem NormalizeServers_correct:
  assumes "list_all (\<lambda>s. CHR ''['' \<notin> set (TrimSpace s) \<and> CHR '']'' \<notin> set (TrimSpace s)) ss"
  shows "distinct (NormalizeServers ss) \<and>
     list_all (\<lambda>s. SplitHostPort s \<noteq> None) (NormalizeServers ss) \<and>
     NormalizeServers (NormalizeServers ss) = NormalizeServers ss"
proof -
  have ok: "s \<noteq> '''' \<and> TrimSpace s = s \<and> SplitHostPort s \<noteq> None" if "s \<in> set (NormalizeServers ss)" for s
  proof -
    from that obtain t where t: "t \<in> set ss" "TrimSpace t \<noteq> ''''" "s = with_port (TrimSpace t)"
      by (auto simp: NormalizeServers_set)
    with assms show ?thesis
      using with_port_trimmed [of "TrimSpace t"] with_port_parses [of "TrimSpace t"]
      by (simp add: list_all_iff)
  qed
  then show ?thesis
    using NormalizeServers_distinct NormalizeServers_id by (auto simp: list_all_iff)
qed

theorem NormalizeServers_correct_witness:
  "NormalizeServers (NormalizeServers [''8.8.8.8'', '' 8.8.8.8'', ''1.1.1.1:5353'']) =
   NormalizeServers [''8.8.8.8'', '' 8.8.8.8'', ''1.1.1.1:5353'']"
proof -
  have "TrimSpace ''8.8.8.8'' = ''8.8.8.8''" "TrimSpace '' 8.8.8.8'' = ''8.8.8.8''"
    "TrimSpace ''1.1.1.1:5353'' = ''1.1.1.1:5353''" by code_simp+
  then have "list_all (\<lambda>s. CHR ''['' \<notin> set (TrimSpace s) \<and> CHR '']'' \<notin> set (TrimSpace s))
      [''8.8.8.8'', '' 8.8.8.8'', ''1.1.1.1:5353'']" by simp
  from NormalizeServers_correct [OF this] show ?thesis by blast
qed

text \<open>An entry that is not an address is kept, although the comment of the function says that such
  entries are rejected.\<close>

lemma NormalizeServers_keeps_names: "NormalizeServers [''not-an-ip''] = [''not-an-ip:53'']"
proof -
  have t: "TrimSpace ''not-an-ip'' = ''not-an-ip''" by code_simp
  have s: "SplitHostPort ''not-an-ip'' = None" by code_simp
  show ?thesis by (simp add: NormalizeServers_def t with_port_def s JoinHostPort_def)
qed

end
