(* ===== verification/Transport.thy ===== *)
theory Transport
  imports Dnsx Config
begin

text \<open>
  \<^verbatim>\<open>internal/transport/transport.go\<close>: how the connection for the SSH session is prepared. The dial
  endpoint and its fallback addresses, the dial strategy over DNS and fallback addresses, the HTTP
  CONNECT exchange, TLS, the payload and the probe of its response, the status and banner parsers
  and the mode helpers. Dialing and the TLS handshake are parameters (\<open>net_env\<close>); the resolver is
  the model of \<open>Dnsx\<close>. The SSH library is not under the repository's own code, so \<^verbatim>\<open>DialContext\<close> is
  modelled up to the call of \<^verbatim>\<open>NewClientConn\<close>.
\<close>

section \<open>Definitions\<close>

subsection \<open>Connections that are read in chunks\<close>

datatype read_err = Timeout | EOF | ReadFailed

text \<open>
  \<open>reads\<close> is what the successive \<^verbatim>\<open>Read\<close> calls will return, \<open>write_ok\<close> whether writes succeed, and
  \<open>pre\<close> the unread part of the prefix of a \<^verbatim>\<open>prefixConn\<close>. When the reads are used up, a read
  times out.
\<close>

record tconn =
  reads :: "(string \<times> read_err option) list"
  sent :: string
  write_ok :: bool
  pre :: string
  t_closed :: bool

definition conn_read :: "nat \<Rightarrow> tconn \<Rightarrow> string \<times> read_err option \<times> tconn" where
  "conn_read n c =
     (case reads c of
        [] \<Rightarrow> ([], Some Timeout, c)
      | (bs, e) # rs \<Rightarrow>
          if length bs > n then (take n bs, None, c\<lparr>reads := (drop n bs, e) # rs\<rparr>)
          else (bs, e, c\<lparr>reads := rs\<rparr>))"

text \<open>\<^verbatim>\<open>prefixConn.Read\<close>.\<close>

definition prefix_read :: "nat \<Rightarrow> tconn \<Rightarrow> string \<times> read_err option \<times> tconn" where
  "prefix_read n c =
     (if length (pre c) > 0 then (take n (pre c), None, c\<lparr>pre := drop n (pre c)\<rparr>)
      else conn_read n c)"

definition conn_write :: "string \<Rightarrow> tconn \<Rightarrow> bool \<times> tconn" where
  "conn_write s c = (if write_ok c then (True, c\<lparr>sent := sent c @ s\<rparr>) else (False, c))"

definition t_close :: "tconn \<Rightarrow> tconn" where
  "t_close c = c\<lparr>t_closed := True\<rparr>"

subsection \<open>Modes\<close>

definition NormalizeMode :: "string \<Rightarrow> string" where
  "NormalizeMode mode =
     (let m = TrimSpace (ToLower mode) in
      if m \<in> {''direct'', ''ssh'', ''ssh_payload'', ''ssh+pl''} then ''direct''
      else if m \<in> {''http_proxy'', ''ssh_http_proxy'', ''ssh+http'', ''ssh+http_proxy'', ''ssh+pl+http''}
        then ''http_proxy''
      else if m \<in> {''tls_sni'', ''sni'', ''ssh+sni'', ''ssh+pl+sni''} then ''tls_sni''
      else if m \<in> {''http_proxy_tls_sni'', ''http_tls'', ''ssh+http+sni'', ''ssh+pl+http+sni''}
        then ''http_proxy_tls_sni''
      else '''')"

definition NormalizeDNSMode :: "string \<Rightarrow> string" where
  "NormalizeDNSMode mode =
     (let m = ToLower (TrimSpace mode) in
      if m \<in> {'''', ''system'', ''device'', ''default''} then ''device''
      else if m \<in> {''google'', ''cloudflare'', ''custom''} then m
      else ''device'')"

definition contains :: "string list \<Rightarrow> string \<Rightarrow> bool" where
  "contains xs v = list_ex (\<lambda>x. x = v) xs"

definition UsesHTTPProxy :: "profile \<Rightarrow> bool" where
  "UsesHTTPProxy p \<longleftrightarrow>
     TR_Mode (P_Transport p) = ''http_proxy'' \<or> TR_Mode (P_Transport p) = ''http_proxy_tls_sni'' \<or>
     contains (TR_Chain (P_Transport p)) ''http_proxy''"

definition UsesTLS :: "profile \<Rightarrow> bool" where
  "UsesTLS p \<longleftrightarrow>
     TR_Mode (P_Transport p) = ''tls_sni'' \<or> TR_Mode (P_Transport p) = ''http_proxy_tls_sni'' \<or>
     contains (TR_Chain (P_Transport p)) ''tls''"

subsection \<open>String parsers\<close>

definition crlf :: string where "crlf = [cr, nl]"

definition status_of_line :: "string \<Rightarrow> int option" where
  "status_of_line line0 =
     (let line = TrimSpace line0 in
      if \<not> HasPrefix line ''HTTP/'' then None
      else let parts = Fields line in
        if length parts \<ge> 2 then Atoi (parts ! 1) else None)"

definition ExtractHTTPStatuses :: "string \<Rightarrow> int list" where
  "ExtractHTTPStatuses s = List.map_filter status_of_line (Split nl (ReplaceAll s crlf [nl]))"

definition ExtractSSHBanner :: "string \<Rightarrow> string" where
  "ExtractSSHBanner s =
     (case Index s ''SSH-'' of
        None \<Rightarrow> ''''
      | Some idx \<Rightarrow>
          let tail = drop idx s in
          (case Index tail crlf of
             Some j \<Rightarrow> TrimSpace (take j tail)
           | None \<Rightarrow>
               (case Index tail [nl] of
                  Some j \<Rightarrow> TrimSpace (take j tail)
                | None \<Rightarrow> TrimSpace (if length tail > 120 then take 120 tail else tail))))"

definition AllowedStatuses :: "int list \<Rightarrow> int list \<Rightarrow> bool" where
  "AllowedStatuses got allowed \<longleftrightarrow>
     (if got = [] \<or> allowed = [] then True else list_all (\<lambda>n. n \<in> set allowed) got)"

definition preview :: "string \<Rightarrow> string" where
  "preview b =
     (let s = ReplaceAll (ReplaceAll b [cr] [CHR 0x5C, CHR ''r'']) [nl] [CHR 0x5C, CHR ''n''] in
      if length s > 500 then take 500 s @ ''...'' else s)"

subsection \<open>Payload\<close>

text \<open>The replacement map; \<open>ord\<close> is the order in which Go's \<^verbatim>\<open>range\<close> visits it.\<close>

definition payload_repl :: "profile \<Rightarrow> (string \<times> string) list" where
  "payload_repl p =
     [(''[crlf]'', crlf), (''[lf]'', [nl]),
      (''[host]'', SSH_Host (P_SSH p)), (''[port]'', Itoa (SSH_Port (P_SSH p))),
      (''[ssh_host]'', SSH_Host (P_SSH p)), (''[ssh_port]'', Itoa (SSH_Port (P_SSH p))),
      (''[sni]'', (case TR_TLS (P_Transport p) of None \<Rightarrow> '''' | Some t \<Rightarrow> TLS_ServerName t)),
      (''[proxy_host]'', (case TR_HTTPProxy (P_Transport p) of None \<Rightarrow> '''' | Some h \<Rightarrow> HP_Host h)),
      (''[proxy_port]'', (case TR_HTTPProxy (P_Transport p) of None \<Rightarrow> '''' | Some h \<Rightarrow> Itoa (HP_Port h)))]"

definition RenderPayload ::
  "((string \<times> string) list \<Rightarrow> (string \<times> string) list) \<Rightarrow> string \<Rightarrow> profile \<Rightarrow> string" where
  "RenderPayload ord t p = foldl (\<lambda>out (k, v). ReplaceAll out k v) t (ord (payload_repl p))"

subsection \<open>Dialing\<close>

datatype transport_error =
    ProxyMissing | InvalidEndpoint string int | DialFailed string
  | ConnectWrite | ConnectRead read_err | ConnectEmpty | ConnectNoStatus | ConnectStatus int
  | TLSMissing | TLSFailed | PayloadWrite | PayloadRead read_err | PayloadNoBytes
  | StatusNotAllowed "int list" | NoBanner

definition dialEndpoint :: "profile \<Rightarrow> transport_error + string \<times> int" where
  "dialEndpoint p =
     (let check = (\<lambda>host port. if host = '''' \<or> port \<le> 0 then Inl (InvalidEndpoint host port)
                               else Inr (host, port)) in
      if UsesHTTPProxy p then
        (case TR_HTTPProxy (P_Transport p) of
           None \<Rightarrow> Inl ProxyMissing
         | Some h \<Rightarrow> check (HP_Host h) (HP_Port h))
      else check (SSH_Host (P_SSH p)) (SSH_Port (P_SSH p)))"

definition dialFallbackIPs :: "profile \<Rightarrow> string \<Rightarrow> string list" where
  "dialFallbackIPs p host =
     (let o1 = (if EqualFold host (SSH_Host (P_SSH p)) then SSH_FallbackIPs (P_SSH p) else []);
          o2 = (case TR_HTTPProxy (P_Transport p) of
                  None \<Rightarrow> []
                | Some h \<Rightarrow> if EqualFold host (HP_Host h) then HP_FallbackIPs h else []) in
      SanitizeIPv4List (o1 @ o2))"

text \<open>
  The network: the \<open>k\<close>-th dial of a call with the timeout and the address, the two resolver
  environments of the two possible lookups, the clock for the rotations, and the TLS handshake with
  its server name, verification flag and protocols.
\<close>

record net_env =
  dial :: "nat \<Rightarrow> duration \<Rightarrow> string \<Rightarrow> string + tconn"
  dns1 :: dns_env
  dns2 :: dns_env
  rot_now :: int
  tls_handshake :: "string \<Rightarrow> bool \<Rightarrow> string list \<Rightarrow> tconn \<Rightarrow> tconn option"
  map_order :: "(string \<times> string) list \<Rightarrow> (string \<times> string) list"

definition connect_timeout :: "config \<Rightarrow> duration" where
  "connect_timeout cfg = wrap64 (SecondsDefault (ConnectTimeoutSec (CPerformance cfg)) 20 * second)"

definition dnsCfg :: "config \<Rightarrow> dns_config" where
  "dnsCfg cfg = \<lparr>Mode = NormalizeDNSMode (DNS_Mode (CDNS cfg)), Servers = DNS_Servers (CDNS cfg),
                TimeoutSec = DNS_TimeoutSec (CDNS cfg)\<rparr>"

text \<open>Dial the addresses in order until one answers.\<close>

fun dial_ips :: "net_env \<Rightarrow> duration \<Rightarrow> string \<Rightarrow> nat \<Rightarrow> string list \<Rightarrow> (tconn \<times> string) option" where
  "dial_ips env tmo port k [] = None"
| "dial_ips env tmo port k (ip # as) =
     (let addr = JoinHostPort ip port in
      case dial env k tmo addr of
        Inr c \<Rightarrow> Some (c, addr)
      | Inl _ \<Rightarrow> dial_ips env tmo port (Suc k) as)"

record dial_result =
  d_conn :: "string + tconn"
  d_addr :: string
  d_method :: string
  d_ips :: "string list"

definition system_timeout :: "duration \<Rightarrow> duration" where
  "system_timeout t = (if t \<le> 0 \<or> t > 10 * second then 10 * second else t)"

text \<open>The dial by the system resolver and the lookups after it; \<open>k\<close> dials were made before.\<close>

definition dial_system ::
  "net_env \<Rightarrow> config \<Rightarrow> string \<Rightarrow> string \<Rightarrow> string list \<Rightarrow> nat \<Rightarrow> dns_state \<Rightarrow> dial_result \<times> dns_state" where
  "dial_system env cfg host port fallback k st =
     (let tmo = connect_timeout cfg; addr = JoinHostPort host port in
      case dial env k (system_timeout tmo) addr of
        Inr c \<Rightarrow> (\<lparr>d_conn = Inr c, d_addr = addr, d_method = ''device_system_dns'', d_ips = []\<rparr>, st)
      | Inl err \<Rightarrow>
          (case ResolveHost (dns2 env) (dnsCfg cfg) host st of
             ((as, method), st2) \<Rightarrow>
               let fb = (if as = [] \<and> length fallback > 0
                         then dial_ips env tmo port (Suc k) (RotateIPs (rot_now env) fallback)
                         else None) in
               case fb of
                 Some (c, a) \<Rightarrow>
                   (\<lparr>d_conn = Inr c, d_addr = a, d_method = ''profile_fallback_ip'', d_ips = fallback\<rparr>, st2)
               | None \<Rightarrow>
                   if as = [] then
                     (\<lparr>d_conn = Inl err, d_addr = addr, d_method = ''dns_failed'', d_ips = []\<rparr>, st2)
                   else
                     (case dial_ips env tmo port (Suc k) (RotateIPs (rot_now env) as) of
                        Some (c, a) \<Rightarrow>
                          (\<lparr>d_conn = Inr c, d_addr = a, d_method = method, d_ips = as\<rparr>, st2)
                      | None \<Rightarrow>
                          (\<lparr>d_conn = Inl err, d_addr = addr, d_method = method, d_ips = as\<rparr>, st2))))"

definition dialTCPResolved ::
  "net_env \<Rightarrow> config \<Rightarrow> string \<Rightarrow> int \<Rightarrow> string list \<Rightarrow> dns_state \<Rightarrow> dial_result \<times> dns_state" where
  "dialTCPResolved env cfg host port0 fallback st =
     (let port = Itoa port0; tmo = connect_timeout cfg in
      case ParseIP host of
        Some i \<Rightarrow>
          let addr = JoinHostPort host port in
          (\<lparr>d_conn = dial env 0 tmo addr, d_addr = addr, d_method = ''literal_ip'',
            d_ips = [IP_String i]\<rparr>, st)
      | None \<Rightarrow>
          if NormalizeDNSMode (DNS_Mode (CDNS cfg)) \<noteq> ''device'' then
            (case ResolveHost (dns1 env) (dnsCfg cfg) host st of
               ((as0, method), st1) \<Rightarrow>
                 let as = RotateIPs (rot_now env) as0 in
                 (case dial_ips env tmo port 0 as of
                    Some (c, a) \<Rightarrow> (\<lparr>d_conn = Inr c, d_addr = a, d_method = method, d_ips = as\<rparr>, st1)
                  | None \<Rightarrow> dial_system env cfg host port fallback (length as) st1))
          else dial_system env cfg host port fallback 0 st)"

subsection \<open>HTTP CONNECT and the probe\<close>

definition readSome :: "nat \<Rightarrow> tconn \<Rightarrow> (transport_error + string) \<times> tconn" where
  "readSome mx c =
     (case conn_read mx c of
        (bs, e, c') \<Rightarrow>
          if length bs > 0 then (Inr bs, c')
          else (case e of Some err \<Rightarrow> (Inl (ConnectRead err), c') | None \<Rightarrow> (Inl ConnectEmpty, c')))"

definition connect_req :: "profile \<Rightarrow> string" where
  "connect_req p =
     (let target = JoinHostPort (SSH_Host (P_SSH p)) (Itoa (SSH_Port (P_SSH p))) in
      ''CONNECT '' @ target @ '' HTTP/1.1'' @ crlf @ ''Host: '' @ target @ crlf
        @ ''Proxy-Connection: Keep-Alive'' @ crlf @ crlf)"

definition httpCONNECT :: "profile \<Rightarrow> tconn \<Rightarrow> transport_error option \<times> tconn" where
  "httpCONNECT p c =
     (case conn_write (connect_req p) c of
        (False, c1) \<Rightarrow> (Some ConnectWrite, c1)
      | (True, c1) \<Rightarrow>
          (case readSome 4096 c1 of
             (Inl e, c2) \<Rightarrow> (Some e, c2)
           | (Inr data, c2) \<Rightarrow>
               (case ExtractHTTPStatuses data of
                  [] \<Rightarrow> (Some ConnectNoStatus, c2)
                | n # _ \<Rightarrow> if n < 200 \<or> n > 299 then (Some (ConnectStatus n), c2) else (None, c2))))"

text \<open>The measure of what is left to read.\<close>

definition reads_size :: "tconn \<Rightarrow> nat" where
  "reads_size c = sum_list (map (\<lambda>(bs, _). length bs) (reads c)) + length (reads c)"

lemma conn_read_shorter:
  "conn_read n c = (bs, e, c') \<Longrightarrow> 0 < n \<Longrightarrow> e \<noteq> Some Timeout \<Longrightarrow> reads_size c' < reads_size c"
  by (auto simp: conn_read_def reads_size_def split: list.splits if_splits)

function probe_loop :: "string \<Rightarrow> tconn \<Rightarrow> (transport_error + string) \<times> tconn" where
  "probe_loop out c =
     (if length out < 64 * 1024 then
        (case conn_read 2048 c of
           (bs, e, c') \<Rightarrow>
             let out' = (if length bs > 0 then out @ bs else out) in
             if length bs > 0 \<and> Contains out' ''SSH-'' then (Inr out', c')
             else
               (case e of
                  None \<Rightarrow> probe_loop out' c'
                | Some ReadFailed \<Rightarrow> (Inl (PayloadRead ReadFailed), c')
                | Some _ \<Rightarrow> if length out' = 0 then (Inl PayloadNoBytes, c') else (Inr out', c')))
      else (Inr out, c))"
  by pat_completeness auto
termination
  by (relation "measure (\<lambda>(_, c). reads_size c)") (auto dest: conn_read_shorter [OF sym])

declare probe_loop.simps [simp del]

definition readProbe :: "tconn \<Rightarrow> (transport_error + string) \<times> tconn" where
  "readProbe c = probe_loop [] c"

subsection \<open>The prepared connection\<close>

record result =
  Banner :: string
  Statuses :: "int list"
  Preview :: string
  ResolvedDial :: string
  ResolverMethod :: string
  ResolvedIPs :: "string list"

definition empty_result :: result where
  "empty_result = \<lparr>Banner = '''', Statuses = [], Preview = '''', ResolvedDial = '''',
     ResolverMethod = '''', ResolvedIPs = []\<rparr>"

text \<open>The three stages after the dial. A stage returns the error or goes on, with the connection.\<close>

definition stage_proxy :: "profile \<Rightarrow> tconn \<Rightarrow> transport_error option \<times> tconn" where
  "stage_proxy p c =
     (case TR_HTTPProxy (P_Transport p) of
        Some h \<Rightarrow>
          if UsesHTTPProxy p \<and> EqualFold (HP_ConnectMethod h) ''connect''
          then (case httpCONNECT p c of
                  (Some e, c1) \<Rightarrow> (Some e, t_close c1)
                | (None, c1) \<Rightarrow> (None, c1))
          else (None, c)
      | None \<Rightarrow> (None, c))"

definition stage_tls :: "net_env \<Rightarrow> profile \<Rightarrow> tconn \<Rightarrow> transport_error option \<times> tconn" where
  "stage_tls env p c =
     (if UsesTLS p then
        (case TR_TLS (P_Transport p) of
           None \<Rightarrow> (Some TLSMissing, t_close c)
         | Some t \<Rightarrow>
             let sni = (if TLS_ServerName t = '''' then SSH_Host (P_SSH p) else TLS_ServerName t) in
             (case tls_handshake env sni (TLS_InsecureSkipVerify t) (TLS_ALPN t) c of
                None \<Rightarrow> (Some TLSFailed, t_close c)
              | Some tc \<Rightarrow> (None, tc)))
      else (None, c))"

definition stage_payload ::
  "net_env \<Rightarrow> profile \<Rightarrow> tconn \<Rightarrow> (transport_error + string) \<times> tconn" where
  "stage_payload env p c =
     (let pl = TR_Payload (P_Transport p) in
      if PL_Enabled pl then
        (case conn_write (RenderPayload (map_order env) (PL_Template pl) p) c of
           (False, c1) \<Rightarrow> (Inl PayloadWrite, t_close c1)
         | (True, c1) \<Rightarrow>
             if PL_ReadResponse pl then
               (case readProbe c1 of
                  (Inl e, c2) \<Rightarrow> (Inl e, t_close c2)
                | (Inr buf, c2) \<Rightarrow> (Inr buf, c2))
             else (Inr [], c1))
      else (Inr [], c))"

text \<open>The first status that stands for a rate limit evicts the two hosts.\<close>

definition evict_on_status :: "profile \<Rightarrow> int list \<Rightarrow> host_cache \<Rightarrow> host_cache" where
  "evict_on_status p statuses es =
     (if list_ex (\<lambda>s. s = 302 \<or> s = 301 \<or> s = 503) statuses
      then let es1 = EvictHost (SSH_Host (P_SSH p)) es in
        (case TR_HTTPProxy (P_Transport p) of None \<Rightarrow> es1 | Some h \<Rightarrow> EvictHost (HP_Host h) es1)
      else es)"

definition stage_banner ::
  "profile \<Rightarrow> string \<Rightarrow> tconn \<Rightarrow> dns_state
     \<Rightarrow> transport_error option \<times> int list \<times> tconn \<times> dns_state" where
  "stage_banner p all c st =
     (let pl = TR_Payload (P_Transport p);
          statuses = ExtractHTTPStatuses all;
          allowed = (if 301 \<in> set (PL_AllowStatuses pl) then PL_AllowStatuses pl
                     else PL_AllowStatuses pl @ [301]) in
      if length statuses > 0 \<and> \<not> AllowedStatuses statuses allowed
      then (Some (StatusNotAllowed statuses), statuses, t_close c, st)
      else if PL_Enabled pl \<and> PL_ReadResponse pl then
        (case Index all ''SSH-'' of
           Some idx \<Rightarrow>
             if ExtractSSHBanner all \<noteq> '''' then (None, statuses, c\<lparr>pre := drop idx all\<rparr>, st)
             else if length statuses > 0
               then (None, statuses, c, st\<lparr>hostCache := evict_on_status p statuses (hostCache st)\<rparr>)
             else (Some NoBanner, statuses, t_close c, st)
         | None \<Rightarrow>
             if length statuses > 0
             then (None, statuses, c, st\<lparr>hostCache := evict_on_status p statuses (hostCache st)\<rparr>)
             else (Some NoBanner, statuses, t_close c, st))
      else (None, statuses, c, st))"

text \<open>
  \<open>openPreparedConn\<close>. The outcome lists the connection also when there is an error, so that what
  happened to it can be stated: \<open>None\<close> when none was dialed.
\<close>

record prepared =
  pr_error :: "transport_error option"
  pr_conn :: "tconn option"
  pr_result :: result
  pr_dns :: dns_state

definition openPreparedConn :: "net_env \<Rightarrow> config \<Rightarrow> profile \<Rightarrow> dns_state \<Rightarrow> prepared" where
  "openPreparedConn env cfg p st =
     (let failed = (\<lambda>e c r st. \<lparr>pr_error = Some e, pr_conn = c, pr_result = r, pr_dns = st\<rparr>) in
      case dialEndpoint p of
        Inl e \<Rightarrow> failed e None empty_result st
      | Inr (host, port) \<Rightarrow>
          (case dialTCPResolved env cfg host port (dialFallbackIPs p host) st of
             (d, st1) \<Rightarrow>
               let res = empty_result\<lparr>ResolvedDial := d_addr d, ResolverMethod := d_method d,
                                      ResolvedIPs := d_ips d\<rparr> in
               (case d_conn d of
                  Inl e \<Rightarrow> failed (DialFailed e) None res st1
                | Inr c0 \<Rightarrow>
                    (case stage_proxy p c0 of
                       (Some e, c1) \<Rightarrow> failed e (Some c1) empty_result st1
                     | (None, c1) \<Rightarrow>
                         (case stage_tls env p c1 of
                            (Some e, c2) \<Rightarrow> failed e (Some c2) empty_result st1
                          | (None, c2) \<Rightarrow>
                              (case stage_payload env p c2 of
                                 (Inl e, c3) \<Rightarrow> failed e (Some c3) empty_result st1
                               | (Inr all, c3) \<Rightarrow>
                                   (case stage_banner p all c3 st1 of
                                      (Some e, ss, c4, st2) \<Rightarrow>
                                        failed e (Some c4)
                                          (empty_result\<lparr>Statuses := ss, Preview := preview all\<rparr>) st2
                                    | (None, ss, c4, st2) \<Rightarrow>
                                        \<lparr>pr_error = None, pr_conn = Some c4,
                                         pr_result = res\<lparr>Banner := ExtractSSHBanner all, Statuses := ss,
                                                         Preview := preview all\<rparr>,
                                         pr_dns = st2\<rparr>)))))))"

text \<open>The password that \<^verbatim>\<open>DialContext\<close> authenticates with, for both methods.\<close>

definition ssh_password :: "profile \<Rightarrow> string" where
  "ssh_password p =
     (if SSH_Password (P_SSH p) = '''' then SSH_Username (P_SSH p) else SSH_Password (P_SSH p))"

text \<open>\<open>new_client\<close> is \<^verbatim>\<open>ssh.NewClientConn\<close> with the address, the user and the password.\<close>

definition DialContext ::
  "(string \<Rightarrow> string \<Rightarrow> string \<Rightarrow> tconn \<Rightarrow> 'client option) \<Rightarrow> net_env \<Rightarrow> config \<Rightarrow> profile \<Rightarrow> dns_state
     \<Rightarrow> (transport_error option + 'client) \<times> prepared" where
  "DialContext new_client env cfg p st =
     (let r = openPreparedConn env cfg p st in
      case (pr_error r, pr_conn r) of
        (None, Some c) \<Rightarrow>
          (case new_client (JoinHostPort (SSH_Host (P_SSH p)) (Itoa (SSH_Port (P_SSH p))))
                  (SSH_Username (P_SSH p)) (ssh_password p) c of
             None \<Rightarrow> (Inl None, r\<lparr>pr_conn := Some (t_close c)\<rparr>)
           | Some cl \<Rightarrow> (Inr cl, r))
      | (e, _) \<Rightarrow> (Inl e, r))"

text \<open>Templates: text and bracketed names, neither with a bracket inside.\<close>

datatype piece = Text string | Tok string

fun flat :: "piece \<Rightarrow> string" where
  "flat (Text t) = t"
| "flat (Tok k) = ''['' @ k @ '']''"

definition bracket_free :: "string \<Rightarrow> bool" where
  "bracket_free s \<longleftrightarrow> CHR ''['' \<notin> set s \<and> CHR '']'' \<notin> set s"

fun wf_piece :: "piece \<Rightarrow> bool" where
  "wf_piece (Text t) = bracket_free t"
| "wf_piece (Tok k) = bracket_free k"

text \<open>The simultaneous substitution of a map.\<close>

fun expand :: "(string \<rightharpoonup> string) \<Rightarrow> piece \<Rightarrow> string" where
  "expand m (Text t) = t"
| "expand m (Tok k) = (case m (''['' @ k @ '']'') of None \<Rightarrow> ''['' @ k @ '']'' | Some v \<Rightarrow> v)"

section \<open>Lemmas\<close>

subsection \<open>Payload\<close>

fun apply1 :: "string \<Rightarrow> string \<Rightarrow> piece \<Rightarrow> piece" where
  "apply1 k v (Text t) = Text t"
| "apply1 k v (Tok n) = (if n = k then Text v else Tok n)"

lemma bracket_inj:
  assumes "CHR '']'' \<notin> set n" "CHR '']'' \<notin> set k" "n @ CHR '']'' # r = k @ CHR '']'' # r'"
  shows "n = k"
proof -
  have "takeWhile (\<lambda>c. c \<noteq> CHR '']'') (n @ CHR '']'' # r) = n"
    "takeWhile (\<lambda>c. c \<noteq> CHR '']'') (k @ CHR '']'' # r') = k"
    using assms(1,2) by (simp_all add: takeWhile_tail takeWhile_append)
  with assms(3) show ?thesis by simp
qed

lemma ReplaceAll_pieces:
  assumes "list_all wf_piece ps" "bracket_free k"
  shows "ReplaceAll (concat (map flat ps)) (''['' @ k @ '']'') v =
    concat (map (\<lambda>p. flat (apply1 k v p)) ps)"
  using assms(1)
proof (induction ps)
  case (Cons p ps)
  let ?r = "concat (map flat ps)" and ?k = "CHR ''['' # k @ '']''"
  have IH: "ReplaceAll ?r ?k v = concat (map (\<lambda>p. flat (apply1 k v p)) ps)" using Cons by simp
  show ?case
  proof (cases p)
    case (Text t)
    then have "CHR ''['' \<notin> set t" using Cons.prems by (simp add: bracket_free_def)
    then show ?thesis using IH Text ReplaceAll_skip [of "CHR ''[''" t ?r "k @ '']''" v] by simp
  next
    case (Tok n)
    then have n: "CHR ''['' \<notin> set n" "CHR '']'' \<notin> set n" using Cons.prems by (simp_all add: bracket_free_def)
    show ?thesis
    proof (cases "n = k")
      case True
      then show ?thesis using IH Tok ReplaceAll_hit [of ?k ?r v] by simp
    next
      case False
      have "\<not> prefix ?k (CHR ''['' # n @ CHR '']'' # ?r)"
        using bracket_inj [OF n(2), of k ?r] assms(2) False by (auto simp: prefix_def bracket_free_def)
      then have "ReplaceAll (CHR ''['' # n @ CHR '']'' # ?r) ?k v = CHR ''['' # ReplaceAll (n @ CHR '']'' # ?r) ?k v"
        by (simp add: ReplaceAll.simps [of "CHR ''['' # n @ CHR '']'' # ?r"])
      moreover have "ReplaceAll ((n @ '']'') @ ?r) ?k v = (n @ '']'') @ ReplaceAll ?r ?k v"
        using n by (intro ReplaceAll_skip) simp
      ultimately show ?thesis using IH Tok False by simp
    qed
  qed
qed simp

lemma foldl_pieces:
  assumes "list_all wf_piece ps" "list_all (\<lambda>(k, v). bracket_free k \<and> bracket_free v) kvs"
    "distinct (map fst kvs)"
  shows "foldl (\<lambda>out (k, v). ReplaceAll out (''['' @ k @ '']'') v) (concat (map flat ps)) kvs =
    concat (map (\<lambda>p. case p of Text t \<Rightarrow> t
       | Tok n \<Rightarrow> (case map_of kvs n of None \<Rightarrow> ''['' @ n @ '']'' | Some v \<Rightarrow> v)) ps)"
  using assms
proof (induction kvs arbitrary: ps)
  case Nil
  show ?case unfolding foldl_Nil
    by (intro arg_cong [of _ _ concat] map_cong refl) (simp split: piece.split)
next
  case (Cons kv kvs)
  obtain k v where kv: "kv = (k, v)" by (cases kv)
  have bf: "bracket_free k" "bracket_free v" using Cons.prems kv by auto
  have wf: "list_all wf_piece (map (apply1 k v) ps)"
    using Cons.prems(1) bf by (induction ps) (auto elim!: wf_piece.elims)
  have "foldl (\<lambda>out (k, v). ReplaceAll out (''['' @ k @ '']'') v) (concat (map flat ps)) (kv # kvs) =
      foldl (\<lambda>out (k, v). ReplaceAll out (''['' @ k @ '']'') v) (concat (map flat (map (apply1 k v) ps))) kvs"
    using ReplaceAll_pieces [OF Cons.prems(1) bf(1), of v] by (simp add: kv comp_def)
  also have "\<dots> = concat (map (\<lambda>p. case p of Text t \<Rightarrow> t
       | Tok n \<Rightarrow> (case map_of kvs n of None \<Rightarrow> ''['' @ n @ '']'' | Some v \<Rightarrow> v)) (map (apply1 k v) ps))"
    using Cons.prems(2,3) by (intro Cons.IH [OF wf]) (simp_all add: kv)
  also have "\<dots> = concat (map (\<lambda>p. case p of Text t \<Rightarrow> t
       | Tok n \<Rightarrow> (case map_of (kv # kvs) n of None \<Rightarrow> ''['' @ n @ '']'' | Some v \<Rightarrow> v)) ps)"
    unfolding map_map comp_def
    by (intro arg_cong [of _ _ concat] map_cong refl) (auto simp: kv split: piece.split)
  finally show ?case .
qed

definition bracketed :: "string \<times> string \<Rightarrow> string \<times> string" where
  "bracketed kv = (''['' @ fst kv @ '']'', snd kv)"

lemma map_of_bracketed: "map_of (map bracketed kvs) (CHR ''['' # n @ '']'') = map_of kvs n"
  by (induction kvs) (auto simp: bracketed_def)

definition payload_names :: "profile \<Rightarrow> (string \<times> string) list" where
  "payload_names p = map (\<lambda>(k, v). (butlast (tl k), v)) (payload_repl p)"

lemma payload_names: "payload_repl p = map bracketed (payload_names p)"
  by (simp add: payload_names_def payload_repl_def bracketed_def)

lemma payload_names_wf: "distinct (map fst (payload_names p)) \<and> list_all (\<lambda>(k, v). bracket_free k) (payload_names p)"
  by (simp add: payload_names_def payload_repl_def bracket_free_def)

lemma inj_bracketed: "inj bracketed"
  by (auto simp: inj_def bracketed_def prod_eq_iff)

lemma RenderPayload_pieces:
  assumes ord: "mset (ord (payload_repl p)) = mset (payload_repl p)"
    and vals: "list_all (\<lambda>(k, v). bracket_free v) (payload_repl p)"
    and wf: "list_all wf_piece ps"
  shows "RenderPayload ord (concat (map flat ps)) p = concat (map (expand (map_of (payload_repl p))) ps)"
proof -
  let ?L = "payload_repl p" and ?N = "payload_names p"
  define kvs where "kvs = map (inv bracketed) (ord ?L)"
  have N: "kvs = map (inv bracketed) (ord ?L)" "?N = map (inv bracketed) ?L"
    using inj_bracketed by (simp_all add: kvs_def payload_names comp_def)
  have "set (ord ?L) = set ?L" using ord by (metis set_mset_mset)
  then have "set (ord ?L) \<subseteq> range bracketed" by (auto simp: payload_names)
  then have ordL: "ord ?L = map bracketed kvs"
    unfolding kvs_def map_map by (intro map_idI [symmetric]) (auto simp: f_inv_into_f)
  have "mset kvs = mset ?N" unfolding N using ord by (metis mset_map)
  then have ms: "mset (map fst kvs) = mset (map fst ?N)" and st: "set kvs = set ?N"
    by (metis mset_map, metis set_mset_mset)
  from ms have d: "distinct (map fst kvs)" using payload_names_wf [of p] by (metis mset_eq_imp_distinct_iff)
  have "map_of kvs = map_of ?N" using d payload_names_wf [of p] st by (simp add: map_of_inject_set)
  moreover have "list_all (\<lambda>(k, v). bracket_free k \<and> bracket_free v) kvs"
    using payload_names_wf [of p] vals st by (auto simp: list_all_iff payload_names bracketed_def)
  ultimately have "foldl (\<lambda>out (k, v). ReplaceAll out (''['' @ k @ '']'') v) (concat (map flat ps)) kvs =
      concat (map (\<lambda>p. case p of Text t \<Rightarrow> t
         | Tok n \<Rightarrow> (case map_of ?N n of None \<Rightarrow> ''['' @ n @ '']'' | Some v \<Rightarrow> v)) ps)"
    using foldl_pieces [OF wf _ d] by simp
  moreover have "RenderPayload ord (concat (map flat ps)) p =
      foldl (\<lambda>out (k, v). ReplaceAll out (''['' @ k @ '']'') v) (concat (map flat ps)) kvs"
    unfolding RenderPayload_def ordL
    by (simp add: foldl_map [symmetric] case_prod_unfold bracketed_def)
  moreover have "(case q of Text t \<Rightarrow> t
      | Tok n \<Rightarrow> (case map_of ?N n of None \<Rightarrow> ''['' @ n @ '']'' | Some v \<Rightarrow> v)) = expand (map_of ?L) q" for q
    using map_of_bracketed [of ?N] by (cases q) (simp_all add: payload_names)
  ultimately show ?thesis by simp
qed

subsection \<open>Streams\<close>

text \<open>All that reading the connection will still yield.\<close>

definition stream :: "tconn \<Rightarrow> string" where
  "stream c = pre c @ concat (map fst (reads c))"

lemma conn_read_stream:
  "conn_read n c = (bs, e, c') \<Longrightarrow> concat (map fst (reads c)) = bs @ concat (map fst (reads c')) \<and> pre c' = pre c"
  by (auto simp: conn_read_def split: list.splits if_splits)

lemma prefix_read_stream: "prefix_read n c = (bs, e, c') \<Longrightarrow> stream c = bs @ stream c'"
  by (auto simp: prefix_read_def stream_def dest: conn_read_stream split: if_splits)

lemma probe_loop_stream:
  "probe_loop out c = (Inr all, c') \<Longrightarrow>
   all @ concat (map fst (reads c')) = out @ concat (map fst (reads c)) \<and> pre c' = pre c"
proof (induction out c rule: probe_loop.induct)
  case (1 out c)
  obtain bs e c1 where r: "conn_read 2048 c = (bs, e, c1)" by (cases "conn_read 2048 c")
  note s = conn_read_stream [OF r]
  show ?case
  proof (cases "length out < 64 * 1024")
    case True
    define out' where "out' = (if length bs > 0 then out @ bs else out)"
    have o: "out' = out @ bs" by (auto simp: out'_def)
    show ?thesis
    proof (cases "(length bs > 0 \<and> Contains out' ''SSH-'') \<or> e \<noteq> None")
      case stop: True
      then show ?thesis
        using "1.prems" True s o
        by (auto simp: probe_loop.simps [of out c] r Let_def out'_def split: if_splits option.splits read_err.splits)
    next
      case False
      then have "probe_loop out' c1 = (Inr all, c')"
        using "1.prems" True unfolding probe_loop.simps [of out c] r prod.case Let_def out'_def [symmetric]
        by (auto split: if_splits option.splits)
      then show ?thesis
        using "1.IH" [OF True r [symmetric] refl out'_def] False s o by auto
    qed
  next
    case False
    then show ?thesis using "1.prems" by (simp add: probe_loop.simps [of out c])
  qed
qed

lemma conn_write_reads: "conn_write s c = (b, c') \<Longrightarrow> reads c' = reads c \<and> pre c' = pre c"
  by (auto simp: conn_write_def split: if_splits)

lemma stage_payload_stream:
  assumes "stage_payload env p c = (Inr all, c')"
  shows "all @ concat (map fst (reads c')) = concat (map fst (reads c)) \<and> pre c' = pre c"
proof -
  obtain w c1 where w: "conn_write (RenderPayload (map_order env) (PL_Template (TR_Payload (P_Transport p))) p) c = (w, c1)"
    by (cases "conn_write (RenderPayload (map_order env) (PL_Template (TR_Payload (P_Transport p))) p) c")
  from conn_write_reads [OF w] assms w show ?thesis
    by (auto simp: stage_payload_def Let_def readProbe_def split: if_splits bool.splits sum.splits prod.splits
        dest!: probe_loop_stream)
qed

lemma spaces_no_S: "list_all (\<lambda>w. CHR ''S'' \<notin> set w) spaces"
  by code_simp

lemma banner_nonempty:
  assumes "Index s ''SSH-'' = Some i"
  shows "ExtractSSHBanner s \<noteq> ''''"
proof -
  obtain t where t: "drop i s = CHR ''S'' # t" using Index_Some [OF assms] by (auto simp: prefix_def)
  have "CHR ''S'' \<in> set u \<Longrightarrow> TrimSpace u \<noteq> ''''" for u
    using TrimSpace_keeps [OF spaces_no_S, of u] by auto
  moreover have "CHR ''S'' \<in> set (take j (drop i s))" if "Index (drop i s) sep = Some j" "sep \<in> {crlf, [nl]}" for j sep
  proof -
    have "\<not> prefix sep (drop i s)" using that(2) t by (auto simp: crlf_def cr_def nl_def)
    then have "j \<noteq> 0" using Index_Some [OF that(1)] by (cases j) auto
    then show ?thesis using t by (cases j) auto
  qed
  ultimately show ?thesis
    unfolding ExtractSSHBanner_def assms option.case Let_def
    by (auto simp: t split: option.split)
qed

subsection \<open>Errors close the connection\<close>

lemma stage_proxy_closes: "stage_proxy p c = (Some e, c') \<Longrightarrow> t_closed c'"
  by (auto simp: stage_proxy_def t_close_def split: option.splits if_splits prod.splits)

lemma stage_tls_closes: "stage_tls env p c = (Some e, c') \<Longrightarrow> t_closed c'"
  by (auto simp: stage_tls_def t_close_def Let_def split: option.splits if_splits)

lemma stage_payload_closes: "stage_payload env p c = (Inl e, c') \<Longrightarrow> t_closed c'"
  by (auto simp: stage_payload_def t_close_def Let_def split: bool.splits if_splits prod.splits sum.splits)

lemma stage_banner_closes: "stage_banner p all c st = (Some e, ss, c', st') \<Longrightarrow> t_closed c'"
  by (auto simp: stage_banner_def t_close_def Let_def split: option.splits if_splits)

lemma openPreparedConn_closed:
  "case pr_error (openPreparedConn env cfg p st) of
     Some _ \<Rightarrow> pred_option t_closed (pr_conn (openPreparedConn env cfg p st))
   | None \<Rightarrow> pr_conn (openPreparedConn env cfg p st) \<noteq> None"
  by (auto simp: openPreparedConn_def Let_def split: sum.split prod.split option.split
      dest: stage_proxy_closes stage_tls_closes stage_payload_closes stage_banner_closes)

subsection \<open>Dialing\<close>

lemma dial_ips_Some:
  "dial_ips env tmo port k as = Some (c, a) \<Longrightarrow>
   \<exists>j x. x \<in> set as \<and> a = JoinHostPort x port \<and> dial env j tmo a = Inr c"
proof (induction as arbitrary: k)
  case (Cons x as)
  then show ?case by (fastforce simp: Let_def split: sum.splits)
qed simp

lemma set_RotateIPs [simp]: "set (RotateIPs now xs) = set xs"
  by (simp add: RotateIPs_rotate)

text \<open>What a dial result says.\<close>

definition dial_sound :: "net_env \<Rightarrow> string \<Rightarrow> string \<Rightarrow> dial_result \<Rightarrow> bool" where
  "dial_sound env host port d \<longleftrightarrow>
     (case d_conn d of
        Inr c \<Rightarrow> (\<exists>k t x. dial env k t (d_addr d) = Inr c \<and> d_addr d = JoinHostPort x port \<and>
                          (x = host \<or> x \<in> set (d_ips d)))
      | Inl e \<Rightarrow> d_addr d = JoinHostPort host port \<and> (\<exists>k t. dial env k t (d_addr d) = Inl e))"

lemma dial_system_sound: "dial_sound env host port (fst (dial_system env cfg host port fallback k st))"
  by (auto simp: dial_sound_def dial_system_def Let_def split: sum.split prod.split option.split
      dest!: dial_ips_Some)

lemma dialTCPResolved_sound_lemma:
  "dial_sound env host (Itoa port) (fst (dialTCPResolved env cfg host port fallback st))"
proof (cases "ParseIP host")
  case None
  then show ?thesis
    using dial_system_sound
    by (auto simp: dialTCPResolved_def Let_def split: prod.split option.split)
      (auto simp: dial_sound_def dest!: dial_ips_Some)
next
  case (Some i)
  then show ?thesis by (auto simp: dialTCPResolved_def dial_sound_def Let_def split: sum.split)
qed

lemma dialTCPResolved_literal:
  "ParseIP host = None \<or> snd (dialTCPResolved env cfg host port fallback st) = st"
  by (cases "ParseIP host") (simp_all add: dialTCPResolved_def Let_def)

subsection \<open>Modes\<close>

lemma NormalizeMode_range:
  "NormalizeMode m \<in> {'''', ''direct'', ''http_proxy'', ''tls_sni'', ''http_proxy_tls_sni''}"
  by (simp add: NormalizeMode_def Let_def)

lemma NormalizeMode_fix:
  "NormalizeMode '''' = ''''" "NormalizeMode ''direct'' = ''direct''"
  "NormalizeMode ''http_proxy'' = ''http_proxy''" "NormalizeMode ''tls_sni'' = ''tls_sni''"
  "NormalizeMode ''http_proxy_tls_sni'' = ''http_proxy_tls_sni''"
  by code_simp+

lemma NormalizeMode_idem: "NormalizeMode (NormalizeMode m) = NormalizeMode m"
  using NormalizeMode_range [of m] by (auto simp: NormalizeMode_fix)

lemma NormalizeDNSMode_range: "NormalizeDNSMode m \<in> {''device'', ''google'', ''cloudflare'', ''custom''}"
  by (auto simp: NormalizeDNSMode_def Let_def)

lemma NormalizeDNSMode_fix:
  "NormalizeDNSMode ''device'' = ''device''" "NormalizeDNSMode ''google'' = ''google''"
  "NormalizeDNSMode ''cloudflare'' = ''cloudflare''" "NormalizeDNSMode ''custom'' = ''custom''"
  by code_simp+

lemma NormalizeDNSMode_idem: "NormalizeDNSMode (NormalizeDNSMode m) = NormalizeDNSMode m"
  using NormalizeDNSMode_range [of m] by (auto simp: NormalizeDNSMode_fix)

section \<open>Properties\<close>

text \<open>C29. Rendering a payload template is a simultaneous substitution, whatever order Go's map
  iteration visits the replacements in: on a template of text and bracketed names, with values
  that contain no brackets, every known name becomes its value, and unknown names and the text stay
  as they are.\<close>
theorem RenderPayload_simultaneous:
  assumes "mset (ord (payload_repl p)) = mset (payload_repl p)"
    and "list_all (\<lambda>(k, v). bracket_free v) (payload_repl p)"
    and "list_all wf_piece ps"
  shows "RenderPayload ord (concat (map flat ps)) p = concat (map (expand (map_of (payload_repl p))) ps)"
  using assms by (rule RenderPayload_pieces)

theorem RenderPayload_simultaneous_witness:
  "RenderPayload rev (''GET '' @ ''[host]'' @ '':'' @ ''[port]'' @ ''[crlf]'') (demo_profile ''a'' True) =
     ''GET h:22'' @ crlf"
proof -
  have "list_all (\<lambda>(k, v). bracket_free v) (payload_repl (demo_profile ''a'' True))" by code_simp
  moreover have "list_all wf_piece [Text ''GET '', Tok ''host'', Text '':'', Tok ''port'', Tok ''crlf'']"
    by (simp add: bracket_free_def)
  moreover have "Itoa 22 = ''22''" by code_simp
  ultimately show ?thesis
    using RenderPayload_simultaneous [of rev "demo_profile ''a'' True"
        "[Text ''GET '', Tok ''host'', Text '':'', Tok ''port'', Tok ''crlf'']"]
    by (simp add: payload_repl_def demo_profile_def)
qed


lemma status_demo1:
  "TrimSpace ''HTTP/1.1 301 '' = ''HTTP/1.1 301''" "TrimSpace ''SSH-2.0-x'' = ''SSH-2.0-x''" "TrimSpace ''k'' = ''k''"
  by code_simp+

lemma status_demo2: "TrimSpace ''HTTP/1.1 200'' = ''HTTP/1.1 200''"
  by code_simp

lemma status_demo3:
  "HasPrefix ''HTTP/1.1 301'' ''HTTP/''" "HasPrefix ''HTTP/1.1 200'' ''HTTP/''"
  "\<not> HasPrefix ''SSH-2.0-x'' ''HTTP/''" "\<not> HasPrefix ''k'' ''HTTP/''" "\<not> HasPrefix '''' ''HTTP/''"
  by (simp_all add: HasPrefix_def)

lemma status_demo4: "Fields ''HTTP/1.1 301'' = [''HTTP/1.1'', ''301'']"
  by code_simp

lemma status_demo5: "Fields ''HTTP/1.1 200'' = [''HTTP/1.1'', ''200'']"
  by code_simp

lemma status_demo6: "Atoi ''301'' = Some 301" "Atoi ''200'' = Some 200"
  by code_simp+

lemmas status_demo = status_demo1 status_demo2 status_demo3 status_demo4 status_demo5 status_demo6

definition probe_profile :: profile where
  "probe_profile = (demo_profile ''a'' True)\<lparr>P_Transport := (P_Transport (demo_profile ''a'' True))
     \<lparr>TR_Payload := \<lparr>PL_Enabled = True, PL_Template = ''x'', PL_SendTiming = '''',
        PL_ReadResponse = True, PL_AllowStatuses = []\<rparr>\<rparr>\<rparr>"

definition probe_conn :: tconn where
  "probe_conn = \<lparr>reads = [(''HTTP/1.1 301 '' @ crlf @ ''SSH-2.0-x'' @ crlf @ ''k'', None), (''ex'', Some EOF)],
     sent = '''', write_ok = True, pre = '''', t_closed = False\<rparr>"

definition demo_net :: net_env where
  "demo_net = \<lparr>dial = (\<lambda>_ _ _. Inr probe_conn), dns1 = dns_demo_env, dns2 = dns_demo_env, rot_now = 0,
     tls_handshake = (\<lambda>_ _ _ c. Some c), map_order = (\<lambda>xs. xs)\<rparr>"


text \<open>C30. \<^verbatim>\<open>openPreparedConn\<close> leaks no connection: whatever the network does, on every error path
  the connection that was dialed, if any, is closed, and a success comes with a connection.\<close>
theorem openPreparedConn_no_leak:
  "case pr_error (openPreparedConn env cfg p st) of
     Some _ \<Rightarrow> pred_option t_closed (pr_conn (openPreparedConn env cfg p st))
   | None \<Rightarrow> pr_conn (openPreparedConn env cfg p st) \<noteq> None"
  by (rule openPreparedConn_closed)

text \<open>The dial strategy reports the truth: a connection comes from a dial of the reported address,
  which is the host itself or one of the reported addresses with the requested port; an error is
  the one of dialing the host itself; and a literal address is dialed without any lookup.\<close>
theorem dialTCPResolved_sound:
  "(case dialTCPResolved env cfg host port fallback st of (d, st') \<Rightarrow>
     (case d_conn d of
        Inr c \<Rightarrow> \<exists>k t x. dial env k t (d_addr d) = Inr c \<and> d_addr d = JoinHostPort x (Itoa port) \<and>
                          (x = host \<or> x \<in> set (d_ips d))
      | Inl e \<Rightarrow> d_addr d = JoinHostPort host (Itoa port) \<and> (\<exists>k t. dial env k t (d_addr d) = Inl e)) \<and>
     (ParseIP host = None \<or> st' = st))"
  using dialTCPResolved_sound_lemma [of env host port cfg fallback st]
    dialTCPResolved_literal [of host env cfg port fallback st]
  by (cases "dialTCPResolved env cfg host port fallback st") (simp add: dial_sound_def)

text \<open>The CONNECT exchange reads up to 4096 bytes and drops what follows the status, so a banner that
  arrives in the same read as the proxy's answer is lost.\<close>

lemma httpCONNECT_drops_banner:
  "httpCONNECT p \<lparr>reads = [(''HTTP/1.1 200'' @ crlf @ crlf @ ''SSH-2.0-x'' @ crlf, None)], sent = '''',
      write_ok = True, pre = '''', t_closed = False\<rparr> = (None, c') \<Longrightarrow> stream c' = ''''"
proof -
  let ?r = "''HTTP/1.1 200'' @ crlf @ crlf @ ''SSH-2.0-x'' @ crlf"
  have "Split nl (ReplaceAll ?r crlf [nl]) = [''HTTP/1.1 200'', '''', ''SSH-2.0-x'', '''']" by code_simp
  then have "ExtractHTTPStatuses ?r = [200]"
    by (simp add: ExtractHTTPStatuses_def List.map_filter_simps status_of_line_def Let_def status_demo)
  then show "httpCONNECT p \<lparr>reads = [(?r, None)], sent = '''',
      write_ok = True, pre = '''', t_closed = False\<rparr> = (None, c') \<Longrightarrow> stream c' = ''''"
    by (auto simp: httpCONNECT_def conn_write_def readSome_def conn_read_def stream_def crlf_def)
qed

end
