(* ===== verification/Profiles.thy ===== *)
theory Profiles
  imports Transport
begin

text \<open>
  The profile editor of \<^verbatim>\<open>internal/api/api.go\<close>: \<open>buildTransport\<close> fills the transport section of
  a profile from the request, and \<open>upsertProfile\<close> checks a request and inserts or replaces its
  profile in the list. The theory shows that a profile which went through the editor is well formed
  in the sense of the transport: it never fails for a missing proxy, endpoint or TLS section.
\<close>

section \<open>Definitions\<close>

datatype upsert_error = HostRequired | PortInvalid | UsernameRequired | InvalidMode

definition default_timing :: "string \<Rightarrow> string" where
  "default_timing mode =
     (if mode = ''http_proxy'' then ''after_proxy_socket_before_ssh''
      else if mode = ''tls_sni'' \<or> mode = ''http_proxy_tls_sni'' then ''after_tls_before_ssh''
      else ''before_ssh'')"

definition build_payload :: "string \<Rightarrow> payload_cfg \<Rightarrow> payload_cfg" where
  "build_payload mode payload =
     payload\<lparr>PL_SendTiming := (if PL_SendTiming payload = '''' then default_timing mode
                               else PL_SendTiming payload),
             PL_AllowStatuses := (if length (PL_AllowStatuses payload) = 0 then [101, 200, 204, 301, 302]
                                  else PL_AllowStatuses payload)\<rparr>"

definition build_proxy :: "string \<Rightarrow> http_proxy_cfg option \<Rightarrow> ssh \<Rightarrow> http_proxy_cfg" where
  "build_proxy mode hp s =
     (let proxy0 = (case hp of
            None \<Rightarrow> \<lparr>HP_Host = SSH_Host s, HP_Port = SSH_Port s, HP_ConnectMethod = ''socket'',
                     HP_FallbackIPs = []\<rparr>
          | Some h \<Rightarrow> h);
          proxy1 = (if HP_Host proxy0 = '''' then proxy0\<lparr>HP_Host := SSH_Host s\<rparr> else proxy0);
          proxy2 = (if HP_Port proxy1 \<le> 0 then proxy1\<lparr>HP_Port := SSH_Port s\<rparr> else proxy1);
          proxy3 = (if HP_ConnectMethod proxy2 = '''' then proxy2\<lparr>HP_ConnectMethod := ''socket''\<rparr>
                    else proxy2) in
      if mode = ''http_proxy_tls_sni'' \<and> HP_Port proxy3 = 80 then proxy3\<lparr>HP_Port := 443\<rparr> else proxy3)"

definition build_tls :: "tls_cfg option \<Rightarrow> ssh \<Rightarrow> tls_cfg" where
  "build_tls tlsCfg s =
     (let tc0 = (case tlsCfg of
            None \<Rightarrow> \<lparr>TLS_Enabled = True, TLS_ServerName = SSH_Host s, TLS_InsecureSkipVerify = True,
                     TLS_ALPN = [''http/1.1'']\<rparr>
          | Some t \<Rightarrow> t);
          tc1 = (if TLS_ServerName tc0 = '''' then tc0\<lparr>TLS_ServerName := SSH_Host s\<rparr> else tc0);
          tc2 = (if length (TLS_ALPN tc1) = 0 then tc1\<lparr>TLS_ALPN := [''http/1.1'']\<rparr> else tc1) in
      tc2\<lparr>TLS_Enabled := True\<rparr>)"

definition buildTransport ::
  "string \<Rightarrow> payload_cfg \<Rightarrow> http_proxy_cfg option \<Rightarrow> tls_cfg option \<Rightarrow> ssh \<Rightarrow> transport" where
  "buildTransport mode payload0 hp tlsCfg s =
     (let payload = build_payload mode payload0;
          proxied = (mode = ''http_proxy'' \<or> mode = ''http_proxy_tls_sni'');
          tls = (mode = ''tls_sni'' \<or> mode = ''http_proxy_tls_sni'') in
      \<lparr>TR_Mode = mode,
       TR_Chain = [''tcp''] @ (if proxied then [''http_proxy''] else []) @ (if tls then [''tls''] else []) @
                  (if PL_Enabled payload then [''payload''] else []) @ [''ssh''],
       TR_HTTPProxy = (if proxied then Some (build_proxy mode hp s) else None),
       TR_TLS = (if tls then Some (build_tls tlsCfg s) else None),
       TR_Payload = payload\<rparr>)"

text \<open>
  \<open>upsertProfile\<close> receives the request by value, so the identifier it makes up stays local, and
  changes the list in place: the result is the error and the list afterwards. \<open>now\<close> is the clock
  of \<open>UniqueProfileID\<close>.
\<close>

definition upsert_check :: "save_profile_request \<Rightarrow> upsert_error option" where
  "upsert_check req =
     (if TrimSpace (SSH_Host (Req_SSH req)) = '''' then Some HostRequired
      else if SSH_Port (Req_SSH req) \<le> 0 \<or> SSH_Port (Req_SSH req) > 65535 then Some PortInvalid
      else if TrimSpace (SSH_Username (Req_SSH req)) = '''' then Some UsernameRequired
      else if NormalizeMode (Req_Mode req) = '''' then Some InvalidMode
      else None)"

definition upsert_name :: "save_profile_request \<Rightarrow> string" where
  "upsert_name req =
     (let name = TrimSpace (Req_Name req) in if name = '''' then ''SSHCustom Profile'' else name)"

definition upsert_id :: "int \<Rightarrow> profiles_file \<Rightarrow> save_profile_request \<Rightarrow> string" where
  "upsert_id now pf req =
     (let i = TrimSpace (Req_ID req) in
      if i = '''' then UniqueProfileID now pf (Slugify (upsert_name req)) else i)"

definition upsert_index :: "profiles_file \<Rightarrow> save_profile_request \<Rightarrow> nat option" where
  "upsert_index pf req =
     (let i = TrimSpace (Req_ID req) in
      if i = '''' then None else index_where (\<lambda>p. P_ID p = i) (Profiles pf))"

definition upsert_profile :: "int \<Rightarrow> profiles_file \<Rightarrow> save_profile_request \<Rightarrow> profile" where
  "upsert_profile now pf req =
     (let oldPassword = (case upsert_index pf req of
                           Some k \<Rightarrow> SSH_Password (P_SSH (Profiles pf ! k)) | None \<Rightarrow> '''');
          ssh0 = Req_SSH req;
          ssh1 = (if SSH_Password ssh0 = '''' then ssh0\<lparr>SSH_Password := oldPassword\<rparr> else ssh0);
          ssh2 = (if SSH_AuthType ssh1 = '''' then ssh1\<lparr>SSH_AuthType := ''password''\<rparr> else ssh1) in
      \<lparr>P_ID = upsert_id now pf req, P_Name = upsert_name req, P_Selected = False, P_SSH = ssh2,
       P_Transport = buildTransport (NormalizeMode (Req_Mode req)) (Req_Payload req)
                       (Req_HTTPProxy req) (Req_TLS req) ssh2\<rparr>)"

definition upsertProfile ::
  "int \<Rightarrow> save_profile_request \<Rightarrow> profiles_file \<Rightarrow> upsert_error option \<times> profiles_file" where
  "upsertProfile now req pf =
     (case upsert_check req of
        Some e \<Rightarrow> (Some e, pf)
      | None \<Rightarrow>
          let i = upsert_id now pf req; p = upsert_profile now pf req;
              pf1 = (case upsert_index pf req of
                       Some k \<Rightarrow> pf\<lparr>Profiles := (Profiles pf)[k := p]\<rparr>
                     | None \<Rightarrow> pf\<lparr>Profiles := Profiles pf @ [p]\<rparr>) in
          (None, if Req_Select req \<or> SelectedID pf1 = '''' \<or> SelectedID pf1 = i
                 then snd (SelectByID i pf1) else pf1))"

text \<open>
  What the transport expects of a profile: a canonical mode, a chain that agrees with it, the proxy
  and TLS sections exactly where the mode uses them, and complete endpoints.
\<close>

definition wf_transport :: "ssh \<Rightarrow> transport \<Rightarrow> bool" where
  "wf_transport s t \<longleftrightarrow>
     TR_Mode t \<in> {''direct'', ''http_proxy'', ''tls_sni'', ''http_proxy_tls_sni''} \<and>
     SSH_Host s \<noteq> '''' \<and> 0 < SSH_Port s \<and>
     (TR_HTTPProxy t \<noteq> None \<longleftrightarrow> TR_Mode t \<in> {''http_proxy'', ''http_proxy_tls_sni''}) \<and>
     (TR_TLS t \<noteq> None \<longleftrightarrow> TR_Mode t \<in> {''tls_sni'', ''http_proxy_tls_sni''}) \<and>
     (''http_proxy'' \<in> set (TR_Chain t) \<longleftrightarrow> TR_HTTPProxy t \<noteq> None) \<and>
     (''tls'' \<in> set (TR_Chain t) \<longleftrightarrow> TR_TLS t \<noteq> None) \<and>
     (''payload'' \<in> set (TR_Chain t) \<longleftrightarrow> PL_Enabled (TR_Payload t)) \<and>
     pred_option (\<lambda>h. HP_Host h \<noteq> '''' \<and> 0 < HP_Port h \<and> HP_ConnectMethod h \<noteq> '''') (TR_HTTPProxy t) \<and>
     pred_option (\<lambda>c. TLS_Enabled c \<and> TLS_ServerName c \<noteq> '''' \<and> TLS_ALPN c \<noteq> []) (TR_TLS t) \<and>
     PL_SendTiming (TR_Payload t) \<noteq> '''' \<and> PL_AllowStatuses (TR_Payload t) \<noteq> []"

definition wf_profile :: "profile \<Rightarrow> bool" where
  "wf_profile p \<longleftrightarrow> wf_transport (P_SSH p) (P_Transport p)"

section \<open>Lemmas\<close>

subsection \<open>The transport section\<close>

lemma build_payload_wf:
  "PL_SendTiming (build_payload m pl) \<noteq> ''''" "PL_AllowStatuses (build_payload m pl) \<noteq> []"
  "PL_Enabled (build_payload m pl) = PL_Enabled pl"
  by (auto simp: build_payload_def default_timing_def)

lemma build_proxy_wf:
  assumes "SSH_Host s \<noteq> ''''" "0 < SSH_Port s"
  shows "HP_Host (build_proxy m hp s) \<noteq> ''''" "0 < HP_Port (build_proxy m hp s)"
    "HP_ConnectMethod (build_proxy m hp s) \<noteq> ''''"
  using assms by (auto simp: build_proxy_def Let_def split: option.split)

lemma build_tls_wf:
  assumes "SSH_Host s \<noteq> ''''"
  shows "TLS_Enabled (build_tls t s)" "TLS_ServerName (build_tls t s) \<noteq> ''''" "TLS_ALPN (build_tls t s) \<noteq> []"
  using assms by (auto simp: build_tls_def Let_def split: option.split)

lemma buildTransport_wf:
  assumes "m \<in> {''direct'', ''http_proxy'', ''tls_sni'', ''http_proxy_tls_sni''}"
    and "SSH_Host s \<noteq> ''''" "0 < SSH_Port s"
  shows "wf_transport s (buildTransport m pl hp t s)"
  using assms(1) assms(2,3) build_proxy_wf [OF assms(2,3), of m hp] build_tls_wf [OF assms(2), of t]
    build_payload_wf [of m pl]
  unfolding wf_transport_def buildTransport_def Let_def
  by (elim insertE emptyE) simp_all

lemma wf_uses_tls: "wf_profile p \<Longrightarrow> UsesTLS p \<longleftrightarrow> TR_TLS (P_Transport p) \<noteq> None"
  unfolding wf_profile_def wf_transport_def UsesTLS_def contains_def list_ex_iff by blast

lemma wf_uses_proxy: "wf_profile p \<Longrightarrow> UsesHTTPProxy p \<longleftrightarrow> TR_HTTPProxy (P_Transport p) \<noteq> None"
  unfolding wf_profile_def wf_transport_def UsesHTTPProxy_def contains_def list_ex_iff by blast

lemma wf_endpoint: "wf_profile p \<Longrightarrow> \<exists>h n. dialEndpoint p = Inr (h, n) \<and> h \<noteq> '''' \<and> 0 < n"
  by (cases "TR_HTTPProxy (P_Transport p)")
    (auto simp: dialEndpoint_def wf_uses_proxy, auto simp: wf_profile_def wf_transport_def)

subsection \<open>The profile list\<close>

lemma slug_string_trim: "list_all (\<lambda>c. slug_ok c \<or> c = CHR ''-'') (trim_byte d s)"
  if "list_all (\<lambda>c. slug_ok c \<or> c = CHR ''-'') s"
  using that unfolding trim_byte_def list_all_iff by (auto dest!: set_dropWhileD)

lemma slug_ok_digit: "is_digit c \<Longrightarrow> slug_ok c"
  by (simp add: is_digit_def slug_ok_def)

lemma Itoa_slug: "list_all (\<lambda>c. slug_ok c \<or> c = CHR ''-'') (Itoa n)"
proof -
  have "slug_ok c" if "c \<in> set (string_of_nat k)" for c k
    using that string_of_nat_digits [of k] by (auto simp: list_all_iff intro: slug_ok_digit)
  then show ?thesis by (auto simp: Itoa_def list_all_iff)
qed

lemma UniqueProfileID_slug:
  "list_all (\<lambda>c. slug_ok c \<or> c = CHR ''-'') (UniqueProfileID now pf b) \<and> UniqueProfileID now pf b \<noteq> ''''"
proof -
  define base where "base = (let b = trim_byte (CHR ''-'') (Slugify b) in if b = '''' then ''profile'' else b)"
  have base: "list_all (\<lambda>c. slug_ok c \<or> c = CHR ''-'') base" "base \<noteq> ''''"
    using slug_string_trim [OF Slugify_slug_chars]
    by (auto simp: base_def Let_def) (simp_all add: slug_ok_def)
  have "c \<in> range (candidate base)" if "first_free used base is = Some c" for used c "is"
    using that by (induction "is") (auto split: if_splits)
  then have "UniqueProfileID now pf b \<in> {base, base @ ''-'' @ Itoa now} \<union> range (candidate base)"
    unfolding UniqueProfileID_def Let_def base_def [unfolded Let_def, symmetric]
    by (auto simp del: upt_rec_numeral split: option.split)
  with base Itoa_slug show ?thesis by (auto simp: candidate_def)
qed

lemma upsert_id_trimmed: "TrimSpace (upsert_id now pf req) = upsert_id now pf req \<and> upsert_id now pf req \<noteq> ''''"
  using UniqueProfileID_slug [of now pf "Slugify (upsert_name req)"]
  by (auto simp: upsert_id_def Let_def intro: TrimSpace_slug)

lemma Profile_simps [simp]:
  "P_ID (upsert_profile now pf req) = upsert_id now pf req"
  "P_Name (upsert_profile now pf req) = upsert_name req"
  "\<not> P_Selected (upsert_profile now pf req)"
  by (simp_all add: upsert_profile_def Let_def)

lemma upsert_index_Some:
  assumes "upsert_index pf req = Some k"
  shows "k < length (Profiles pf)" "P_ID (Profiles pf ! k) = upsert_id now pf req"
  using assms by (auto simp: upsert_index_def upsert_id_def Let_def dest: index_where_Some split: if_splits)

lemma upsert_index_None:
  assumes "upsert_index pf req = None" "length (Profiles pf) < 9999"
  shows "upsert_id now pf req \<notin> P_ID ` set (Profiles pf)"
  using assms UniqueProfileID_fresh [OF assms(2)]
  by (auto simp: upsert_index_def upsert_id_def Let_def index_where_None split: if_splits)

text \<open>The list with the new profile in it, before the selection.\<close>

definition upserted :: "int \<Rightarrow> save_profile_request \<Rightarrow> profiles_file \<Rightarrow> profile list" where
  "upserted now req pf =
     (case upsert_index pf req of
        Some k \<Rightarrow> (Profiles pf)[k := upsert_profile now pf req]
      | None \<Rightarrow> Profiles pf @ [upsert_profile now pf req])"

lemma upsertProfile_alt:
  "upsertProfile now req pf =
     (case upsert_check req of
        Some e \<Rightarrow> (Some e, pf)
      | None \<Rightarrow> (None,
          if Req_Select req \<or> SelectedID pf = '''' \<or> SelectedID pf = upsert_id now pf req
          then snd (SelectByID (upsert_id now pf req) (pf\<lparr>Profiles := upserted now req pf\<rparr>))
          else pf\<lparr>Profiles := upserted now req pf\<rparr>))"
  by (simp add: upsertProfile_def upserted_def Let_def split: option.split)

lemma upserted_ids:
  assumes "distinct (map P_ID (Profiles pf))" "length (Profiles pf) < 9999"
  shows "distinct (map P_ID (upserted now req pf))"
    and "P_ID ` set (upserted now req pf) = insert (upsert_id now pf req) (P_ID ` set (Profiles pf))"
proof -
  have "distinct (map P_ID (upserted now req pf)) \<and>
      set (map P_ID (upserted now req pf)) = insert (upsert_id now pf req) (set (map P_ID (Profiles pf)))"
  proof (cases "upsert_index pf req")
    case None
    with assms(1) upsert_index_None [OF None assms(2)] show ?thesis by (simp add: upserted_def)
  next
    case (Some k)
    have "map P_ID (upserted now req pf) = (map P_ID (Profiles pf))[k := upsert_id now pf req]"
      by (simp add: upserted_def Some map_update)
    also have "\<dots> = map P_ID (Profiles pf)"
      using upsert_index_Some(1) [OF Some] upsert_index_Some(2) [OF Some, of now] by (metis list_update_id nth_map)
    finally have "map P_ID (upserted now req pf) = map P_ID (Profiles pf)" .
    moreover have "upsert_id now pf req \<in> set (map P_ID (Profiles pf))"
      using upsert_index_Some(1) [OF Some] upsert_index_Some(2) [OF Some, of now] by (metis image_eqI nth_mem set_map)
    ultimately show ?thesis using assms(1) by (simp add: insert_absorb)
  qed
  then show "distinct (map P_ID (upserted now req pf))"
    "P_ID ` set (upserted now req pf) = insert (upsert_id now pf req) (P_ID ` set (Profiles pf))"
    by simp_all
qed

lemma upserted_others:
  assumes "distinct (map P_ID (Profiles pf))" "length (Profiles pf) < 9999"
  shows "filter (\<lambda>q. P_ID q \<noteq> upsert_id now pf req) (upserted now req pf) =
         filter (\<lambda>q. P_ID q \<noteq> upsert_id now pf req) (Profiles pf)"
proof (cases "upsert_index pf req")
  case (Some k)
  note k = upsert_index_Some(1) [OF Some] upsert_index_Some(2) [OF Some, of now]
  have "(Profiles pf)[k := upsert_profile now pf req] =
      take k (Profiles pf) @ upsert_profile now pf req # drop (Suc k) (Profiles pf)"
    using k(1) by (rule upd_conv_take_nth_drop)
  moreover have "filter (\<lambda>q. P_ID q \<noteq> upsert_id now pf req) (Profiles pf) =
      filter (\<lambda>q. P_ID q \<noteq> upsert_id now pf req)
        (take k (Profiles pf) @ Profiles pf ! k # drop (Suc k) (Profiles pf))"
    using id_take_nth_drop [OF k(1)] by simp
  ultimately show ?thesis using k(2) by (simp add: upserted_def Some)
qed (simp add: upserted_def)

text \<open>The list up to the selection flags, which is what an update of the selection keeps.\<close>

definition unflag :: "profile \<Rightarrow> profile" where
  "unflag q = q\<lparr>P_Selected := False\<rparr>"

lemma unflag_simps [simp]:
  "P_ID (unflag q) = P_ID q" "P_SSH (unflag q) = P_SSH q" "P_Transport (unflag q) = P_Transport q"
  by (simp_all add: unflag_def)

lemma map_unflag_mark [simp]: "map unflag (mark_selected i ps) = map unflag ps"
  by (simp add: mark_selected_def unflag_def)

lemma SelectByID_found:
  assumes "TrimSpace i = i" "i \<noteq> ''''" "i \<in> P_ID ` set (Profiles pf)"
  shows "SelectByID i pf = (None, pf\<lparr>Profiles := mark_selected i (Profiles pf), SelectedID := i\<rparr>)"
  using assms by (simp add: SelectByID_def Let_def list_ex_mark)

lemma upsert_wf_keep:
  assumes "wf_profiles pf" "length (Profiles pf) < 9999"
    and "SelectedID pf \<noteq> ''''" "SelectedID pf \<noteq> upsert_id now pf req"
  shows "wf_profiles (pf\<lparr>Profiles := upserted now req pf\<rparr>)"
proof -
  have d: "distinct (map P_ID (Profiles pf))" using assms(1) by (simp add: wf_profiles_def)
  note ids = upserted_ids [OF d assms(2), of now req]
  have flags: "P_Selected q \<longleftrightarrow> P_ID q = SelectedID pf" if q: "q \<in> set (upserted now req pf)" for q
  proof (cases "q \<in> set (Profiles pf)")
    case True
    then show ?thesis using assms(1,3) by (auto simp: wf_profiles_def list_all_iff)
  next
    case False
    then have "q = upsert_profile now pf req"
      using q by (auto simp: upserted_def split: option.splits dest: set_update_subset_insert [THEN subsetD])
    then show ?thesis using assms(4) by auto
  qed
  show ?thesis using ids assms(1,3) flags by (auto simp: wf_profiles_def list_all_iff)
qed

lemma upsertProfile_ok:
  assumes wf: "wf_profiles pf" and len: "length (Profiles pf) < 9999"
    and ok: "upsertProfile now req pf = (None, pf')"
  shows "wf_profiles pf' \<and> map unflag (Profiles pf') = map unflag (upserted now req pf) \<and>
    SelectedID pf' = (if Req_Select req \<or> SelectedID pf = '''' then upsert_id now pf req else SelectedID pf)"
proof -
  let ?i = "upsert_id now pf req" and ?pf = "pf\<lparr>Profiles := upserted now req pf\<rparr>"
  have d: "distinct (map P_ID (Profiles pf))" using wf by (simp add: wf_profiles_def)
  note ids = upserted_ids [OF d len, of now req]
  show ?thesis
  proof (cases "Req_Select req \<or> SelectedID pf = '''' \<or> SelectedID pf = ?i")
    case True
    have s: "SelectByID ?i ?pf =
        (None, ?pf\<lparr>Profiles := mark_selected ?i (Profiles ?pf), SelectedID := ?i\<rparr>)"
      using upsert_id_trimmed ids(2) by (intro SelectByID_found) auto
    then have "pf' = ?pf\<lparr>Profiles := mark_selected ?i (Profiles ?pf), SelectedID := ?i\<rparr>"
      using ok True by (auto simp: upsertProfile_alt split: option.splits)
    moreover have "wf_profiles (?pf\<lparr>Profiles := mark_selected ?i (Profiles ?pf), SelectedID := ?i\<rparr>)"
      using wf_SelectByID [OF _ s] ids(1) by simp
    ultimately show ?thesis using True by auto
  next
    case False
    then have "pf' = ?pf" using ok by (auto simp: upsertProfile_alt split: option.splits)
    then show ?thesis using False upsert_wf_keep [OF wf len] by auto
  qed
qed

lemma upserted_mem: "upsert_profile now pf req \<in> set (upserted now req pf)"
  by (auto simp: upserted_def set_update_memI dest: upsert_index_Some(1) split: option.split)

lemma upsert_profile_wf: "upsert_check req = None \<Longrightarrow> wf_profile (upsert_profile now pf req)"
  using NormalizeMode_range [of "Req_Mode req"]
  by (auto simp: wf_profile_def upsert_profile_def upsert_check_def Let_def intro!: buildTransport_wf
      split: if_splits)

lemma upsert_password:
  "SSH_Password (P_SSH (upsert_profile now pf req)) =
     (if SSH_Password (Req_SSH req) \<noteq> '''' then SSH_Password (Req_SSH req)
      else case upsert_index pf req of Some k \<Rightarrow> SSH_Password (P_SSH (Profiles pf ! k)) | None \<Rightarrow> '''')"
  by (simp add: upsert_profile_def Let_def)

lemma upsert_password_kept:
  assumes wf: "wf_profiles pf" and len: "length (Profiles pf) < 9999"
    and ok: "upsertProfile now req pf = (None, pf')"
    and pw: "SSH_Password (Req_SSH req) = ''''"
    and q: "q \<in> set (Profiles pf)" "P_ID q = upsert_id now pf req"
    and q': "q' \<in> set (Profiles pf')" "P_ID q' = upsert_id now pf req"
  shows "SSH_Password (P_SSH q') = SSH_Password (P_SSH q)"
proof -
  have d: "distinct (map P_ID (Profiles pf))" using wf by (simp add: wf_profiles_def)
  have u: "map unflag (Profiles pf') = map unflag (upserted now req pf)"
    using upsertProfile_ok [OF wf len ok] by blast
  obtain k where k: "upsert_index pf req = Some k"
    using upsert_index_None [OF _ len, of req now] q by (metis image_eqI option.exhaust)
  note kk = upsert_index_Some(1) [OF k] upsert_index_Some(2) [OF k, of now]
  have "Profiles pf ! k = q"
    using d kk q by (auto simp: distinct_map inj_on_def)
  then have new: "SSH_Password (P_SSH (upsert_profile now pf req)) = SSH_Password (P_SSH q)"
    using pw k by (simp add: upsert_password)
  obtain p where p: "p \<in> set (upserted now req pf)" "unflag p = unflag q'"
    using u q'(1) by (metis (no_types, lifting) image_iff set_map)
  then have "P_ID p = upsert_id now pf req" using q'(2) unflag_simps(1) by metis
  then have "p = upsert_profile now pf req"
    using p(1) upserted_ids(1) [OF d len, of now req] upserted_mem [of now pf req]
    by (auto simp: distinct_map inj_on_def)
  then show ?thesis using new p(2) unflag_simps(2) by metis
qed

subsection \<open>Errors of the connection\<close>

text \<open>The errors that blame the profile, not the network or the peer.\<close>

fun profile_error :: "transport_error \<Rightarrow> bool" where
  "profile_error ProxyMissing = True"
| "profile_error (InvalidEndpoint _ _) = True"
| "profile_error TLSMissing = True"
| "profile_error _ = False"

lemma httpCONNECT_err: "httpCONNECT p c = (Some e, c') \<Longrightarrow> \<not> profile_error e"
  by (auto simp: httpCONNECT_def readSome_def
      split: option.splits prod.splits if_splits sum.splits bool.splits list.splits)

lemma stage_proxy_err: "stage_proxy p c = (Some e, c') \<Longrightarrow> \<not> profile_error e"
  by (auto simp: stage_proxy_def dest: httpCONNECT_err split: option.splits prod.splits if_splits)

lemma stage_tls_err: "wf_profile p \<Longrightarrow> stage_tls env p c = (Some e, c') \<Longrightarrow> \<not> profile_error e"
  by (auto simp: stage_tls_def Let_def wf_uses_tls split: option.splits if_splits)

lemma probe_loop_err: "probe_loop out c = (Inl e, c') \<Longrightarrow> \<not> profile_error e"
proof (induction out c rule: probe_loop.induct)
  case (1 out c)
  obtain bs r c1 where read: "conn_read 2048 c = (bs, r, c1)" by (cases "conn_read 2048 c")
  define out' where "out' = (if length bs > 0 then out @ bs else out)"
  show ?case
  proof (cases "length out < 64 * 1024 \<and> \<not> (length bs > 0 \<and> Contains out' ''SSH-'') \<and> r = None")
    case True
    then have "probe_loop out' c1 = (Inl e, c')"
      using "1.prems" by (simp add: probe_loop.simps [of out c] read Let_def out'_def split: if_splits)
    then show ?thesis using "1.IH" [OF _ read [symmetric] refl out'_def] True by blast
  next
    case False
    then show ?thesis
      using "1.prems"
      by (auto simp: probe_loop.simps [of out c] read Let_def out'_def
          split: if_splits option.splits read_err.splits)
  qed
qed

lemma stage_payload_err: "stage_payload env p c = (Inl e, c') \<Longrightarrow> \<not> profile_error e"
  by (auto simp: stage_payload_def Let_def readProbe_def dest: probe_loop_err
      split: prod.splits if_splits sum.splits bool.splits)

lemma stage_banner_err: "stage_banner p all c st = (Some e, r) \<Longrightarrow> \<not> profile_error e"
  by (auto simp: stage_banner_def Let_def split: option.splits if_splits)

lemma openPreparedConn_err:
  assumes "wf_profile p" "pr_error (openPreparedConn env cfg p st) = Some e"
  shows "\<not> profile_error e"
proof -
  obtain h n where "dialEndpoint p = Inr (h, n)" using wf_endpoint [OF assms(1)] by auto
  with assms(2) show ?thesis
    by (auto simp: openPreparedConn_def Let_def
        dest: stage_proxy_err stage_tls_err [OF assms(1)] stage_payload_err stage_banner_err
        split: prod.splits sum.splits option.splits)
qed

subsection \<open>Well-formed profiles stay well formed\<close>

lemma wf_profile_unflag [simp]: "wf_profile (unflag q) = wf_profile q"
  by (simp add: wf_profile_def)

lemma list_all_wf_unflag: "map unflag ps = map unflag qs \<Longrightarrow> list_all wf_profile ps = list_all wf_profile qs"
proof -
  assume "map unflag ps = map unflag qs"
  moreover have "list_all wf_profile (map unflag rs) = list_all wf_profile rs" for rs
    by (simp add: list.pred_map comp_def)
  ultimately show ?thesis by metis
qed

lemma SelectByID_unflag: "map unflag (Profiles (snd (SelectByID i pf))) = map unflag (Profiles pf)"
  by (simp add: SelectByID_def Let_def)

lemma upserted_wf:
  "upsert_check req = None \<Longrightarrow> list_all wf_profile (Profiles pf) \<Longrightarrow> list_all wf_profile (upserted now req pf)"
  by (auto simp: upserted_def list_all_iff upsert_profile_wf split: option.split
      dest!: set_update_subset_insert [THEN subsetD])

lemma SelectByID_list_wf:
  "list_all wf_profile (Profiles (snd (SelectByID i pf))) = list_all wf_profile (Profiles pf)"
  by (rule list_all_wf_unflag [OF SelectByID_unflag])

lemma upsertProfile_list_wf:
  assumes "list_all wf_profile (Profiles pf)"
  shows "list_all wf_profile (Profiles (snd (upsertProfile now req pf)))"
  using assms upserted_wf [OF _ assms, of req now]
  by (auto simp: upsertProfile_alt SelectByID_list_wf split: option.split)

lemma DeleteProfile_list_wf:
  "list_all wf_profile (Profiles pf) \<Longrightarrow> list_all wf_profile (Profiles (snd (DeleteProfile i pf)))"
  by (auto simp: DeleteProfile_def list_all_iff split: option.split dest: in_set_takeD in_set_dropD)

section \<open>Properties\<close>

text \<open>C31. Saving a profile through the editor keeps the invariant of the profile list: a refused request
  changes nothing; an accepted one replaces the profile with its id or appends a profile with a
  fresh id, so identifiers stay distinct and nothing is lost, leaves every other profile alone up to
  the selection flags, selects it when asked (or when nothing was selected), and an empty password
  in the request keeps the stored one.\<close>
theorem upsertProfile_correct:
  assumes "wf_profiles pf" "length (Profiles pf) < 9999"
  shows "case upsertProfile now req pf of
     (Some e, pf') \<Rightarrow> upsert_check req = Some e \<and> pf' = pf
   | (None, pf') \<Rightarrow>
       let i = upsert_id now pf req in
       upsert_check req = None \<and> wf_profiles pf' \<and>
       P_ID ` set (Profiles pf') = insert i (P_ID ` set (Profiles pf)) \<and>
       map unflag (filter (\<lambda>q. P_ID q \<noteq> i) (Profiles pf')) = map unflag (filter (\<lambda>q. P_ID q \<noteq> i) (Profiles pf)) \<and>
       SelectedID pf' = (if Req_Select req \<or> SelectedID pf = '''' then i else SelectedID pf) \<and>
       (SSH_Password (Req_SSH req) = '''' \<longrightarrow>
          (\<forall>q \<in> set (Profiles pf). \<forall>q' \<in> set (Profiles pf').
             P_ID q = i \<and> P_ID q' = i \<longrightarrow> SSH_Password (P_SSH q') = SSH_Password (P_SSH q)))"
proof (cases "upsert_check req")
  case (Some e)
  then show ?thesis by (simp add: upsertProfile_def)
next
  case None
  define i where "i = upsert_id now pf req"
  define pf' where "pf' = snd (upsertProfile now req pf)"
  have ok: "upsertProfile now req pf = (None, pf')"
    using None by (simp add: pf'_def upsertProfile_def Let_def)
  note r = upsertProfile_ok [OF assms ok]
  have d: "distinct (map P_ID (Profiles pf))" using assms(1) by (simp add: wf_profiles_def)
  note ids = upserted_ids [OF d assms(2), of now req, folded i_def]
  have comm: "map unflag (filter (\<lambda>q. P_ID q \<noteq> i) ps) = filter (\<lambda>q. P_ID q \<noteq> i) (map unflag ps)" for ps
    by (simp add: filter_map comp_def)
  have idset: "P_ID ` set ps = P_ID ` set (map unflag ps)" for ps by (simp add: image_image)
  have "P_ID ` set (Profiles pf') = insert i (P_ID ` set (Profiles pf))"
    using r ids(2) by (metis idset)
  moreover have "map unflag (filter (\<lambda>q. P_ID q \<noteq> i) (Profiles pf')) =
      map unflag (filter (\<lambda>q. P_ID q \<noteq> i) (Profiles pf))"
    using r upserted_others [OF d assms(2), of now req, folded i_def] by (metis comm)
  moreover have "SSH_Password (P_SSH q') = SSH_Password (P_SSH q)"
    if "SSH_Password (Req_SSH req) = ''''" "q \<in> set (Profiles pf)" "q' \<in> set (Profiles pf')"
      "P_ID q = i" "P_ID q' = i" for q q'
    using upsert_password_kept [OF assms ok] that unfolding i_def by blast
  ultimately show ?thesis using ok None r unfolding Let_def by (simp add: i_def [symmetric])
qed

definition demo_request :: save_profile_request where
  "demo_request =
     \<lparr>Req_ID = ''b'', Req_Name = '''', Req_Select = False, Req_Restart = False,
      Req_SSH = \<lparr>SSH_Host = ''k'', SSH_Port = 443, SSH_Username = ''u'', SSH_Password = '''',
        SSH_AuthType = '''', SSH_FallbackIPs = []\<rparr>,
      Req_Mode = ''ssh+sni'', Req_HTTPProxy = None, Req_TLS = None,
      Req_Payload = \<lparr>PL_Enabled = True, PL_Template = '''', PL_SendTiming = '''',
        PL_ReadResponse = False, PL_AllowStatuses = []\<rparr>\<rparr>"

lemma demo_trims: "TrimSpace ''k'' = ''k''" "TrimSpace ''u'' = ''u''" "TrimSpace ''b'' = ''b''"
  "NormalizeMode ''ssh+sni'' = ''tls_sni''"
  by code_simp+

lemma demo_request_ok:
  "upsert_check demo_request = None" "upsert_id 0 pf demo_request = ''b''"
  by (simp_all add: upsert_check_def upsert_id_def demo_request_def demo_trims Let_def)

theorem upsertProfile_correct_witness:
  "wf_profiles (snd (upsertProfile 0 demo_request demo_profiles)) \<and>
   P_ID ` set (Profiles (snd (upsertProfile 0 demo_request demo_profiles))) = {''a'', ''b''}"
proof -
  have "wf_profiles demo_profiles" by (simp add: wf_profiles_def demo_profiles_def demo_profile_def)
  moreover have "length (Profiles demo_profiles) < 9999" by (simp add: demo_profiles_def)
  ultimately show ?thesis
    using upsertProfile_correct [of demo_profiles 0 demo_request]
    by (auto simp: Let_def demo_request_ok demo_profiles_def demo_profile_def split: prod.splits option.splits)
qed


definition one_profile :: profiles_file where
  "one_profile = \<lparr>SelectedID = ''b'',
     Profiles = [upsert_profile 0 \<lparr>SelectedID = '''', Profiles = []\<rparr> demo_request]\<rparr>"


end
