(* ===== verification/ProfileHeap.thy ===== *)
theory ProfileHeap
  imports Profiles
begin

text \<open>
  The profile list as the API server holds it: Go slices over shared backing arrays. The server
  keeps a \<^verbatim>\<open>ProfilesFile\<close> whose slice shares its array with the copy that a handler edits, so an
  edit is seen through the other copy as well. The in-place versions of \<open>SelectByID\<close>,
  \<open>DeleteProfile\<close> and \<open>upsertProfile\<close> are shown to refine the functions on lists.
\<close>

section \<open>Definitions\<close>

text \<open>An array has the length of its capacity. A reference is the selected id with a slice from the
  start of an array.\<close>

record heap =
  arrays :: "nat \<Rightarrow> profile list"
  next_array :: nat

record pf_ref =
  ref_selected :: string
  ref_array :: nat
  ref_len :: nat

definition view :: "heap \<Rightarrow> pf_ref \<Rightarrow> profiles_file" where
  "view h r = \<lparr>SelectedID = ref_selected r, Profiles = take (ref_len r) (arrays h (ref_array r))\<rparr>"

definition ref_ok :: "heap \<Rightarrow> pf_ref \<Rightarrow> bool" where
  "ref_ok h r \<longleftrightarrow> ref_len r \<le> length (arrays h (ref_array r)) \<and> ref_array r < next_array h"

definition put_array :: "nat \<Rightarrow> profile list \<Rightarrow> heap \<Rightarrow> heap" where
  "put_array a xs h = h\<lparr>arrays := (arrays h)(a := xs)\<rparr>"

text \<open>A new array with room to spare; what the spare elements hold is left open.\<close>

definition alloc :: "profile list \<Rightarrow> profile list \<Rightarrow> heap \<Rightarrow> nat \<times> heap" where
  "alloc xs spare h =
     (next_array h, h\<lparr>arrays := (arrays h)(next_array h := xs @ spare), next_array := Suc (next_array h)\<rparr>)"

text \<open>The loop of \<open>SelectByID\<close> writes the flag of each element in turn and remembers whether one
  was set.\<close>

function select_loop :: "string \<Rightarrow> nat \<Rightarrow> nat \<Rightarrow> profile list \<Rightarrow> bool \<Rightarrow> profile list \<times> bool" where
  "select_loop i k n xs found =
     (if k < n then
        let p = (xs ! k)\<lparr>P_Selected := (P_ID (xs ! k) = i)\<rparr> in
        select_loop i (Suc k) n (xs[k := p]) (found \<or> P_Selected p)
      else (xs, found))"
  by pat_completeness auto
termination
  by (relation "measure (\<lambda>(i, k, n, xs, found). n - k)") auto

declare select_loop.simps [simp del]

definition select_ref :: "string \<Rightarrow> heap \<Rightarrow> pf_ref \<Rightarrow> config_error option \<times> heap \<times> pf_ref" where
  "select_ref id0 h r =
     (let i = TrimSpace id0 in
      if i = '''' then (Some SelectedIDRequired, h, r)
      else
        (case select_loop i 0 (ref_len r) (arrays h (ref_array r)) False of
           (xs, found) \<Rightarrow>
             let h' = put_array (ref_array r) xs h in
             if \<not> found then (Some (ProfileNotFound i), h', r)
             else (None, h', r\<lparr>ref_selected := i\<rparr>)))"

text \<open>\<^verbatim>\<open>append(s[:k], s[k+1:]...)\<close>: the tail moves down one place inside the same array, and the last
  element of the old slice stays where it was.\<close>

definition delete_array :: "nat \<Rightarrow> nat \<Rightarrow> profile list \<Rightarrow> profile list" where
  "delete_array k n xs = take k xs @ drop (Suc k) (take n xs) @ drop (n - 1) xs"

definition delete_ref :: "string \<Rightarrow> heap \<Rightarrow> pf_ref \<Rightarrow> config_error option \<times> heap \<times> pf_ref" where
  "delete_ref i h r =
     (let xs = arrays h (ref_array r) in
      case index_where (\<lambda>p. P_ID p = i) (take (ref_len r) xs) of
        None \<Rightarrow> (Some DeleteNotFound, h, r)
      | Some k \<Rightarrow>
          (None, put_array (ref_array r) (delete_array k (ref_len r) xs) h,
           r\<lparr>ref_selected := (if ref_selected r = i then '''' else ref_selected r),
             ref_len := ref_len r - 1\<rparr>))"

text \<open>\<^verbatim>\<open>append(s, p)\<close>: in place when the capacity allows it, otherwise into a new array.\<close>

definition append_ref :: "profile list \<Rightarrow> profile \<Rightarrow> heap \<Rightarrow> pf_ref \<Rightarrow> heap \<times> pf_ref" where
  "append_ref spare p h r =
     (let xs = arrays h (ref_array r) in
      if ref_len r < length xs
      then (put_array (ref_array r) (xs[ref_len r := p]) h, r\<lparr>ref_len := Suc (ref_len r)\<rparr>)
      else
        (case alloc (take (ref_len r) xs @ [p]) spare h of
           (a, h') \<Rightarrow> (h', r\<lparr>ref_array := a, ref_len := Suc (ref_len r)\<rparr>)))"

definition upsert_ref ::
  "profile list \<Rightarrow> int \<Rightarrow> save_profile_request \<Rightarrow> heap \<Rightarrow> pf_ref \<Rightarrow> upsert_error option \<times> heap \<times> pf_ref" where
  "upsert_ref spare now req h r =
     (case upsert_check req of
        Some e \<Rightarrow> (Some e, h, r)
      | None \<Rightarrow>
          let pf = view h r; i = upsert_id now pf req; p = upsert_profile now pf req in
          (case (case upsert_index pf req of
                   Some k \<Rightarrow> (put_array (ref_array r) ((arrays h (ref_array r))[k := p]) h, r)
                 | None \<Rightarrow> append_ref spare p h r) of
             (h1, r1) \<Rightarrow>
               if Req_Select req \<or> ref_selected r1 = '''' \<or> ref_selected r1 = i
               then (None, snd (select_ref i h1 r1))
               else (None, h1, r1)))"

section \<open>Lemmas\<close>

lemma view_simps [simp]:
  "SelectedID (view h r) = ref_selected r"
  "Profiles (view h r) = take (ref_len r) (arrays h (ref_array r))"
  by (simp_all add: view_def)

lemma arrays_put [simp]:
  "arrays (put_array a xs h) b = (if b = a then xs else arrays h b)"
  "next_array (put_array a xs h) = next_array h"
  by (simp_all add: put_array_def)

lemma profiles_file_eqI:
  "SelectedID x = SelectedID y \<Longrightarrow> Profiles x = Profiles y \<Longrightarrow> x = (y :: profiles_file)"
  by simp

lemma select_loop_spec:
  assumes "n \<le> length xs" "k \<le> n"
  shows "select_loop i k n xs found =
     (take k xs @ mark_selected i (drop k (take n xs)) @ drop n xs,
      found \<or> list_ex P_Selected (mark_selected i (drop k (take n xs))))"
  using assms
proof (induction i k n xs found rule: select_loop.induct)
  case (1 i k n xs found)
  show ?case
  proof (cases "k < n")
    case True
    define p where "p = (xs ! k)\<lparr>P_Selected := (P_ID (xs ! k) = i)\<rparr>"
    have step: "select_loop i k n xs found = select_loop i (Suc k) n (xs[k := p]) (found \<or> P_Selected p)"
      using True by (simp add: select_loop.simps [of i k] Let_def p_def)
    have cons: "drop k (take n xs) = xs ! k # drop (Suc k) (take n xs)"
      using True "1.prems"(1) Cons_nth_drop_Suc [of k "take n xs"] by simp
    have "take (Suc k) (xs[k := p]) = take k xs @ [p]"
      using True "1.prems"(1) by (simp add: take_Suc_conv_app_nth)
    moreover have "drop (Suc k) (take n (xs[k := p])) = drop (Suc k) (take n xs)"
      by (simp add: take_update_swap drop_update_cancel)
    moreover have "drop n (xs[k := p]) = drop n xs" using True by (simp add: drop_update_cancel)
    ultimately show ?thesis
      using "1.IH" [OF True p_def] "1.prems" True
      unfolding step by (simp add: cons mark_selected_def p_def disj_assoc)
  next
    case False
    then have "k = n" using "1.prems" by simp
    then show ?thesis by (simp add: select_loop.simps [of i n n] mark_selected_def)
  qed
qed

text \<open>The in-place operations refine the list functions.\<close>

lemma select_ref_refines:
  assumes "ref_ok h r" "select_ref i h r = (e, h', r')"
  shows "SelectByID i (view h r) = (e, view h' r')" and "ref_ok h' r'"
    and "ref_array r' = ref_array r" "ref_len r' = ref_len r"
proof -
  have loop: "select_loop j 0 (ref_len r) (arrays h (ref_array r)) False =
      (mark_selected j (Profiles (view h r)) @ drop (ref_len r) (arrays h (ref_array r)),
       list_ex P_Selected (mark_selected j (Profiles (view h r))))" for j
    using select_loop_spec [of "ref_len r" "arrays h (ref_array r)" 0 j False] assms(1)
    by (simp add: ref_ok_def)
  have len: "length (mark_selected j (Profiles (view h r))) = ref_len r" for j
    using assms(1) by (simp add: mark_selected_def ref_ok_def)
  show "SelectByID i (view h r) = (e, view h' r')"
    using assms len
    by (auto simp: select_ref_def SelectByID_def Let_def loop split: if_splits
        intro!: profiles_file_eqI)
  show "ref_ok h' r'" "ref_array r' = ref_array r" "ref_len r' = ref_len r"
    using assms len by (auto simp: select_ref_def Let_def loop ref_ok_def split: if_splits)
qed

lemma take_delete_array:
  assumes "k < n" "n \<le> length xs"
  shows "take (n - 1) (delete_array k n xs) = take k (take n xs) @ drop (Suc k) (take n xs)"
    and "length (delete_array k n xs) = length xs"
  using assms by (cases "k = n - 1"; auto simp: delete_array_def min_def)+

lemma delete_ref_refines:
  assumes ok: "ref_ok h r" and del: "delete_ref i h r = (e, h', r')"
  shows "DeleteProfile i (view h r) = (e, view h' r')" "ref_ok h' r'"
proof -
  have "DeleteProfile i (view h r) = (e, view h' r') \<and> ref_ok h' r'"
  proof (cases "index_where (\<lambda>p. P_ID p = i) (take (ref_len r) (arrays h (ref_array r)))")
    case None
    then show ?thesis using ok del by (simp add: delete_ref_def DeleteProfile_def Let_def)
  next
    case (Some k)
    have k: "k < ref_len r" using index_where_Some [OF Some] by simp
    note d = take_delete_array [OF k, of "arrays h (ref_array r)"]
    show ?thesis
      using ok del Some d
      by (auto simp: delete_ref_def DeleteProfile_def Let_def ref_ok_def intro!: profiles_file_eqI)
  qed
  then show "DeleteProfile i (view h r) = (e, view h' r')" "ref_ok h' r'" by blast+
qed

lemma append_ref_view:
  assumes "ref_ok h r" "append_ref spare p h r = (h', r')"
  shows "Profiles (view h' r') = Profiles (view h r) @ [p]" "ref_selected r' = ref_selected r" "ref_ok h' r'"
  using assms
  by (auto simp: append_ref_def alloc_def Let_def ref_ok_def take_Suc_conv_app_nth split: if_splits)

lemma upsert_ref_refines:
  assumes ok: "ref_ok h r" and up: "upsert_ref spare now req h r = (e, h', r')"
  shows "upsertProfile now req (view h r) = (e, view h' r') \<and> ref_ok h' r'"
proof (cases "upsert_check req")
  case (Some e')
  then have "e = Some e'" "h' = h" "r' = r" using up by (simp_all add: upsert_ref_def)
  then show ?thesis using ok Some by (simp add: upsertProfile_def)
next
  case None
  define pf where "pf = view h r"
  define i where "i = upsert_id now pf req"
  define p where "p = upsert_profile now pf req"
  obtain h1 r1 where hr: "(case upsert_index pf req of
      Some k \<Rightarrow> (put_array (ref_array r) ((arrays h (ref_array r))[k := p]) h, r)
    | None \<Rightarrow> append_ref spare p h r) = (h1, r1)"
    by (metis surj_pair)
  have sel: "ref_selected r1 = ref_selected r" and ok1: "ref_ok h1 r1"
    and ps: "Profiles (view h1 r1) = upserted now req pf"
    using hr ok append_ref_view [OF ok]
    by (auto simp: upserted_def p_def pf_def ref_ok_def take_update_swap split: option.splits)
  have v1: "view h1 r1 = pf\<lparr>Profiles := upserted now req pf\<rparr>"
    using ps sel by (intro profiles_file_eqI) (simp_all add: pf_def)
  obtain e2 h2 r2 where s: "select_ref i h1 r1 = (e2, h2, r2)" by (metis surj_pair)
  note s' = select_ref_refines [OF ok1 s]
  have "upsert_ref spare now req h r =
      (if Req_Select req \<or> ref_selected r1 = '''' \<or> ref_selected r1 = i
       then (None, snd (select_ref i h1 r1)) else (None, h1, r1))"
    using None hr unfolding upsert_ref_def Let_def i_def p_def pf_def by simp
  then show ?thesis
    using up None s s' sel v1 ok1
    by (auto simp: upsertProfile_alt i_def pf_def [symmetric] split: if_splits) (simp_all add: pf_def)
qed

text \<open>What the server's own copy sees of a deletion: its slice still has the old length, over an array
  whose tail moved down, so the last profile appears twice.\<close>

lemma delete_array_old_view:
  assumes "k < n" "n \<le> length xs"
  shows "take n (delete_array k n xs) = take k (take n xs) @ drop (Suc k) (take n xs) @ [last (take n xs)]"
proof -
  have "take n (delete_array k n xs) = take (n - 1) (delete_array k n xs) @ [delete_array k n xs ! (n - 1)]"
    using assms take_Suc_conv_app_nth [of "n - 1" "delete_array k n xs"] take_delete_array(2) [OF assms] by simp
  moreover have "delete_array k n xs ! (n - 1) = xs ! (n - 1)"
  proof -
    have l: "length (take k xs @ drop (Suc k) (take n xs)) = n - 1" using assms by simp
    have "delete_array k n xs ! (n - 1) = drop (n - 1) xs ! 0"
      unfolding delete_array_def append_assoc [symmetric] using l by (metis diff_self_eq_0 less_irrefl nth_append)
    then show ?thesis using assms by simp
  qed
  moreover have "xs ! (n - 1) = last (take n xs)"
    using assms last_conv_nth [of "take n xs"] by (cases xs) (auto simp: min_def)
  ultimately show ?thesis using take_delete_array(1) [OF assms] by simp
qed

section \<open>Properties\<close>

text \<open>C9. The in-place edits of the handlers refine the operations on profile lists: selecting, deleting
  and saving a profile through a slice gives the same error and, seen through the returned slice,
  the same list as \<open>SelectByID\<close>, \<open>DeleteProfile\<close> and \<open>upsertProfile\<close> on the list, whatever the
  capacity of the array and its spare elements are.\<close>
theorem edits_refine_lists:
  assumes "ref_ok h r"
  shows "(case select_ref i h r of (e, h', r') \<Rightarrow> SelectByID i (view h r) = (e, view h' r') \<and> ref_ok h' r') \<and>
         (case delete_ref i h r of (e, h', r') \<Rightarrow> DeleteProfile i (view h r) = (e, view h' r') \<and> ref_ok h' r') \<and>
         (case upsert_ref spare now req h r of
            (e, h', r') \<Rightarrow> upsertProfile now req (view h r) = (e, view h' r') \<and> ref_ok h' r')"
  using select_ref_refines [OF assms] delete_ref_refines [OF assms] upsert_ref_refines [OF assms]
  by (auto split: prod.split)

definition demo_heap :: heap where
  "demo_heap = \<lparr>arrays = (\<lambda>_. [demo_profile ''a'' True, demo_profile ''b'' False]), next_array = 1\<rparr>"

definition demo_ref :: pf_ref where
  "demo_ref = \<lparr>ref_selected = ''a'', ref_array = 0, ref_len = 2\<rparr>"

lemma demo_ref_ok: "ref_ok demo_heap demo_ref"
  by (simp add: ref_ok_def demo_heap_def demo_ref_def)

theorem edits_refine_lists_witness:
  "case delete_ref ''a'' demo_heap demo_ref of
     (e, h', r') \<Rightarrow> e = None \<and> view h' r' = snd (DeleteProfile ''a'' demo_profiles)"
proof -
  have v: "view demo_heap demo_ref = demo_profiles"
    by (simp add: view_def demo_heap_def demo_ref_def demo_profiles_def)
  have "fst (DeleteProfile ''a'' demo_profiles) = None"
    by (simp add: DeleteProfile_def demo_profiles_def demo_profile_def)
  then show ?thesis
    using edits_refine_lists [where i = "''a''", OF demo_ref_ok] v
    by (auto split: prod.splits)
qed

text \<open>An edit is visible before it is saved, because the server's own copy shares the array: deleting
  a profile (other than the last) through the handler's slice leaves the server's copy, whose length
  and selected id did not change, with the deleted profile gone and the last profile twice. This is
  what readers see between the edit and the save, and for good when the save fails.\<close>
theorem delete_shows_through:
  assumes "ref_ok h r" "index_where (\<lambda>p. P_ID p = i) (Profiles (view h r)) = Some k"
  shows "case delete_ref i h r of
     (e, h', r') \<Rightarrow> e = None \<and> SelectedID (view h' r) = SelectedID (view h r) \<and>
       Profiles (view h' r) =
         take k (Profiles (view h r)) @ drop (Suc k) (Profiles (view h r)) @ [last (Profiles (view h r))]"
proof -
  have "k < ref_len r" using index_where_Some [OF assms(2)] by simp
  then show ?thesis
    using assms delete_array_old_view [of k "ref_len r" "arrays h (ref_array r)"]
    by (simp add: delete_ref_def Let_def ref_ok_def)
qed

theorem delete_shows_through_witness:
  "case delete_ref ''a'' demo_heap demo_ref of
     (e, h', r') \<Rightarrow> map P_ID (Profiles (view h' demo_ref)) = [''b'', ''b'']"
proof -
  have "index_where (\<lambda>p. P_ID p = ''a'') (Profiles (view demo_heap demo_ref)) = Some 0"
    by (simp add: demo_heap_def demo_ref_def demo_profile_def)
  from delete_shows_through [OF demo_ref_ok this] show ?thesis
    by (simp add: demo_heap_def demo_ref_def demo_profile_def split: prod.splits)
qed

end
