(* ===== verification/Web.thy ===== *)
theory Web
  imports Runtime ProfileHeap
begin

text \<open>
  The HTTP side of \<^verbatim>\<open>internal/api\<close>: the response writer of \<^verbatim>\<open>net/http\<close> as far as the handlers use
  it (headers are frozen by the first \<open>WriteHeader\<close> or write), the reply helpers \<open>writeV1OK\<close>,
  \<open>writeV1Error\<close> and \<open>writeJSON\<close> with the envelope of \<^verbatim>\<open>internal/apiv1\<close>, the CORS wrapper, the
  route table, lexical path joining, and the text helpers of the handlers.
\<close>

section \<open>Definitions\<close>

subsection \<open>Replies\<close>

text \<open>The data of an envelope: the handlers pass maps, and the typed documents of \<^verbatim>\<open>apiv1\<close> and
  \<^verbatim>\<open>config\<close>.\<close>

record capability =
  Cap_Name :: string
  Cap_Enabled :: bool
  Cap_Description :: string

record diagnostics =
  Diag_Runtime :: "(string \<times> val) list"
  Diag_Config :: "(string \<times> val) list"
  Diag_Pool :: "(string \<times> val) list"
  Diag_Route :: "(string \<times> val) list"
  Diag_Performance :: "(string \<times> val) list"

record status_page =
  SP_Runtime :: "(string \<times> val) list"
  SP_Config :: "(string \<times> val) list"
  SP_Capabilities :: "capability list"
  SP_Paths :: "(string \<times> string) list"

datatype data =
    DMap "(string \<times> val) list"
  | DHealth string string
  | DConfig config
  | DConfigUpdate config bool
  | DProfiles profiles_file
  | DProfile profile
  | DStatus status_page
  | DDiagnostics diagnostics

record envelope =
  APIVersion :: string
  OK :: bool
  Data :: "data option"
  Error :: string

datatype chunk = Json envelope | Text string

text \<open>The response: the status once it is written, the live header map, the header as it was when the
  status was written, and the body.\<close>

record resp =
  code :: "int option"
  hdr :: "(string \<times> string) list"
  sent_hdr :: "(string \<times> string) list"
  body :: "chunk list"

definition new_resp :: resp where
  "new_resp = \<lparr>code = None, hdr = [], sent_hdr = [], body = []\<rparr>"

definition set_header :: "string \<Rightarrow> string \<Rightarrow> resp \<Rightarrow> resp" where
  "set_header k v w = w\<lparr>hdr := map_store k v (hdr w)\<rparr>"

definition write_header :: "int \<Rightarrow> resp \<Rightarrow> resp" where
  "write_header c w = (case code w of None \<Rightarrow> w\<lparr>code := Some c, sent_hdr := hdr w\<rparr> | Some _ \<Rightarrow> w)"

definition write_chunk :: "chunk \<Rightarrow> resp \<Rightarrow> resp" where
  "write_chunk ch w = (let w' = write_header 200 w in w'\<lparr>body := body w' @ [ch]\<rparr>)"

definition api_version :: string where "api_version = ''v1''"

definition writeJSON :: "envelope \<Rightarrow> resp \<Rightarrow> resp" where
  "writeJSON v w = write_chunk (Json v) (set_header ''Content-Type'' ''application/json'' w)"

definition writeV1OK :: "data \<Rightarrow> resp \<Rightarrow> resp" where
  "writeV1OK d w =
     writeJSON \<lparr>APIVersion = api_version, OK = True, Data = Some d, Error = ''''\<rparr> w"

definition writeV1Error :: "int \<Rightarrow> string \<Rightarrow> resp \<Rightarrow> resp" where
  "writeV1Error c err w =
     writeJSON \<lparr>APIVersion = api_version, OK = False, Data = None, Error = err\<rparr> (write_header c w)"

text \<open>\<^verbatim>\<open>http.Error\<close>.\<close>

definition http_error :: "string \<Rightarrow> int \<Rightarrow> resp \<Rightarrow> resp" where
  "http_error msg c w =
     write_chunk (Text (msg @ [nl]))
       (write_header c
         (set_header ''X-Content-Type-Options'' ''nosniff''
           (set_header ''Content-Type'' ''text/plain; charset=utf-8'' w)))"

subsection \<open>CORS\<close>

definition cors_headers :: "(string \<times> string) list" where
  "cors_headers =
     [(''Access-Control-Allow-Origin'', ''*''),
      (''Access-Control-Allow-Methods'', ''GET, POST, PUT, PATCH, DELETE, OPTIONS''),
      (''Access-Control-Allow-Headers'', ''Content-Type, Authorization'')]"

definition withCORS :: "string \<Rightarrow> (resp \<Rightarrow> 's \<Rightarrow> resp \<times> 's) \<Rightarrow> resp \<Rightarrow> 's \<Rightarrow> resp \<times> 's" where
  "withCORS method next w s =
     (let w1 = fold (\<lambda>(k, v). set_header k v) cors_headers w in
      if method = ''OPTIONS'' then (write_header 204 w1, s) else next w1 s)"

subsection \<open>Routes\<close>

datatype route =
    Health | Latency | Status | Diagnostics | ConfigRoute | ProfilesRoute | ProfileCurrent
  | ProfileSelect | ProfileDelete | ProfileSave | Control | Logs | Autostart | PublicIP
  | TestUDP | UDPCounters | Events | CaptivePortal | WebUI

definition registerRoutes :: "(string \<times> route) list" where
  "registerRoutes =
     [(''/api/v1/health'', Health), (''/api/v1/latency'', Latency), (''/api/v1/status'', Status),
      (''/api/v1/diagnostics'', Diagnostics), (''/api/v1/config'', ConfigRoute),
      (''/api/v1/profiles'', ProfilesRoute), (''/api/v1/profile/current'', ProfileCurrent),
      (''/api/v1/profile/select'', ProfileSelect), (''/api/v1/profile/delete'', ProfileDelete),
      (''/api/v1/profile/save'', ProfileSave), (''/api/v1/control'', Control),
      (''/api/v1/logs/'', Logs), (''/api/v1/autostart'', Autostart),
      (''/api/v1/network/public-ip'', PublicIP), (''/api/v1/test/udp'', TestUDP),
      (''/api/v1/diagnostics/udp'', UDPCounters), (''/api/v1/events'', Events),
      (''/generate_204'', CaptivePortal), (''/captive/generate_204'', CaptivePortal), (''/'', WebUI)]"

text \<open>The rule of \<^verbatim>\<open>http.ServeMux\<close> for patterns without method, host or wildcards: a pattern matches its
  own path, one that ends in a slash also every path below it, and the longest match wins. Paths are
  clean here: the mux answers others with a redirect before any handler runs.\<close>

definition matches :: "string \<Rightarrow> string \<Rightarrow> bool" where
  "matches pat path \<longleftrightarrow> path = pat \<or> (HasSuffix pat ''/'' \<and> HasPrefix path pat)"

fun longest_match :: "(string \<times> route) list \<Rightarrow> string \<Rightarrow> (string \<times> route) option" where
  "longest_match [] path = None"
| "longest_match ((pat, r) # rs) path =
     (case longest_match rs path of
        None \<Rightarrow> if matches pat path then Some (pat, r) else None
      | Some (pat', r') \<Rightarrow>
          if matches pat path \<and> length pat' < length pat then Some (pat, r) else Some (pat', r'))"

definition mux :: "string \<Rightarrow> route option" where
  "mux path = map_option snd (longest_match registerRoutes path)"

subsection \<open>Paths\<close>

text \<open>\<^verbatim>\<open>filepath.Clean\<close> and \<^verbatim>\<open>filepath.Join\<close>: drop empty and dot elements, let a double dot cancel the
  element before it.\<close>

fun clean_elems :: "bool \<Rightarrow> string list \<Rightarrow> string list \<Rightarrow> string list" where
  "clean_elems rooted out [] = rev out"
| "clean_elems rooted out (e # es) =
     (if e = '''' \<or> e = ''.'' then clean_elems rooted out es
      else if e = ''..'' then
        (case out of
           [] \<Rightarrow> clean_elems rooted (if rooted then [] else [''..'']) es
         | d # ds \<Rightarrow> if d = ''..'' then clean_elems rooted (''..'' # out) es
                     else clean_elems rooted ds es)
      else clean_elems rooted (e # out) es)"

definition Clean :: "string \<Rightarrow> string" where
  "Clean p =
     (let rooted = HasPrefix p ''/'';
          s = (if rooted then ''/'' else []) @ Join (clean_elems rooted [] (Split (CHR ''/'') p)) ''/'' in
      if s = '''' then ''.'' else s)"

definition path_join :: "string \<Rightarrow> string \<Rightarrow> string" where
  "path_join a b =
     (case filter (\<lambda>e. e \<noteq> '''') [a, b] of
        [] \<Rightarrow> ''''
      | es \<Rightarrow> Clean (Join es ''/''))"

definition log_path :: "string \<Rightarrow> string \<Rightarrow> string" where
  "log_path runDir name = path_join runDir (name @ ''.log'')"

definition log_parts :: "string \<Rightarrow> string list" where
  "log_parts path = Split (CHR ''/'') (TrimPrefix path ''/api/v1/logs/'')"

subsection \<open>Text helpers\<close>

text \<open>The quotation mark is written by its code, the string \<open>q_ip\<close> is \<^verbatim>\<open>"ip":"\<close>.\<close>

definition quote :: char where "quote = CHR 0x22"

definition q_ip :: string where "q_ip = quote # ''ip'' @ [quote, CHR '':'', quote]"

definition extractIPFromHTTP :: "string \<Rightarrow> string" where
  "extractIPFromHTTP body0 =
     (let crlf2 = crlf @ crlf;
          body = (case Index body0 crlf2 of Some idx \<Rightarrow> drop (idx + 4) body0 | None \<Rightarrow> body0) in
      case Index body q_ip of
        None \<Rightarrow> ''''
      | Some idx0 \<Rightarrow>
          let idx = idx0 + 6 in
          (case Index (drop idx body) [quote] of
             None \<Rightarrow> ''''
           | Some e \<Rightarrow> take e (drop idx body)))"

definition maxRead :: nat where "maxRead = 65536"

text \<open>\<open>stat\<close> is the size that \<^verbatim>\<open>os.Stat\<close> reported and \<open>content\<close> what the opened file holds by the time it is
  read: the log may have grown or have been truncated in between. \<open>txt\<close> is the text of the
  operating system's error.\<close>

definition serveLogFile :: "string \<Rightarrow> nat option \<Rightarrow> string option \<Rightarrow> resp \<Rightarrow> resp" where
  "serveLogFile txt stat content w =
     (case stat of
        None \<Rightarrow> http_error txt 404 w
      | Some sz \<Rightarrow>
          (case content of
             None \<Rightarrow> http_error txt 500 w
           | Some c \<Rightarrow>
               if sz > maxRead then
                 let rest = drop (sz - maxRead) c in
                 if 0 < length rest \<and> length rest < maxRead then http_error ''unexpected EOF'' 500 w
                 else
                   let b = (if rest = [] then replicate maxRead (CHR 0x00) else take maxRead rest) in
                   write_chunk (Text b) (set_header ''Content-Type'' ''text/plain; charset=utf-8'' w)
               else
                 write_chunk (Text c) (set_header ''Content-Type'' ''text/plain; charset=utf-8'' w)))"

section \<open>Lemmas\<close>

subsection \<open>Replies\<close>

lemma set_header_simps [simp]:
  "code (set_header k v w) = code w" "hdr (set_header k v w) = map_store k v (hdr w)"
  "sent_hdr (set_header k v w) = sent_hdr w" "body (set_header k v w) = body w"
  by (simp_all add: set_header_def)

lemma writeV1OK_fresh:
  assumes "code w = None"
  shows "code (writeV1OK d w) = Some 200"
    and "sent_hdr (writeV1OK d w) = map_store ''Content-Type'' ''application/json'' (hdr w)"
    and "body (writeV1OK d w) =
      body w @ [Json \<lparr>APIVersion = api_version, OK = True, Data = Some d, Error = ''''\<rparr>]"
  using assms by (simp_all add: writeV1OK_def writeJSON_def write_chunk_def write_header_def Let_def)

lemma writeV1Error_fresh:
  assumes "code w = None"
  shows "code (writeV1Error c e w) = Some c"
    and "sent_hdr (writeV1Error c e w) = hdr w"
    and "body (writeV1Error c e w) =
      body w @ [Json \<lparr>APIVersion = api_version, OK = False, Data = None, Error = e\<rparr>]"
  using assms by (simp_all add: writeV1Error_def writeJSON_def write_chunk_def write_header_def Let_def)

subsection \<open>Routes\<close>

lemma longest_match_None: "longest_match rs path = None \<longleftrightarrow> (\<forall>(p, r) \<in> set rs. \<not> matches p path)"
  by (induction rs path rule: longest_match.induct) (auto split: option.split)

lemma longest_match_Some:
  "longest_match rs path = Some (p, r) \<Longrightarrow>
   (p, r) \<in> set rs \<and> matches p path \<and> (\<forall>(q, t) \<in> set rs. matches q path \<longrightarrow> length q \<le> length p)"
proof (induction rs path arbitrary: p r rule: longest_match.induct)
  case (2 q t rs path)
  show ?case
  proof (cases "longest_match rs path")
    case None
    then have "\<forall>(q, t) \<in> set rs. \<not> matches q path" by (simp add: longest_match_None)
    then show ?thesis using "2.prems" None by (auto split: if_splits)
  next
    case (Some pr)
    obtain p' r' where pr: "pr = (p', r')" by (cases pr)
    note IH = "2.IH" [OF Some [unfolded pr]]
    show ?thesis
    proof (cases "matches q path \<and> length p' < length q")
      case True
      then have "p = q \<and> r = t" using "2.prems" Some pr by simp
      then show ?thesis using True IH by fastforce
    next
      case False
      then have "p = p' \<and> r = r'" using "2.prems" Some pr by (auto split: if_splits)
      then show ?thesis using False IH by auto
    qed
  qed
qed simp

text \<open>Every registered path reaches its own handler, every absolute path reaches some handler.\<close>

lemma matches_length: "matches p path \<Longrightarrow> length p \<le> length path"
  by (auto simp: matches_def HasPrefix_def prefix_length_le)

lemma matches_full: "matches p path \<Longrightarrow> length path \<le> length p \<Longrightarrow> p = path"
  by (auto simp: matches_def HasPrefix_def prefix_def)

lemma longest_match_exact:
  assumes "distinct (map fst rs)" "(path, r) \<in> set rs"
  shows "longest_match rs path = Some (path, r)"
proof (cases "longest_match rs path")
  case None
  then show ?thesis using assms(2) by (auto simp: longest_match_None matches_def)
next
  case (Some pr)
  obtain p t where pr: "pr = (p, t)" by (cases pr)
  note s = longest_match_Some [OF Some [unfolded pr]]
  then have "length path \<le> length p" using assms(2) by (auto simp: matches_def)
  then have "p = path" using s matches_full by blast
  then have "t = r" using s assms by (auto dest: eq_key_imp_eq_value)
  then show ?thesis using Some pr \<open>p = path\<close> by simp
qed

lemma registerRoutes_distinct: "distinct (map fst registerRoutes)"
  by (simp add: registerRoutes_def)

lemma mux_registered: "(path, r) \<in> set registerRoutes \<Longrightarrow> mux path = Some r"
  by (simp add: mux_def longest_match_exact [OF registerRoutes_distinct])

lemma mux_total: "HasPrefix path ''/'' \<Longrightarrow> mux path \<noteq> None"
  using longest_match_None [of registerRoutes path]
  by (auto simp: mux_def registerRoutes_def matches_def HasSuffix_def)

subsection \<open>Paths\<close>

lemma clean_elems_snoc:
  assumes "e \<noteq> ''''" "e \<noteq> ''.''" "e \<noteq> ''..''"
  shows "clean_elems r out (es @ [e]) = clean_elems r out es @ [e]"
  using assms by (induction r out es rule: clean_elems.induct) (auto split: list.split)

abbreviation slash :: char where "slash \<equiv> CHR ''/''"

definition plain_elem :: "string \<Rightarrow> bool" where
  "plain_elem e \<longleftrightarrow> e \<notin> {'''', ''.'', ''..''} \<and> slash \<notin> set e"

lemma clean_elems_plain: "list_all plain_elem es \<Longrightarrow> clean_elems r out es = rev out @ es"
  by (induction r out es rule: clean_elems.induct) (auto simp: plain_elem_def)

lemma clean_elems_rooted:
  "list_all plain_elem out \<Longrightarrow> list_all (\<lambda>e. slash \<notin> set e) es \<Longrightarrow> list_all plain_elem (clean_elems True out es)"
proof (induction True out es rule: clean_elems.induct)
  case (2 out e es)
  then show ?case by (auto simp: plain_elem_def split: list.splits)
qed (simp add: list_all_iff)

lemma Split_no_slash: "list_all (\<lambda>e. c \<notin> set e) (Split c s)"
  by (auto simp: list_all_iff dest: Split_pieces)

lemma Clean_rooted:
  assumes "HasPrefix p ''/''"
  obtains ds where "list_all plain_elem ds" "clean_elems True [] (Split slash p) = ds" "Clean p = ''/'' @ Join ds ''/''"
  using assms clean_elems_rooted [of "[]" "Split slash p"] Split_no_slash by (auto simp: Clean_def Let_def)

lemma Join_snoc: "ds \<noteq> [] \<Longrightarrow> Join (ds @ [e]) sep = Join ds sep @ sep @ e"
proof (induction ds)
  case (Cons d ds)
  then show ?case by (cases "ds = []") (simp_all add: Join_Cons)
qed simp

lemma path_join_rooted:
  assumes "HasPrefix p ''/''" "plain_elem e"
  shows "\<exists>ds. list_all plain_elem ds \<and> path_join p e = ''/'' @ Join (ds @ [e]) ''/''"
proof -
  have e: "e \<noteq> ''''" "e \<noteq> ''.''" "e \<noteq> ''..''" "slash \<notin> set e" using assms(2) by (auto simp: plain_elem_def)
  have p: "p \<noteq> ''''" using assms(1) by (auto simp: HasPrefix_def)
  define ds where "ds = clean_elems True [] (Split slash p)"
  have "clean_elems True [] (Split slash (p @ slash # e)) = ds @ [e]"
    using e by (simp add: Split_append_sep Split_no_sep clean_elems_snoc ds_def)
  moreover have "HasPrefix (p @ slash # e) ''/''" using assms(1) by (auto simp: HasPrefix_def)
  ultimately have "Clean (p @ slash # e) = ''/'' @ Join (ds @ [e]) ''/''" by (simp add: Clean_def)
  moreover have "list_all plain_elem ds"
    unfolding ds_def by (rule clean_elems_rooted) (simp_all add: Split_no_slash)
  ultimately show ?thesis using e p by (auto simp: path_join_def)
qed

lemma path_join_clean:
  assumes "list_all plain_elem ds" "ds \<noteq> []" "plain_elem e"
  shows "path_join (''/'' @ Join ds ''/'') e = ''/'' @ Join ds ''/'' @ ''/'' @ e"
proof -
  have e: "e \<noteq> ''''" "slash \<notin> set e" using assms(3) by (auto simp: plain_elem_def)
  have "\<forall>d \<in> set ds. slash \<notin> set d" using assms(1) by (auto simp: list_all_iff plain_elem_def)
  then have "Split slash (slash # Join ds ''/'' @ slash # e) = '''' # ds @ [e]"
    using Split_append_sep [of slash "slash # Join ds ''/''" e] e assms(2) by (simp add: Split_Join Split_no_sep)
  moreover have "clean_elems True [] (ds @ [e]) = ds @ [e]"
    using assms(1,3) clean_elems_plain [of "ds @ [e]" True "[]"] by simp
  ultimately have "Clean (slash # Join ds ''/'' @ slash # e) = ''/'' @ Join (ds @ [e]) ''/''"
    by (simp add: Clean_def HasPrefix_def)
  then show ?thesis using e assms(2) by (simp add: path_join_def Join_snoc)
qed

lemma log_path_confined:
  assumes "HasPrefix workDir ''/''" "slash \<notin> set name"
  shows "log_path (path_join workDir ''run'') name = path_join workDir ''run'' @ ''/'' @ name @ ''.log''"
proof -
  have "plain_elem ''run''" by (simp add: plain_elem_def)
  then obtain ds where ds: "list_all plain_elem ds" and j: "path_join workDir ''run'' = ''/'' @ Join (ds @ [''run'']) ''/''"
    using path_join_rooted [OF assms(1)] by blast
  have l: "plain_elem (name @ ''.log'')"
    using assms(2) by (auto simp: plain_elem_def append_eq_Cons_conv)
  show ?thesis
    unfolding log_path_def j
    using path_join_clean [of "ds @ [''run'']" "name @ ''.log''"] ds l \<open>plain_elem ''run''\<close> by simp
qed

lemma log_parts_no_slash: "name \<in> set (log_parts path) \<Longrightarrow> slash \<notin> set name"
  unfolding log_parts_def by (rule Split_pieces)

end
