(* ===== verification/Server.thy ===== *)
theory Server
  imports Web Socks5
begin

text \<open>
  The API server of \<^verbatim>\<open>internal/api/api.go\<close>: its pointers to the configuration and the profiles
  over the file system, the handler of every route, and \<open>serve\<close>, which is the wrapped
  \<^verbatim>\<open>ServeMux\<close>. The JSON codecs, the clock, the texts of foreign errors and the answers of the
  network and of external commands are the fields of \<open>env\<close>.
\<close>

section \<open>Definitions\<close>

subsection \<open>Requests and the environment\<close>

record dns_settings =
  DS_Mode :: string
  DS_Servers :: "string list"
  DS_TimeoutSeconds :: int

record hotspot_settings =
  HS_Enabled :: "bool option"
  HS_TCP :: "bool option"
  HS_DNS :: "bool option"
  HS_Interfaces :: "string list"

record config_patch =
  CP_DNS :: "dns_settings option"
  CP_Hotspot :: "hotspot_settings option"
  CP_Restart :: bool

record http_request =
  rq_method :: string
  rq_path :: string
  rq_target :: string
  rq_body :: string
  rq_flusher :: bool

record env =
  enc_cfg :: "config \<Rightarrow> string option"
  dec_cfg :: "string \<Rightarrow> config option"
  enc_pf :: "profiles_file \<Rightarrow> string option"
  dec_pf :: "string \<Rightarrow> profiles_file option"
  partial_pf :: profiles_file
  spare :: "profile list"
  dec_patch :: "string \<Rightarrow> config_patch option"
  dec_select :: "string \<Rightarrow> (string \<times> bool) option"
  dec_id :: "string \<Rightarrow> string option"
  dec_save :: "string \<Rightarrow> save_profile_request option"
  dec_enabled :: "string \<Rightarrow> bool option"
  rfc3339 :: "instant option \<Rightarrow> string"
  clock :: instant
  file_text :: "file_error \<Rightarrow> string"
  decode_text :: string
  os_text :: string
  client_text :: "client_error \<Rightarrow> string"
  dial1 :: "string \<Rightarrow> conn option"
  dial2 :: "string \<Rightarrow> conn option"
  elapsed :: duration
  first_read :: "conn \<Rightarrow> string \<times> string option"
  resolve_udp :: "string \<Rightarrow> string option"
  dial_udp :: "string \<Rightarrow> string option"
  exec_cmd :: "string list \<Rightarrow> string + string"
  index_html :: string
  favicon_svg :: string

fun config_error_text :: "config_error \<Rightarrow> string" where
  "config_error_text SelectedIDRequired = ''selected_id is required''"
| "config_error_text (ProfileNotFound i) = ''profile not found: '' @ i"
| "config_error_text DeleteNotFound = ''profile not found''"

fun upsert_error_text :: "upsert_error \<Rightarrow> string" where
  "upsert_error_text HostRequired = ''SSH host is required''"
| "upsert_error_text PortInvalid = ''SSH port must be 1-65535''"
| "upsert_error_text UsernameRequired = ''SSH username is required''"
| "upsert_error_text InvalidMode = ''invalid transport mode''"

subsection \<open>The server\<close>

text \<open>The pointers \<open>sv_cfg\<close> and \<open>sv_pf\<close> are \<open>None\<close> until they are stored; \<open>sv_actions\<close> lists the
  control actions that were dispatched, \<open>sv_udp\<close> the test packets that were sent.\<close>

record server =
  sv_state :: runtime
  sv_cfg :: "config option"
  sv_pf :: "pf_ref option"
  sv_heap :: heap
  sv_fs :: fs
  sv_cfgPath :: string
  sv_pfPath :: string
  sv_workDir :: string
  sv_runDir :: string
  sv_addr :: string
  sv_control :: bool
  sv_actions :: "string list"
  sv_udp :: "string list"

definition NewServer :: "string \<Rightarrow> int \<Rightarrow> string \<Rightarrow> string \<Rightarrow> string \<Rightarrow> runtime \<Rightarrow> heap \<Rightarrow> fs \<Rightarrow> server" where
  "NewServer host port workDir cfgPath pfPath st h f =
     \<lparr>sv_state = st, sv_cfg = None, sv_pf = None, sv_heap = h, sv_fs = f, sv_cfgPath = cfgPath,
      sv_pfPath = pfPath, sv_workDir = workDir, sv_runDir = path_join workDir ''run'',
      sv_addr = JoinHostPort host (Itoa port), sv_control = False, sv_actions = [], sv_udp = []\<rparr>"

definition GetConfig :: "server \<Rightarrow> config" where
  "GetConfig sv = (case sv_cfg sv of None \<Rightarrow> DefaultConfig | Some c \<Rightarrow> c)"

definition UpdateConfig :: "env \<Rightarrow> config \<Rightarrow> server \<Rightarrow> file_error option \<times> server" where
  "UpdateConfig e cfg sv =
     (case SaveConfig (enc_cfg e) (sv_cfgPath sv) cfg (sv_fs sv) of
        (Some err, f) \<Rightarrow> (Some err, sv\<lparr>sv_fs := f\<rparr>)
      | (None, f) \<Rightarrow> (None, sv\<lparr>sv_fs := f, sv_cfg := Some cfg\<rparr>))"

definition GetProfiles :: "server \<Rightarrow> profiles_file" where
  "GetProfiles sv =
     (case sv_pf sv of None \<Rightarrow> \<lparr>SelectedID = '''', Profiles = []\<rparr> | Some r \<Rightarrow> view (sv_heap sv) r)"

definition StoreProfiles :: "env \<Rightarrow> pf_ref \<Rightarrow> server \<Rightarrow> file_error option \<times> server" where
  "StoreProfiles e r sv =
     (case SaveProfiles (enc_pf e) (sv_pfPath sv) (view (sv_heap sv) r) (sv_fs sv) of
        (Some err, f) \<Rightarrow> (Some err, sv\<lparr>sv_fs := f\<rparr>)
      | (None, f) \<Rightarrow> (None, sv\<lparr>sv_fs := f, sv_pf := Some r\<rparr>))"

text \<open>A decoded document lives in a new array; the stored copy and the returned one share it.\<close>

definition ReloadProfiles :: "env \<Rightarrow> server \<Rightarrow> (file_error + pf_ref) \<times> server" where
  "ReloadProfiles e sv =
     (case LoadProfiles (dec_pf e) (sv_pfPath sv) (sv_fs sv) of
        Inl err \<Rightarrow> (Inl err, sv)
      | Inr pf \<Rightarrow>
          (case alloc (Profiles pf) (spare e) (sv_heap sv) of
             (a, h) \<Rightarrow>
               let r = \<lparr>ref_selected = SelectedID pf, ref_array = a, ref_len = length (Profiles pf)\<rparr> in
               (Inr r, sv\<lparr>sv_heap := h, sv_pf := Some r\<rparr>)))"

definition LoadAll :: "env \<Rightarrow> server \<Rightarrow> file_error option \<times> server" where
  "LoadAll e sv =
     (case LoadConfig (dec_cfg e) (sv_cfgPath sv) (sv_fs sv) of
        Inl err \<Rightarrow> (Some err, sv)
      | Inr c \<Rightarrow>
          (case ReloadProfiles e (sv\<lparr>sv_cfg := Some c\<rparr>) of
             (Inl err, sv') \<Rightarrow> (Some err, sv')
           | (Inr _, sv') \<Rightarrow> (None, sv')))"

subsection \<open>Summaries\<close>

definition configSummary :: "config \<Rightarrow> (string \<times> val) list" where
  "configSummary cfg =
     [(''api'', VMap [(''host'', VStr (API_Host (CAPI cfg))), (''port'', VInt (API_Port (CAPI cfg)))]),
      (''dns'', VMap [(''mode'', VStr (DNS_Mode (CDNS cfg))), (''servers'', VStrs (DNS_Servers (CDNS cfg))),
                     (''timeout_seconds'', VInt (DNS_TimeoutSec (CDNS cfg)))]),
      (''hotspot'', VMap [(''enabled'', VBool (Hotspot_Enabled (CHotspot cfg))),
                         (''tcp'', VBool (Hotspot_TCP (CHotspot cfg))),
                         (''dns'', VBool (Hotspot_DNS (CHotspot cfg))),
                         (''interfaces'', VStrs (Hotspot_Interfaces (CHotspot cfg)))]),
      (''local_proxy'', VMap [(''socks_enabled'', VBool (SocksEnabled (CLocalProxy cfg))),
                             (''socks_host'', VStr (SocksHost (CLocalProxy cfg))),
                             (''socks_port'', VInt (SocksPort (CLocalProxy cfg)))]),
      (''transparent_proxy'', VMap [(''enabled'', VBool (TP_Enabled (CTransparentProxy cfg))),
                                   (''tcp_port'', VInt (TP_TCPPort (CTransparentProxy cfg))),
                                   (''chains_prefix'', VStr (TP_ChainsPrefix (CTransparentProxy cfg)))])]"

definition apiCapabilities :: "config \<Rightarrow> capability list" where
  "apiCapabilities cfg =
     (let tp = TP_Enabled (CTransparentProxy cfg);
          cap = (\<lambda>n e d. \<lparr>Cap_Name = n, Cap_Enabled = e, Cap_Description = d\<rparr>) in
      [cap ''tproxy_tcp'' tp ''TPROXY-based transparent TCP tunneling'',
       cap ''hotspot_tcp'' (Hotspot_Enabled (CHotspot cfg) \<and> Hotspot_TCP (CHotspot cfg))
         ''TCP sharing for tethered clients'',
       cap ''socks5'' (SocksEnabled (CLocalProxy cfg)) ''local SOCKS5 proxy (RFC 1928 + RFC 1929)'',
       cap ''quic_block'' tp ''drops UDP 443/80 so QUIC apps fall back to TCP'',
       cap ''ipv6_disable'' tp ''disables IPv6 while active to prevent leaks'',
       cap ''captive_portal_bypass'' tp ''localhost 204 server for captive portal bypass'',
       cap ''ssh_payload_injection'' (PayloadIsCore (CTransport cfg))
         ''inject HTTP payload before SSH handshake''])"

definition statusPayload :: "env \<Rightarrow> server \<Rightarrow> status_page" where
  "statusPayload e sv =
     \<lparr>SP_Runtime = Snapshot (rfc3339 e) (clock e) (sv_state sv),
      SP_Config = configSummary (GetConfig sv),
      SP_Capabilities = apiCapabilities (GetConfig sv),
      SP_Paths =
        [(''work_dir'', sv_workDir sv), (''config_path'', sv_cfgPath sv),
         (''profiles_path'', sv_pfPath sv), (''run_dir'', sv_runDir sv),
         (''webroot'', path_join (sv_workDir sv) ''webroot'')]\<rparr>"

subsection \<open>Handlers that only read\<close>

type_synonym handler = "http_request \<Rightarrow> resp \<Rightarrow> server \<Rightarrow> resp \<times> server"

definition handleHealth :: handler where
  "handleHealth q w sv = (writeV1OK (DHealth ''ok'' (S_Version (R_paths (sv_state sv)))) w, sv)"

definition handleStatus :: "env \<Rightarrow> handler" where
  "handleStatus e q w sv = (writeV1OK (DStatus (statusPayload e sv)) w, sv)"

text \<open>The \<^verbatim>\<open>%v\<close> of the values that \<open>capacity_hint\<close> prints.\<close>

fun val_text :: "val \<Rightarrow> string" where
  "val_text (VInt i) = Itoa i"
| "val_text (VStr s) = s"
| "val_text (VBool b) = (if b then ''true'' else ''false'')"
| "val_text _ = ''<nil>''"

definition handleDiagnostics :: "env \<Rightarrow> handler" where
  "handleDiagnostics e q w sv =
     (let cfg = GetConfig sv; snap = Snapshot (rfc3339 e) (clock e) (sv_state sv);
          g = lookup snap in
      (writeV1OK (DDiagnostics
         \<lparr>Diag_Runtime = snap,
          Diag_Config = configSummary cfg,
          Diag_Pool =
            [(''size'', g ''pool_size''), (''healthy'', g ''pool_healthy''),
             (''reconnecting'', g ''pool_reconnecting''), (''streams'', g ''pool_streams''),
             (''max_streams'', g ''pool_max_streams''), (''last_error'', g ''pool_last_error''),
             (''capacity_hint'', VStr (val_text (g ''pool_healthy'') @ ''/'' @ val_text (g ''pool_size'') @
                '' healthy, '' @ val_text (g ''pool_streams'') @ '' active streams''))],
          Diag_Route =
            [(''online'', g ''network_online''), (''interface'', g ''interface''),
             (''gateway'', g ''gateway''), (''source_ip'', g ''source_ip''),
             (''default_route'', g ''default_route'')],
          Diag_Performance =
            [(''cpu_percent'', g ''cpu_percent''), (''memory_rss_mb'', g ''memory_rss_mb''),
             (''goroutines'', g ''goroutines''),
             (''copy_buffer_size'', VInt (BufferSize (CPerformance cfg))),
             (''connect_timeout_seconds'', VInt (SecondsDefault (ConnectTimeoutSec (CPerformance cfg)) 20)),
             (''keepalive_seconds'', VInt (SecondsDefault (KeepAliveSec (CPerformance cfg)) 15)),
             (''max_streams_per_ssh'', VInt (MaxStreamsPerSSH (CPerformance cfg)))]\<rparr>) w, sv))"

text \<open>The probes through the tunnel. Both give up unless the snapshot says that it is up.\<close>

definition tunnel_up :: "(string \<times> val) list \<Rightarrow> bool" where
  "tunnel_up snap \<longleftrightarrow> as_bool (lookup snap ''running'') \<and> as_bool (lookup snap ''connected'')"

definition probe_addr :: "(string \<times> val) list \<Rightarrow> string" where
  "probe_addr snap =
     (let a = as_str (lookup snap ''socks_addr'') in if a = '''' then ''127.0.0.1:1080'' else a)"

definition milliseconds :: "duration \<Rightarrow> int" where
  "milliseconds d = (if 0 \<le> d then d div millisecond else - ((- d) div millisecond))"

definition latency_reply :: "int \<Rightarrow> string \<Rightarrow> string option \<Rightarrow> string \<Rightarrow> data" where
  "latency_reply ms target err now =
     DMap ([(''latency_ms'', VInt ms), (''target'', VStr target)] @
           (case err of None \<Rightarrow> [] | Some t \<Rightarrow> [(''error'', VStr t)]) @ [(''checked_at'', VStr now)])"

definition handleLatency :: "env \<Rightarrow> handler" where
  "handleLatency e q w sv =
     (let snap = Snapshot (rfc3339 e) (clock e) (sv_state sv); now = rfc3339 e (Some (clock e));
          ok = (writeV1OK (latency_reply (milliseconds (elapsed e)) ''google.com:80'' None now) w, sv) in
      if \<not> tunnel_up snap then (writeV1OK (latency_reply (- 1) '''' (Some ''tunnel not connected'') now) w, sv)
      else
        (case socks5Connect (dial1 e) (probe_addr snap) ''google.com'' 80 of
           Inr _ \<Rightarrow> ok
         | Inl _ \<Rightarrow>
             (case socks5Connect (dial2 e) (probe_addr snap) ''1.1.1.1'' 80 of
                Inr _ \<Rightarrow> ok
              | Inl err \<Rightarrow>
                  (writeV1OK (latency_reply (- 1) ''unreachable'' (Some (client_text e err)) now) w, sv))))"

definition public_ip_reply :: "bool \<Rightarrow> string \<Rightarrow> (string \<times> val) list \<Rightarrow> string \<Rightarrow> data" where
  "public_ip_reply ok ip extra now =
     DMap [(''tunnel'', VMap ([(''ok'', VBool ok), (''ip'', VStr ip)] @ extra @ [(''checked_at'', VStr now)]))]"

definition ipify_req :: string where
  "ipify_req = ''GET /?format=json HTTP/1.1'' @ crlf @ ''Host: api.ipify.org'' @ crlf @
     ''Connection: close'' @ crlf @ crlf"

definition handlePublicIP :: "env \<Rightarrow> handler" where
  "handlePublicIP e q w sv =
     (let snap = Snapshot (rfc3339 e) (clock e) (sv_state sv); now = rfc3339 e (Some (clock e));
          fail = (\<lambda>err. (writeV1OK (public_ip_reply False '''' [(''error'', VStr err)] now) w, sv)) in
      if \<not> tunnel_up snap then fail ''tunnel not connected''
      else
        (case socks5Connect (dial1 e) (probe_addr snap) ''api.ipify.org'' 80 of
           Inl err \<Rightarrow> fail (client_text e err)
         | Inr c \<Rightarrow>
             (case write_all (bytes_of ipify_req) c of
                (Inl _, _) \<Rightarrow> fail (os_text e)
              | (Inr _, c') \<Rightarrow>
                  (case first_read e c' of
                     (bs, Some err) \<Rightarrow>
                       if err \<noteq> ''EOF'' then fail err
                       else (writeV1OK (public_ip_reply True (extractIPFromHTTP bs)
                               [(''latency_ms'', VInt (milliseconds (elapsed e)))] now) w, sv)
                   | (bs, None) \<Rightarrow>
                       (writeV1OK (public_ip_reply True (extractIPFromHTTP bs)
                          [(''latency_ms'', VInt (milliseconds (elapsed e)))] now) w, sv)))))"

definition counter_cmds :: "(string \<times> string option \<times> string list) list" where
  "counter_cmds =
     (let mangle = (\<lambda>rest. [''iptables'', ''-w'', ''10'', ''-t'', ''mangle'', ''-L''] @ rest) in
      [(''ssch_mout'', Some ''ssch_mout_error'', mangle [''SSHC_MOUT'', ''-n'', ''-v'']),
       (''ssch_pre'', None, mangle [''SSHC_PRE'', ''-n'', ''-v'']),
       (''mangle_output'', None, mangle [''OUTPUT'', ''-n'', ''-v'', ''--line-numbers'']),
       (''ip_rule'', None, [''ip'', ''rule'', ''show'']),
       (''ip_route_table_100'', None, [''ip'', ''route'', ''show'', ''table'', ''100''])])"

fun run_counters :: "env \<Rightarrow> (string \<times> string option \<times> string list) list \<Rightarrow> (string \<times> val) list" where
  "run_counters e [] = []"
| "run_counters e ((k, ek, cmd) # rest) =
     (case exec_cmd e cmd of
        Inr out \<Rightarrow> [(k, VStr out)]
      | Inl err \<Rightarrow> (case ek of None \<Rightarrow> [] | Some k' \<Rightarrow> [(k', VStr err)])) @ run_counters e rest"

definition handleUDPCounters :: "env \<Rightarrow> handler" where
  "handleUDPCounters e q w sv = (writeV1OK (DMap (run_counters e counter_cmds)) w, sv)"

definition handleCaptivePortal :: handler where
  "handleCaptivePortal q w sv = (write_header 204 w, sv)"

text \<open>The start of \<open>handleEvents\<close>: the headers and the first event. The loop after it is the step
  relation of the runtime theory.\<close>

definition handleEvents :: handler where
  "handleEvents q w sv =
     (if \<not> rq_flusher q then (writeV1Error 500 ''streaming unsupported'' w, sv)
      else
        (write_header 200
           (set_header ''X-Accel-Buffering'' ''no''
             (set_header ''Connection'' ''keep-alive''
               (set_header ''Cache-Control'' ''no-cache, no-transform''
                 (set_header ''Content-Type'' ''text/event-stream'' w)))), sv))"

text \<open>\<^verbatim>\<open>webui.Handler\<close>: the file of the work directory when it is there and not empty, else the
  embedded page.\<close>

definition disk_or :: "fs \<Rightarrow> string \<Rightarrow> string \<Rightarrow> string" where
  "disk_or f path fallback =
     (case disk f path of Some b \<Rightarrow> if 0 < length b then b else fallback | None \<Rightarrow> fallback)"

definition webui_handler :: "env \<Rightarrow> handler" where
  "webui_handler e q w sv =
     (let webroot = path_join (sv_workDir sv) ''webroot'' in
      if rq_path q = ''/favicon.svg'' \<or> rq_path q = ''/favicon.ico'' then
        (write_chunk (Text (disk_or (sv_fs sv) (path_join webroot ''favicon.svg'') (favicon_svg e)))
           (set_header ''Cache-Control'' ''public, max-age=86400''
             (set_header ''Content-Type'' ''image/svg+xml'' w)), sv)
      else
        (write_chunk (Text (disk_or (sv_fs sv) (path_join webroot ''index.html'') (index_html e)))
           (set_header ''Content-Type'' ''text/html; charset=utf-8'' w), sv))"

subsection \<open>Handlers that change state\<close>

definition apply_dns_patch :: "dns_settings \<Rightarrow> config \<Rightarrow> config" where
  "apply_dns_patch d c =
     (let c1 = c\<lparr>CDNS := (CDNS c)\<lparr>DNS_Mode := NormalizeDNSMode (DS_Mode d)\<rparr>\<rparr>;
          c2 = (if DS_TimeoutSeconds d > 0
                then c1\<lparr>CDNS := (CDNS c1)\<lparr>DNS_TimeoutSec := DS_TimeoutSeconds d\<rparr>\<rparr> else c1) in
      if DNS_Mode (CDNS c2) = ''custom''
      then c2\<lparr>CDNS := (CDNS c2)\<lparr>DNS_Servers := DS_Servers d\<rparr>\<rparr> else c2)"

definition apply_hotspot_patch :: "hotspot_settings \<Rightarrow> config \<Rightarrow> config" where
  "apply_hotspot_patch h c =
     (let c1 = (case HS_Enabled h of None \<Rightarrow> c
                | Some b \<Rightarrow> c\<lparr>CHotspot := (CHotspot c)\<lparr>Hotspot_Enabled := b\<rparr>\<rparr>) in
      case HS_TCP h of None \<Rightarrow> c1
      | Some b \<Rightarrow> c1\<lparr>CHotspot := (CHotspot c1)\<lparr>Hotspot_TCP := b\<rparr>\<rparr>)"

definition apply_patch :: "config_patch \<Rightarrow> config \<Rightarrow> config" where
  "apply_patch p c =
     (let c1 = (case CP_DNS p of None \<Rightarrow> c | Some d \<Rightarrow> apply_dns_patch d c) in
      case CP_Hotspot p of None \<Rightarrow> c1 | Some h \<Rightarrow> apply_hotspot_patch h c1)"

definition handleConfig :: "env \<Rightarrow> handler" where
  "handleConfig e q w sv =
     (if rq_method q = ''GET'' then (writeV1OK (DConfig (GetConfig sv)) w, sv)
      else if rq_method q = ''POST'' \<or> rq_method q = ''PATCH'' then
        (case dec_patch e (rq_body q) of
           None \<Rightarrow> (writeV1Error 400 (decode_text e) w, sv)
         | Some p \<Rightarrow>
             let c = apply_patch p (GetConfig sv) in
             (case UpdateConfig e c sv of
                (Some err, sv') \<Rightarrow> (writeV1Error 500 (file_text e err) w, sv')
              | (None, sv') \<Rightarrow> (writeV1OK (DConfigUpdate c (CP_Restart p)) w, sv')))
      else (writeV1Error 405 ''GET, POST, or PATCH required'' w, sv))"

definition handleProfiles :: "env \<Rightarrow> handler" where
  "handleProfiles e q w sv =
     (case ReloadProfiles e sv of
        (Inl err, sv') \<Rightarrow> (writeV1Error 500 (file_text e err) w, sv')
      | (Inr r, sv') \<Rightarrow> (writeV1OK (DProfiles (view (sv_heap sv') r)) w, sv'))"

text \<open>The error of the reload is ignored here; the list is then empty, or what a failed decode left
  behind.\<close>

definition handleProfileCurrent :: "env \<Rightarrow> handler" where
  "handleProfileCurrent e q w sv =
     (case ReloadProfiles e sv of
        (res, sv') \<Rightarrow>
          let pf = (case res of
              Inl err \<Rightarrow> (if err = DecodeError then partial_pf e else \<lparr>SelectedID = '''', Profiles = []\<rparr>)
            | Inr r \<Rightarrow> view (sv_heap sv') r) in
          (case SelectedProfile pf of
             None \<Rightarrow> (writeV1Error 404 ''no selected profile'' w, sv')
           | Some p \<Rightarrow> (writeV1OK (DProfile p) w, sv')))"

text \<open>Reload, edit the slice in place, save; the first error is the reply. All three editing handlers
  have this shape, with their own edit, error text and reply.\<close>

definition edit_profiles ::
  "env \<Rightarrow> (heap \<Rightarrow> pf_ref \<Rightarrow> 'x option \<times> heap \<times> pf_ref) \<Rightarrow> ('x \<Rightarrow> string) \<Rightarrow> server
     \<Rightarrow> string option \<times> server" where
  "edit_profiles e edit text sv =
     (case ReloadProfiles e sv of
        (Inl err, sv1) \<Rightarrow> (Some (file_text e err), sv1)
      | (Inr r, sv1) \<Rightarrow>
          (case edit (sv_heap sv1) r of
             (Some x, h, _) \<Rightarrow> (Some (text x), sv1\<lparr>sv_heap := h\<rparr>)
           | (None, h, r') \<Rightarrow>
               (case StoreProfiles e r' (sv1\<lparr>sv_heap := h\<rparr>) of
                  (Some err, sv2) \<Rightarrow> (Some (file_text e err), sv2)
                | (None, sv2) \<Rightarrow> (None, sv2))))"

definition edit_reply :: "string option \<times> server \<Rightarrow> data \<Rightarrow> resp \<Rightarrow> resp \<times> server" where
  "edit_reply res d w =
     (case res of
        (Some err, sv) \<Rightarrow> (writeV1Error 400 err w, sv)
      | (None, sv) \<Rightarrow> (writeV1OK d w, sv))"

definition handleProfileSelect :: "env \<Rightarrow> handler" where
  "handleProfileSelect e q w sv =
     (if rq_method q \<noteq> ''POST'' then (writeV1Error 405 ''POST required'' w, sv)
      else
        (case dec_select e (rq_body q) of
           None \<Rightarrow> (writeV1Error 400 (decode_text e) w, sv)
         | Some (i, restart) \<Rightarrow>
             edit_reply (edit_profiles e (select_ref i) config_error_text sv)
               (DMap [(''selected_id'', VStr i), (''restart'', VBool restart)]) w))"

definition handleProfileDelete :: "env \<Rightarrow> handler" where
  "handleProfileDelete e q w sv =
     (if rq_method q \<noteq> ''POST'' then (writeV1Error 405 ''POST required'' w, sv)
      else
        (case dec_id e (rq_body q) of
           None \<Rightarrow> (writeV1Error 400 (decode_text e) w, sv)
         | Some i \<Rightarrow>
             edit_reply (edit_profiles e (delete_ref i) config_error_text sv)
               (DMap [(''deleted'', VStr i)]) w))"

definition handleProfileSave :: "env \<Rightarrow> handler" where
  "handleProfileSave e q w sv =
     (if rq_method q \<noteq> ''POST'' then (writeV1Error 405 ''POST required'' w, sv)
      else
        (case dec_save e (rq_body q) of
           None \<Rightarrow> (writeV1Error 400 (decode_text e) w, sv)
         | Some req \<Rightarrow>
             edit_reply
               (edit_profiles e (upsert_ref (spare e) (clock e div second) req) upsert_error_text sv)
               (DMap [(''selected_id'', VStr (Req_ID req)), (''restart'', VBool (Req_Restart req))]) w))"

definition handleControl :: "env \<Rightarrow> handler" where
  "handleControl e q w sv =
     (if rq_method q \<noteq> ''POST'' then (writeV1Error 405 ''POST required'' w, sv)
      else
        (case dec_id e (rq_body q) of
           None \<Rightarrow> (writeV1Error 400 (decode_text e) w, sv)
         | Some a \<Rightarrow>
             let action = TrimSpace (ToLower a) in
             (writeV1OK (DMap [(''action'', VStr action), (''status'', VStr ''acknowledged'')]) w,
              if sv_control sv then sv\<lparr>sv_actions := sv_actions sv @ [action]\<rparr> else sv)))"

definition handleLogs :: "env \<Rightarrow> handler" where
  "handleLogs e q w sv =
     (let parts = log_parts (rq_path q) in
      if length parts = 0 \<or> parts ! 0 = '''' then (writeV1Error 400 ''log name required'' w, sv)
      else
        let name = parts ! 0; path = log_path (sv_runDir sv) name in
        if length parts = 2 \<and> parts ! 1 = ''clear'' then
          (if rq_method q \<noteq> ''POST'' then (writeV1Error 405 ''POST required'' w, sv)
           else
             (case write_file path '''' (sv_fs sv) of
                (Some _, f) \<Rightarrow> (writeV1Error 500 (os_text e) w, sv\<lparr>sv_fs := f\<rparr>)
              | (None, f) \<Rightarrow> (writeV1OK (DMap [(''cleared'', VStr name)]) w, sv\<lparr>sv_fs := f\<rparr>)))
        else (serveLogFile (os_text e) (map_option length (disk (sv_fs sv) path)) (disk (sv_fs sv) path) w, sv))"

definition handleAutostart :: "env \<Rightarrow> handler" where
  "handleAutostart e q w sv =
     (let marker = path_join (sv_runDir sv) ''autostart'' in
      if rq_method q = ''GET'' then
        (writeV1OK (DMap [(''enabled'', VBool (disk (sv_fs sv) marker \<noteq> None))]) w, sv)
      else if rq_method q = ''POST'' \<or> rq_method q = ''PUT'' then
        (case dec_enabled e (rq_body q) of
           None \<Rightarrow> (writeV1Error 400 (decode_text e) w, sv)
         | Some b \<Rightarrow>
             (writeV1OK (DMap [(''enabled'', VBool b)]) w,
              if b then sv\<lparr>sv_fs := snd (write_file marker (''1'' @ [nl]) (sv_fs sv))\<rparr>
              else sv\<lparr>sv_fs := (sv_fs sv)\<lparr>disk := (disk (sv_fs sv))(marker := None)\<rparr>\<rparr>))
      else (writeV1Error 405 ''GET, POST, or PUT required'' w, sv))"

definition udp_note :: string where
  "udp_note = ''Check log for [iptables] === SSHC_MOUT chain === to see if MARK counter increased. '' @
     ''Then check UDP Flows counter'' @ [CHR 0x20, CHR 0xE2, CHR 0x80, CHR 0x94, CHR 0x20] @
     ''it should be > 0 if pipeline works.''"

definition handleTestUDP :: "env \<Rightarrow> handler" where
  "handleTestUDP e q w sv =
     (let target = (if rq_target q = '''' then ''1.1.1.1:53'' else rq_target q) in
      case resolve_udp e target of
        Some err \<Rightarrow> (writeV1Error 400 err w, sv)
      | None \<Rightarrow>
          (case dial_udp e target of
             Some err \<Rightarrow>
               (writeV1OK (DMap [(''ok'', VBool False), (''error'', VStr err), (''target'', VStr target)]) w, sv)
           | None \<Rightarrow>
               (writeV1OK (DMap [(''ok'', VBool True), (''target'', VStr target), (''packets_sent'', VInt 5),
                                 (''note'', VStr udp_note)]) w,
                sv\<lparr>sv_udp := sv_udp sv @ replicate 5 ''SSHC-UDP-TEST''\<rparr>)))"

subsection \<open>The server\<close>

fun handle :: "env \<Rightarrow> route \<Rightarrow> handler" where
  "handle e Health = handleHealth"
| "handle e Latency = handleLatency e"
| "handle e Status = handleStatus e"
| "handle e Diagnostics = handleDiagnostics e"
| "handle e ConfigRoute = handleConfig e"
| "handle e ProfilesRoute = handleProfiles e"
| "handle e ProfileCurrent = handleProfileCurrent e"
| "handle e ProfileSelect = handleProfileSelect e"
| "handle e ProfileDelete = handleProfileDelete e"
| "handle e ProfileSave = handleProfileSave e"
| "handle e Control = handleControl e"
| "handle e Logs = handleLogs e"
| "handle e Autostart = handleAutostart e"
| "handle e PublicIP = handlePublicIP e"
| "handle e TestUDP = handleTestUDP e"
| "handle e UDPCounters = handleUDPCounters e"
| "handle e Events = handleEvents"
| "handle e CaptivePortal = handleCaptivePortal"
| "handle e WebUI = webui_handler e"

definition serve :: "env \<Rightarrow> http_request \<Rightarrow> server \<Rightarrow> resp \<times> server" where
  "serve e q sv =
     withCORS (rq_method q)
       (\<lambda>w sv. case mux (rq_path q) of
                 Some r \<Rightarrow> handle e r q w sv
               | None \<Rightarrow> (http_error ''404 page not found'' 404 w, sv))
       new_resp sv"

section \<open>Lemmas\<close>

subsection \<open>Replies\<close>

definition cors_in :: "(string \<times> string) list \<Rightarrow> bool" where
  "cors_in hs \<longleftrightarrow> list_all (\<lambda>(k, v). map_of hs k = Some v) cors_headers"

text \<open>A writer that nothing was written to, with the CORS headers set.\<close>

definition fresh_resp :: "resp \<Rightarrow> bool" where
  "fresh_resp w \<longleftrightarrow> code w = None \<and> body w = [] \<and> cors_in (hdr w)"

definition content_type :: "resp \<Rightarrow> string option" where
  "content_type w = map_of (sent_hdr w) ''Content-Type''"

text \<open>A complete reply: a status, the CORS headers, and at most one chunk; a JSON chunk is an envelope
  whose flag, data and error agree with the status.\<close>

fun chunk_ok :: "resp \<Rightarrow> chunk \<Rightarrow> bool" where
  "chunk_ok w (Json en) =
     (APIVersion en = api_version \<and> (OK en \<longleftrightarrow> code w = Some 200) \<and> (OK en \<longleftrightarrow> Data en \<noteq> None) \<and>
      (OK en \<longrightarrow> Error en = '''' \<and> content_type w = Some ''application/json'') \<and>
      (\<not> OK en \<longrightarrow> content_type w = None))"
| "chunk_ok w (Text _) = (content_type w \<noteq> None)"

definition good_reply :: "resp \<Rightarrow> bool" where
  "good_reply w \<longleftrightarrow> code w \<noteq> None \<and> cors_in (sent_hdr w) \<and> length (body w) \<le> 1 \<and> list_all (chunk_ok w) (body w)"

lemma cors_in_store:
  "cors_in hs \<Longrightarrow> k \<notin> fst ` set cors_headers \<Longrightarrow> cors_in (map_store k v hs)"
  unfolding cors_in_def list_all_iff by (fastforce simp: image_iff)

lemma cors_keys [simp]:
  "''Content-Type'' \<notin> fst ` set cors_headers" "''X-Content-Type-Options'' \<notin> fst ` set cors_headers"
  "''Cache-Control'' \<notin> fst ` set cors_headers" "''Connection'' \<notin> fst ` set cors_headers"
  "''X-Accel-Buffering'' \<notin> fst ` set cors_headers"
  by (simp_all add: cors_headers_def)

lemma fresh_set_header [simp]:
  "fresh_resp w \<Longrightarrow> k \<notin> fst ` set cors_headers \<Longrightarrow> fresh_resp (set_header k v w)"
  by (simp add: fresh_resp_def cors_in_store)

lemma good_writeV1OK: "fresh_resp w \<Longrightarrow> good_reply (writeV1OK d w)"
  using writeV1OK_fresh [of w d]
  by (simp add: fresh_resp_def good_reply_def content_type_def cors_in_store)

lemma good_writeV1Error:
  "fresh_resp w \<Longrightarrow> map_of (hdr w) ''Content-Type'' = None \<Longrightarrow> c \<noteq> 200 \<Longrightarrow> good_reply (writeV1Error c err w)"
  using writeV1Error_fresh [of w c err]
  by (simp add: fresh_resp_def good_reply_def content_type_def)

lemma good_http_error: "fresh_resp w \<Longrightarrow> good_reply (http_error msg c w)"
  by (simp add: http_error_def write_chunk_def write_header_def good_reply_def content_type_def
      fresh_resp_def cors_in_store Let_def)

lemma good_write_header: "fresh_resp w \<Longrightarrow> good_reply (write_header c w)"
  by (simp add: write_header_def good_reply_def fresh_resp_def)

lemma good_write_text:
  "fresh_resp w \<Longrightarrow> map_of (hdr w) ''Content-Type'' \<noteq> None \<Longrightarrow> good_reply (write_chunk (Text t) w)"
  by (simp add: write_chunk_def write_header_def good_reply_def fresh_resp_def content_type_def Let_def)

lemmas good_intros = good_writeV1OK good_writeV1Error good_http_error good_write_header good_write_text

lemma good_serveLogFile:
  "fresh_resp w \<Longrightarrow> good_reply (serveLogFile txt st c w)"
  by (auto simp: serveLogFile_def Let_def intro!: good_intros split: option.split)

lemma handle_good:
  assumes "fresh_resp w" "map_of (hdr w) ''Content-Type'' = None"
  shows "good_reply (fst (handle e r q w sv))"
proof -
  note d = handleHealth_def handleStatus_def handleDiagnostics_def handleLatency_def handlePublicIP_def
    handleUDPCounters_def handleCaptivePortal_def handleEvents_def webui_handler_def handleConfig_def
    handleProfiles_def handleProfileCurrent_def edit_reply_def handleProfileSelect_def
    handleProfileDelete_def handleProfileSave_def handleControl_def handleLogs_def handleAutostart_def
    handleTestUDP_def
  show ?thesis
    by (cases r)
      (auto simp: d Let_def assms intro!: good_intros good_serveLogFile
        split: sum.split prod.split option.split)
qed

lemma cors_start:
  "fresh_resp (fold (\<lambda>(k, v). set_header k v) cors_headers new_resp)"
  "map_of (hdr (fold (\<lambda>(k, v). set_header k v) cors_headers new_resp)) ''Content-Type'' = None"
  by (simp_all add: cors_headers_def new_resp_def fresh_resp_def cors_in_def set_header_def)

lemma serve_good: "good_reply (fst (serve e q sv))"
  by (auto simp: serve_def withCORS_def Let_def cors_start intro!: good_write_header handle_good good_http_error
      split: option.split)

text \<open>A property of the state that every handler keeps is kept by \<open>serve\<close>.\<close>

lemma serve_keeps:
  assumes "P sv"
    and "\<And>r w. fresh_resp w \<Longrightarrow> mux (rq_path q) = Some r \<Longrightarrow> P (snd (handle e r q w sv))"
  shows "P (snd (serve e q sv))"
  using assms(1) assms(2) [OF cors_start(1)]
  by (auto simp: serve_def withCORS_def Let_def split: option.split)

subsection \<open>Reads change nothing\<close>

definition same_files :: "server \<Rightarrow> server \<Rightarrow> bool" where
  "same_files sv sv' \<longleftrightarrow>
     sv_fs sv' = sv_fs sv \<and> sv_cfg sv' = sv_cfg sv \<and> sv_actions sv' = sv_actions sv \<and> sv_state sv' = sv_state sv"

lemma same_files_refl [simp]: "same_files sv sv"
  by (simp add: same_files_def)

lemma ReloadProfiles_same: "ReloadProfiles e sv = (x, sv') \<Longrightarrow> same_files sv sv'"
  by (auto simp: ReloadProfiles_def same_files_def Let_def split: sum.splits prod.splits)

lemma handle_get_same:
  assumes "rq_method q = ''GET''"
  shows "same_files sv (snd (handle e r q w sv))"
proof (cases r)
  case ProfilesRoute
  then show ?thesis
    by (auto simp: handleProfiles_def dest: ReloadProfiles_same split: sum.split prod.split)
next
  case ProfileCurrent
  then show ?thesis
    by (auto simp: handleProfileCurrent_def Let_def dest: ReloadProfiles_same split: option.split prod.split)
next
  case TestUDP
  then show ?thesis by (auto simp: handleTestUDP_def same_files_def Let_def split: option.split)
next
  case Latency
  then show ?thesis by (auto simp: handleLatency_def Let_def split: sum.split)
next
  case PublicIP
  then show ?thesis by (auto simp: handlePublicIP_def Let_def split: sum.split prod.split option.split)
qed (simp_all add: assms handleHealth_def handleStatus_def handleDiagnostics_def Let_def
    handleUDPCounters_def handleCaptivePortal_def handleEvents_def webui_handler_def handleConfig_def
    handleProfileSelect_def handleProfileDelete_def handleProfileSave_def handleControl_def handleLogs_def
    handleAutostart_def)

lemma serve_get_same: "rq_method q = ''GET'' \<Longrightarrow> same_files sv (snd (serve e q sv))"
  by (rule serve_keeps) (simp_all add: handle_get_same)

subsection \<open>Editing the profiles\<close>

text \<open>The list on disk, as the next request will read it.\<close>

definition stored :: "env \<Rightarrow> server \<Rightarrow> file_error + profiles_file" where
  "stored e sv = LoadProfiles (dec_pf e) (sv_pfPath sv) (sv_fs sv)"

definition pf_codec :: "env \<Rightarrow> bool" where
  "pf_codec e \<longleftrightarrow> (\<forall>pf. codec_ok (enc_pf e) (dec_pf e) pf)"

lemma ReloadProfiles_stored:
  "ReloadProfiles e sv = (Inr r, sv') \<Longrightarrow>
     stored e sv = Inr (view (sv_heap sv') r) \<and> ref_ok (sv_heap sv') r \<and> sv_pf sv' = Some r \<and>
     sv_fs sv' = sv_fs sv \<and> sv_pfPath sv' = sv_pfPath sv \<and> stored e sv' = stored e sv"
  by (auto simp: ReloadProfiles_def stored_def alloc_def ref_ok_def Let_def
      split: sum.splits intro!: profiles_file_eqI)

lemma ReloadProfiles_error:
  "ReloadProfiles e sv = (Inl err, sv') \<Longrightarrow> sv' = sv \<and> stored e sv = Inl err"
  by (auto simp: ReloadProfiles_def stored_def Let_def split: sum.splits prod.splits)

lemma StoreProfiles_ok:
  assumes "pf_codec e" "StoreProfiles e r sv = (None, sv')"
  shows "stored e sv' = Inr (view (sv_heap sv) r)" "GetProfiles sv' = view (sv_heap sv) r"
    "sv_pfPath sv' = sv_pfPath sv" "sv_cfg sv' = sv_cfg sv"
  using assms prof_store.save_ok [of "enc_pf e" "sv_pfPath sv" "view (sv_heap sv) r" "sv_fs sv" _ "dec_pf e"]
  by (auto simp: StoreProfiles_def stored_def GetProfiles_def pf_codec_def split: prod.splits option.splits)

lemma StoreProfiles_err:
  assumes "StoreProfiles e r sv = (Some err, sv')"
  shows "stored e sv' = stored e sv" "sv_pfPath sv' = sv_pfPath sv" "sv_cfg sv' = sv_cfg sv"
  using assms prof_store.save_err [of "enc_pf e" "sv_pfPath sv" "view (sv_heap sv) r" "sv_fs sv" err _ "dec_pf e"]
  by (auto simp: StoreProfiles_def stored_def split: prod.splits option.splits)

subsection \<open>Which files a route writes\<close>

fun touched :: "server \<Rightarrow> route \<Rightarrow> string \<Rightarrow> bool" where
  "touched sv ConfigRoute p = (p = sv_cfgPath sv \<or> p = sv_cfgPath sv @ ''.tmp'')"
| "touched sv ProfileSelect p = (p = sv_pfPath sv \<or> p = sv_pfPath sv @ ''.tmp'')"
| "touched sv ProfileDelete p = (p = sv_pfPath sv \<or> p = sv_pfPath sv @ ''.tmp'')"
| "touched sv ProfileSave p = (p = sv_pfPath sv \<or> p = sv_pfPath sv @ ''.tmp'')"
| "touched sv Logs p = (\<exists>name. slash \<notin> set name \<and> p = log_path (sv_runDir sv) name)"
| "touched sv Autostart p = (p = path_join (sv_runDir sv) ''autostart'')"
| "touched sv _ p = False"

text \<open>The fields that no handler changes.\<close>

definition same_setup :: "server \<Rightarrow> server \<Rightarrow> bool" where
  "same_setup sv sv' \<longleftrightarrow>
     sv_cfgPath sv' = sv_cfgPath sv \<and> sv_pfPath sv' = sv_pfPath sv \<and> sv_workDir sv' = sv_workDir sv \<and>
     sv_runDir sv' = sv_runDir sv \<and> sv_addr sv' = sv_addr sv \<and> sv_control sv' = sv_control sv \<and>
     sv_state sv' = sv_state sv"

lemma same_setup_refl [simp]: "same_setup sv sv"
  by (simp add: same_setup_def)

lemma ReloadProfiles_setup: "ReloadProfiles e sv = (x, sv') \<Longrightarrow> same_setup sv sv' \<and> sv_fs sv' = sv_fs sv"
  by (auto simp: ReloadProfiles_def same_setup_def Let_def split: sum.splits prod.splits)

lemma save_doc_frame:
  "save_doc mar p d f = (x, f') \<Longrightarrow> q \<noteq> p \<longrightarrow> q \<noteq> p @ ''.tmp'' \<longrightarrow> disk f' q = disk f q"
  using save_doc_other [of q p mar d f] by simp

lemma edit_profiles_frame:
  assumes "edit_profiles e edit text sv = (res, sv')"
  shows "same_setup sv sv' \<and> sv_cfg sv' = sv_cfg sv \<and>
    (p \<noteq> sv_pfPath sv \<longrightarrow> p \<noteq> sv_pfPath sv @ ''.tmp'' \<longrightarrow> disk (sv_fs sv') p = disk (sv_fs sv) p)"
proof -
  obtain y sv1 where rl: "ReloadProfiles e sv = (y, sv1)" by (metis surj_pair)
  note rl' = ReloadProfiles_setup [OF rl] ReloadProfiles_same [OF rl]
  have st2: "same_setup s s' \<and> sv_cfg s' = sv_cfg s \<and>
      (p \<noteq> sv_pfPath s \<longrightarrow> p \<noteq> sv_pfPath s @ ''.tmp'' \<longrightarrow> disk (sv_fs s') p = disk (sv_fs s) p)"
    if "StoreProfiles e r s = (err, s')" for r s err s'
    using that
    by (auto simp: StoreProfiles_def SaveProfiles_def same_setup_def split: prod.splits option.splits
        dest!: save_doc_frame [where q = p])
  show ?thesis
    using assms rl rl'
    by (auto simp: edit_profiles_def same_setup_def same_files_def split: sum.splits prod.splits option.splits
        dest!: st2)
qed

lemma handle_setup: "same_setup sv (snd (handle e r q w sv))"
proof (cases r)
  case ProfilesRoute
  then show ?thesis
    by (auto simp: handleProfiles_def dest: ReloadProfiles_setup split: sum.split prod.split)
next
  case ProfileCurrent
  then show ?thesis
    by (auto simp: handleProfileCurrent_def Let_def dest: ReloadProfiles_setup split: option.split prod.split)
next
  case ConfigRoute
  then show ?thesis
    by (auto simp: handleConfig_def UpdateConfig_def same_setup_def Let_def split: option.split prod.split)
next
  case Latency
  then show ?thesis by (auto simp: handleLatency_def Let_def split: sum.split)
next
  case PublicIP
  then show ?thesis by (auto simp: handlePublicIP_def Let_def split: sum.split prod.split option.split)
qed (auto simp: handleHealth_def handleStatus_def handleDiagnostics_def Let_def same_setup_def
    handleUDPCounters_def handleCaptivePortal_def handleEvents_def webui_handler_def handleTestUDP_def
    handleProfileSelect_def handleProfileDelete_def handleProfileSave_def handleControl_def handleLogs_def
    handleAutostart_def edit_reply_def dest!: edit_profiles_frame split: option.split prod.split)

lemma log_part_touched:
  "log_parts path \<noteq> [] \<Longrightarrow> slash \<notin> set (log_parts path ! 0)"
  by (rule log_parts_no_slash [of _ path]) simp

lemma handle_disk:
  assumes "\<not> touched sv r p"
  shows "disk (sv_fs (snd (handle e r q w sv))) p = disk (sv_fs sv) p"
proof (cases r)
  case ProfilesRoute
  then show ?thesis
    by (auto simp: handleProfiles_def dest: ReloadProfiles_setup split: sum.split prod.split)
next
  case ProfileCurrent
  then show ?thesis
    by (auto simp: handleProfileCurrent_def Let_def dest: ReloadProfiles_setup split: option.split prod.split)
next
  case ConfigRoute
  then show ?thesis
    using assms
    by (auto dest!: save_doc_frame [where q = p] simp: handleConfig_def UpdateConfig_def SaveConfig_def Let_def split: option.split prod.splits)
next
  case Logs
  then show ?thesis
    using assms log_part_touched [of "rq_path q"]
    by (auto simp: handleLogs_def write_file_def Let_def split: option.split prod.split)
next
  case Autostart
  then show ?thesis
    using assms by (auto simp: handleAutostart_def write_file_def Let_def split: option.split)
next
  case Latency
  then show ?thesis by (auto simp: handleLatency_def Let_def split: sum.split)
next
  case PublicIP
  then show ?thesis by (auto simp: handlePublicIP_def Let_def split: sum.split prod.split option.split)
next
  case ProfileSelect
  then show ?thesis
    using assms by (auto simp: handleProfileSelect_def edit_reply_def dest!: edit_profiles_frame [where p = p] split: option.split prod.split)
next
  case ProfileDelete
  then show ?thesis
    using assms by (auto simp: handleProfileDelete_def edit_reply_def dest!: edit_profiles_frame [where p = p] split: option.split prod.split)
next
  case ProfileSave
  then show ?thesis
    using assms by (auto simp: handleProfileSave_def edit_reply_def dest!: edit_profiles_frame [where p = p] split: option.split prod.split)
qed (auto simp: handleHealth_def handleStatus_def handleDiagnostics_def Let_def
    handleUDPCounters_def handleCaptivePortal_def handleEvents_def webui_handler_def handleTestUDP_def
    handleControl_def split: option.split)

subsection \<open>The invariant of the server\<close>

text \<open>The setup of the daemon: an absolute work directory with the logs below it, and two documents
  that are different files and not among the logs.\<close>

definition doc_path_ok :: "server \<Rightarrow> string \<Rightarrow> bool" where
  "doc_path_ok sv p \<longleftrightarrow> \<not> HasSuffix p ''.log'' \<and> p \<noteq> path_join (sv_runDir sv) ''autostart''"

definition paths_ok :: "server \<Rightarrow> bool" where
  "paths_ok sv \<longleftrightarrow>
     HasPrefix (sv_workDir sv) ''/'' \<and> sv_runDir sv = path_join (sv_workDir sv) ''run'' \<and>
     doc_path_ok sv (sv_cfgPath sv) \<and> doc_path_ok sv (sv_pfPath sv) \<and>
     sv_cfgPath sv \<noteq> sv_pfPath sv \<and> sv_cfgPath sv \<noteq> sv_pfPath sv @ ''.tmp'' \<and>
     sv_pfPath sv \<noteq> sv_cfgPath sv @ ''.tmp''"

lemma paths_ok_setup: "same_setup sv sv' \<Longrightarrow> paths_ok sv' = paths_ok sv"
  by (simp add: paths_ok_def doc_path_ok_def same_setup_def)

lemma log_path_suffix:
  "paths_ok sv \<Longrightarrow> slash \<notin> set name \<Longrightarrow> HasSuffix (log_path (sv_runDir sv) name) ''.log''"
  by (simp add: paths_ok_def log_path_confined HasSuffix_def suffix_def)

lemma touched_pf:
  assumes "paths_ok sv" "touched sv r (sv_pfPath sv)"
  shows "r \<in> {ProfileSelect, ProfileDelete, ProfileSave}"
  using assms log_path_suffix [OF assms(1)]
  by (cases r) (auto simp: paths_ok_def doc_path_ok_def)

lemma touched_cfg:
  assumes "paths_ok sv" "touched sv r (sv_cfgPath sv)"
  shows "r = ConfigRoute"
  using assms log_path_suffix [OF assms(1)]
  by (cases r) (auto simp: paths_ok_def doc_path_ok_def)

lemma stored_disk:
  "sv_pfPath sv' = sv_pfPath sv \<Longrightarrow> disk (sv_fs sv') (sv_pfPath sv) = disk (sv_fs sv) (sv_pfPath sv) \<Longrightarrow>
   stored e sv' = stored e sv"
  by (simp add: stored_def LoadProfiles_def load_doc_def)

lemma handle_stored_other:
  assumes "paths_ok sv" "r \<notin> {ProfileSelect, ProfileDelete, ProfileSave}"
  shows "stored e (snd (handle e r q w sv)) = stored e sv"
proof (rule stored_disk)
  show "sv_pfPath (snd (handle e r q w sv)) = sv_pfPath sv"
    using handle_setup [of sv e r q w] by (simp add: same_setup_def)
  show "disk (sv_fs (snd (handle e r q w sv))) (sv_pfPath sv) = disk (sv_fs sv) (sv_pfPath sv)"
    using assms touched_pf [OF assms(1)] by (intro handle_disk) blast
qed

text \<open>The three edits as one: the operation on lists that a request of an editing route asks for.\<close>

definition profile_op :: "env \<Rightarrow> route \<Rightarrow> string \<Rightarrow> (profiles_file \<Rightarrow> bool \<times> profiles_file) option" where
  "profile_op e r b =
     (if r = ProfileSelect then
        map_option (\<lambda>(i, _). \<lambda>pf. case SelectByID i pf of (x, pf') \<Rightarrow> (x = None, pf')) (dec_select e b)
      else if r = ProfileDelete then
        map_option (\<lambda>i pf. case DeleteProfile i pf of (x, pf') \<Rightarrow> (x = None, pf')) (dec_id e b)
      else if r = ProfileSave then
        map_option (\<lambda>req pf. case upsertProfile (clock e div second) req pf of (x, pf') \<Rightarrow> (x = None, pf'))
          (dec_save e b)
      else None)"

lemma edit_reply_code:
  "fresh_resp w \<Longrightarrow> code (fst (edit_reply (res, sv') d w)) = Some 200 \<longleftrightarrow> res = None"
  by (cases res) (simp_all add: edit_reply_def fresh_resp_def writeV1OK_fresh writeV1Error_fresh)

lemma edit_reply_snd: "snd (edit_reply (res, sv') d w) = sv'"
  by (cases res) (simp_all add: edit_reply_def)

text \<open>What a reply of an editing route says about the stored list.\<close>

definition edit_effect :: "env \<Rightarrow> route \<Rightarrow> string \<Rightarrow> server \<Rightarrow> resp \<Rightarrow> server \<Rightarrow> bool" where
  "edit_effect e r b sv w' sv' \<longleftrightarrow>
     (if code w' = Some 200
      then \<exists>f pf pf'. profile_op e r b = Some f \<and> stored e sv = Inr pf \<and> f pf = (True, pf') \<and>
             stored e sv' = Inr pf' \<and> GetProfiles sv' = pf'
      else stored e sv' = stored e sv)"

text \<open>The interface between the handlers and the slices: an edit in place that refines an operation on
  lists. Success stores exactly the operation's result, in memory and on disk, and failure leaves
  the disk as it was.\<close>

locale list_edit =
  fixes edit :: "heap \<Rightarrow> pf_ref \<Rightarrow> 'x option \<times> heap \<times> pf_ref"
    and f :: "profiles_file \<Rightarrow> 'x option \<times> profiles_file"
  assumes refines: "ref_ok h r \<Longrightarrow> edit h r = (x, h', r') \<Longrightarrow> f (view h r) = (x, view h' r')"
begin

lemma edit_profiles_spec:
  assumes codec: "pf_codec e" and run: "edit_profiles e edit txt sv = (res, sv')"
  shows "case res of
      None \<Rightarrow> \<exists>pf pf'. stored e sv = Inr pf \<and> f pf = (None, pf') \<and> stored e sv' = Inr pf' \<and> GetProfiles sv' = pf'
    | Some _ \<Rightarrow> stored e sv' = stored e sv"
proof (cases "ReloadProfiles e sv")
  case (Pair y sv1)
  show ?thesis
  proof (cases y)
    case (Inl err)
    then show ?thesis using run Pair ReloadProfiles_error [of e sv err sv1] by (auto simp: edit_profiles_def)
  next
    case (Inr r)
    note rl = ReloadProfiles_stored [OF Pair [unfolded Inr]]
    obtain x h r' where ed: "edit (sv_heap sv1) r = (x, h, r')" by (metis surj_pair)
    have ref: "f (view (sv_heap sv1) r) = (x, view h r')" using refines [OF _ ed] rl by blast
    obtain s sv2 where st: "StoreProfiles e r' (sv1\<lparr>sv_heap := h\<rparr>) = (s, sv2)" by (metis surj_pair)
    have eq: "stored e (sv1\<lparr>sv_heap := h\<rparr>) = stored e sv" using rl by (simp add: stored_def)
    show ?thesis
    proof (cases x)
      case (Some err)
      then show ?thesis using run Pair Inr ed eq by (auto simp: edit_profiles_def)
    next
      case None
      then show ?thesis
      proof (cases s)
        case (Some err)
        then show ?thesis
          using run Pair Inr ed None st eq StoreProfiles_err [OF st [unfolded Some]]
          by (auto simp: edit_profiles_def)
      next
        case no_error: None
        then show ?thesis
          using run Pair Inr ed None st rl ref StoreProfiles_ok [OF codec st [unfolded no_error]]
          by (auto simp: edit_profiles_def)
      qed
    qed
  qed
qed

lemma edit_effect_reply:
  assumes "pf_codec e" "fresh_resp w"
    and op: "profile_op e r b = Some (\<lambda>pf. case f pf of (x, pf') \<Rightarrow> (x = None, pf'))"
  shows "edit_effect e r b sv (fst (edit_reply (edit_profiles e edit txt sv) d w))
           (snd (edit_reply (edit_profiles e edit txt sv) d w))"
proof -
  obtain res sv1 where ed: "edit_profiles e edit txt sv = (res, sv1)" by (metis surj_pair)
  show ?thesis
    using edit_profiles_spec [OF assms(1) ed] edit_reply_snd [of res sv1 d w] edit_reply_code [OF assms(2), of res sv1 d]
    by (cases res) (auto simp: edit_effect_def ed op)
qed

end

interpretation selecting: list_edit "select_ref i" "SelectByID i" for i
  by unfold_locales (rule select_ref_refines(1))

interpretation deleting: list_edit "delete_ref i" "DeleteProfile i" for i
  by unfold_locales (rule delete_ref_refines(1))

interpretation saving: list_edit "upsert_ref sp now req" "upsertProfile now req" for sp now req
  by unfold_locales (rule upsert_ref_refines [THEN conjunct1])

lemma edit_effect_error:
  "fresh_resp w \<Longrightarrow> c \<noteq> 200 \<Longrightarrow> edit_effect e r b sv (writeV1Error c t w) sv"
  by (simp add: edit_effect_def fresh_resp_def writeV1Error_fresh)

lemma handle_edit:
  assumes codec: "pf_codec e" and r: "r \<in> {ProfileSelect, ProfileDelete, ProfileSave}"
    and w: "fresh_resp w"
  shows "edit_effect e r (rq_body q) sv (fst (handle e r q w sv)) (snd (handle e r q w sv))"
proof -
  consider "r = ProfileSelect" | "r = ProfileDelete" | "r = ProfileSave" using r by blast
  then show ?thesis
  proof cases
    case 1
    then show ?thesis
      by (auto simp: handleProfileSelect_def profile_op_def edit_effect_error w split: option.split
          intro!: selecting.edit_effect_reply [OF codec w])
  next
    case 2
    then show ?thesis
      by (auto simp: handleProfileDelete_def profile_op_def edit_effect_error w split: option.split
          intro!: deleting.edit_effect_reply [OF codec w])
  next
    case 3
    then show ?thesis
      by (auto simp: handleProfileSave_def profile_op_def edit_effect_error w split: option.split
          intro!: saving.edit_effect_reply [OF codec w])
  qed
qed

lemma profile_op_wf:
  assumes op: "profile_op e r b = Some f" and wf: "wf_profiles pf" and len: "length (Profiles pf) < 9999"
    and run: "f pf = (True, pf')"
  shows "wf_profiles pf' \<and> length (Profiles pf') \<le> Suc (length (Profiles pf))"
proof -
  have d: "distinct (map P_ID (Profiles pf))" using wf by (simp add: wf_profiles_def)
  consider (sel) i where "SelectByID i pf = (None, pf')" | (del) i where "DeleteProfile i pf = (None, pf')"
    | (up) req where "upsertProfile (clock e div second) req pf = (None, pf')"
    using op run by (auto simp: profile_op_def split: if_splits prod.splits)
  then show ?thesis
  proof cases
    case (sel i)
    then have "map unflag (Profiles pf') = map unflag (Profiles pf)" using SelectByID_unflag [of i pf] by simp
    then show ?thesis using wf_SelectByID [OF d sel] by (metis le_SucI length_map order_refl)
  next
    case (del i)
    have "length (Profiles pf') \<le> length (Profiles pf)"
      using del by (auto simp: DeleteProfile_def split: option.splits)
    then show ?thesis using wf_DeleteProfile [OF wf del] by simp
  next
    case (up req)
    note u = upsertProfile_ok [OF wf len up]
    then have "length (Profiles pf') = length (upserted (clock e div second) req pf)" by (metis length_map)
    also have "\<dots> \<le> Suc (length (Profiles pf))" by (simp add: upserted_def split: option.split)
    finally show ?thesis using u by simp
  qed
qed

definition stored_wf :: "env \<Rightarrow> nat \<Rightarrow> server \<Rightarrow> bool" where
  "stored_wf e n sv \<longleftrightarrow>
     pred_sum (\<lambda>_. False) (\<lambda>pf. wf_profiles pf \<and> length (Profiles pf) \<le> n) (stored e sv)"

lemma edit_effect_wf:
  assumes "edit_effect e r b sv w' sv'" "stored_wf e n sv" "n < 9999"
  shows "stored_wf e (Suc n) sv'"
proof (cases "code w' = Some 200")
  case True
  then obtain f pf pf' where f: "profile_op e r b = Some f" "stored e sv = Inr pf" "f pf = (True, pf')"
      "stored e sv' = Inr pf'"
    using assms(1) by (auto simp: edit_effect_def)
  then have "wf_profiles pf" "length (Profiles pf) \<le> n" using assms(2) by (simp_all add: stored_wf_def)
  then show ?thesis using profile_op_wf [OF f(1) _ _ f(3)] assms(3) f(4) by (simp add: stored_wf_def)
next
  case False
  then show ?thesis using assms by (auto simp: edit_effect_def stored_wf_def elim: pred_sum.cases)
qed

lemma stored_wf_mono: "stored_wf e n sv \<Longrightarrow> stored e sv' = stored e sv \<Longrightarrow> stored_wf e (Suc n) sv'"
  by (auto simp: stored_wf_def elim: pred_sum.cases)

text \<open>The configuration in memory is the one on disk.\<close>

definition cfg_agrees :: "env \<Rightarrow> server \<Rightarrow> bool" where
  "cfg_agrees e sv \<longleftrightarrow>
     pred_option (\<lambda>c. normalized c \<and> LoadConfig (dec_cfg e) (sv_cfgPath sv) (sv_fs sv) = Inr c) (sv_cfg sv) \<and>
     sv_cfg sv \<noteq> None"

definition cfg_codec :: "env \<Rightarrow> bool" where
  "cfg_codec e \<longleftrightarrow> (\<forall>c. codec_ok (enc_cfg e) (dec_cfg e) c)"

lemma apply_patch_normalized: "normalized c \<Longrightarrow> normalized (apply_patch p c)"
  using NormalizeDNSMode_range
  by (auto simp: apply_patch_def apply_dns_patch_def apply_hotspot_patch_def normalized_def Let_def
      split: option.split) (metis list.distinct(1) insertE singletonD)+

lemma LoadConfig_disk:
  "disk f' p = disk f p \<Longrightarrow> LoadConfig unm p f' = LoadConfig unm p f"
  by (simp add: LoadConfig_def load_doc_def)

lemma UpdateConfig_agrees:
  assumes "cfg_codec e" "cfg_agrees e sv" "normalized c" "UpdateConfig e c sv = (x, sv')"
  shows "cfg_agrees e sv'"
  using assms cfg_store.save_ok [of "enc_cfg e" "sv_cfgPath sv" c "sv_fs sv" _ "dec_cfg e"]
    cfg_store.save_err [of "enc_cfg e" "sv_cfgPath sv" c "sv_fs sv" _ _ "dec_cfg e"] Normalize_id [of c]
  by (auto simp: UpdateConfig_def cfg_agrees_def cfg_codec_def split: prod.splits option.splits)

lemma handle_cfg_same:
  assumes "r \<noteq> ConfigRoute"
  shows "sv_cfg (snd (handle e r q w sv)) = sv_cfg sv"
proof (cases r)
  case ProfilesRoute
  then show ?thesis
    by (auto simp: handleProfiles_def same_files_def dest!: ReloadProfiles_same split: sum.split prod.split)
next
  case ProfileCurrent
  then show ?thesis
    by (auto simp: handleProfileCurrent_def Let_def same_files_def dest!: ReloadProfiles_same
        split: option.split prod.split)
next
  case Latency
  then show ?thesis by (auto simp: handleLatency_def Let_def split: sum.split)
next
  case PublicIP
  then show ?thesis by (auto simp: handlePublicIP_def Let_def split: sum.split prod.split option.split)
qed (use assms in \<open>auto simp: handleHealth_def handleStatus_def handleDiagnostics_def Let_def
    handleUDPCounters_def handleCaptivePortal_def handleEvents_def webui_handler_def handleTestUDP_def
    handleProfileSelect_def handleProfileDelete_def handleProfileSave_def handleControl_def handleLogs_def
    handleAutostart_def edit_reply_def dest!: edit_profiles_frame split: option.split prod.split\<close>)

lemma handle_cfg_agrees:
  assumes "cfg_codec e" "paths_ok sv" "cfg_agrees e sv"
  shows "cfg_agrees e (snd (handle e r q w sv))"
proof (cases "r = ConfigRoute")
  case True
  have n: "normalized (apply_patch p (GetConfig sv))" for p
    using assms(3) by (auto simp: cfg_agrees_def GetConfig_def intro: apply_patch_normalized)
  have "cfg_agrees e (snd (UpdateConfig e (apply_patch p (GetConfig sv)) sv))" for p
    by (rule UpdateConfig_agrees [OF assms(1,3) n surjective_pairing])
  then show ?thesis
    using True assms(3)
    by (simp add: handleConfig_def Let_def split: option.split prod.split) (metis snd_conv)
next
  case False
  have "LoadConfig (dec_cfg e) (sv_cfgPath sv) (sv_fs (snd (handle e r q w sv))) =
      LoadConfig (dec_cfg e) (sv_cfgPath sv) (sv_fs sv)"
    using False touched_cfg [OF assms(2)] by (intro LoadConfig_disk handle_disk) blast
  moreover have "sv_cfgPath (snd (handle e r q w sv)) = sv_cfgPath sv"
    using handle_setup [of sv e r q w] by (simp add: same_setup_def)
  ultimately show ?thesis
    using assms(3) handle_cfg_same [OF False, of e q w sv] by (simp add: cfg_agrees_def)
qed

definition server_ok :: "env \<Rightarrow> nat \<Rightarrow> server \<Rightarrow> bool" where
  "server_ok e n sv \<longleftrightarrow> paths_ok sv \<and> stored_wf e n sv \<and> cfg_agrees e sv"

lemma handle_ok:
  assumes "pf_codec e" "cfg_codec e" "fresh_resp w" "server_ok e n sv" "n < 9999"
  shows "server_ok e (Suc n) (snd (handle e r q w sv))"
proof -
  have p: "paths_ok sv" "stored_wf e n sv" "cfg_agrees e sv" using assms(4) by (simp_all add: server_ok_def)
  have "stored_wf e (Suc n) (snd (handle e r q w sv))"
  proof (cases "r \<in> {ProfileSelect, ProfileDelete, ProfileSave}")
    case True
    show ?thesis by (rule edit_effect_wf [OF handle_edit [OF assms(1) True assms(3)] p(2) assms(5)])
  next
    case False
    show ?thesis by (rule stored_wf_mono [OF p(2) handle_stored_other [OF p(1) False]])
  qed
  then show ?thesis
    using handle_cfg_agrees [OF assms(2) p(1,3)] paths_ok_setup [OF handle_setup] p(1)
    by (simp add: server_ok_def)
qed

lemma serve_ok:
  assumes "pf_codec e" "cfg_codec e" "server_ok e n sv" "n < 9999"
  shows "server_ok e (Suc n) (snd (serve e q sv))"
proof (rule serve_keeps)
  show "server_ok e (Suc n) sv"
    using assms(3) stored_wf_mono [of e n sv sv] by (simp add: server_ok_def)
qed (simp add: handle_ok assms)

subsection \<open>Runs of requests\<close>

text \<open>A run: each request comes with its own environment (clock, network, commands), over the same
  codecs.\<close>

definition same_codecs :: "env \<Rightarrow> env \<Rightarrow> bool" where
  "same_codecs e e' \<longleftrightarrow>
     enc_cfg e' = enc_cfg e \<and> dec_cfg e' = dec_cfg e \<and> enc_pf e' = enc_pf e \<and> dec_pf e' = dec_pf e"

definition run_requests :: "(env \<times> http_request) list \<Rightarrow> server \<Rightarrow> server" where
  "run_requests rs sv = fold (\<lambda>(e, q) s. snd (serve e q s)) rs sv"

lemma same_codecs_props:
  assumes "same_codecs e e'"
  shows "pf_codec e' = pf_codec e" "cfg_codec e' = cfg_codec e" "server_ok e' n sv = server_ok e n sv"
  using assms
  by (simp_all add: same_codecs_def pf_codec_def cfg_codec_def server_ok_def stored_wf_def cfg_agrees_def stored_def)

lemma run_requests_ok:
  "pf_codec e \<Longrightarrow> cfg_codec e \<Longrightarrow> list_all (\<lambda>(e', q). same_codecs e e') rs \<Longrightarrow> server_ok e n sv \<Longrightarrow>
   n + length rs \<le> 9999 \<Longrightarrow> server_ok e (n + length rs) (run_requests rs sv)"
proof (induction rs arbitrary: n sv)
  case (Cons eq rs)
  obtain e' q where eq: "eq = (e', q)" by (cases eq)
  have c: "same_codecs e e'" using Cons.prems(3) eq by simp
  note cc = same_codecs_props [OF c]
  have "server_ok e (Suc n) (snd (serve e' q sv))"
    using serve_ok [of e' n sv q] Cons.prems cc by simp
  then have "server_ok e (Suc n + length rs) (run_requests rs (snd (serve e' q sv)))"
    using Cons.prems by (intro Cons.IH) auto
  then show ?case by (simp add: run_requests_def eq)
qed (simp add: run_requests_def)

subsection \<open>What the documents of the interface promise and the handlers ignore\<close>

text \<open>The DNS and interface settings of a hotspot patch have no effect.\<close>

lemma patch_ignores_hotspot_dns:
  "apply_patch p c =
   apply_patch (p\<lparr>CP_Hotspot := map_option (\<lambda>h. h\<lparr>HS_DNS := d, HS_Interfaces := xs\<rparr>) (CP_Hotspot p)\<rparr>) c"
  by (simp add: apply_patch_def apply_hotspot_patch_def split: option.split)

text \<open>The snapshot has no key \<^verbatim>\<open>goroutines\<close>, so the diagnostics always report it as null.\<close>

lemma diagnostics_goroutines_null: "lookup (Snapshot f now r) ''goroutines'' = VNil"
  by (simp add: lookup_def Snapshot_def Let_def)

text \<open>A new profile gets an identifier of its own, but the reply repeats the empty one of the request.\<close>

lemma save_reply_empty_id:
  assumes "fresh_resp w" "rq_method q = ''POST''" "dec_save e (rq_body q) = Some req" "Req_ID req = ''''"
    and "code (fst (handleProfileSave e q w sv)) = Some 200"
  shows "map Data (List.map_filter (\<lambda>c. case c of Json en \<Rightarrow> Some en | _ \<Rightarrow> None)
           (body (fst (handleProfileSave e q w sv)))) =
         [Some (DMap [(''selected_id'', VStr ''''), (''restart'', VBool (Req_Restart req))])]"
  using assms
  by (auto simp: handleProfileSave_def edit_reply_def fresh_resp_def writeV1OK_fresh writeV1Error_fresh
      List.map_filter_simps split: option.splits prod.splits)

subsection \<open>A small instance\<close>

text \<open>A codec that knows three documents, and a disk that holds two of them.\<close>

definition demo_selected :: profiles_file where
  "demo_selected = snd (SelectByID ''b'' demo_profiles)"

definition demo_env :: env where
  "demo_env =
     \<lparr>enc_cfg = (\<lambda>c. if c = DefaultConfig then Some ''C'' else None),
      dec_cfg = (\<lambda>t. if t = ''C'' @ [nl] then Some DefaultConfig else None),
      enc_pf = (\<lambda>d. if d = demo_profiles then Some ''A'' else if d = demo_selected then Some ''B'' else None),
      dec_pf = (\<lambda>t. if t = ''A'' @ [nl] then Some demo_profiles
                    else if t = ''B'' @ [nl] then Some demo_selected else None),
      partial_pf = \<lparr>SelectedID = '''', Profiles = []\<rparr>, spare = [],
      dec_patch = (\<lambda>_. None), dec_select = (\<lambda>t. Some (t, False)), dec_id = Some, dec_save = (\<lambda>_. None),
      dec_enabled = (\<lambda>_. None), rfc3339 = (\<lambda>_. ''''), clock = 0, file_text = (\<lambda>_. ''file''),
      decode_text = ''decode'', os_text = ''os'', client_text = (\<lambda>_. ''socks''), dial1 = (\<lambda>_. None),
      dial2 = (\<lambda>_. None), elapsed = 0, first_read = (\<lambda>_. ('''', None)), resolve_udp = (\<lambda>_. None),
      dial_udp = (\<lambda>_. None), exec_cmd = (\<lambda>_. Inl ''exec''), index_html = ''html'', favicon_svg = ''svg''\<rparr>"

definition demo_fs :: fs where
  "demo_fs = \<lparr>disk = [''/d/config.json'' \<mapsto> ''C'' @ [nl], ''/d/profiles.json'' \<mapsto> ''A'' @ [nl]],
              wr_fault = (\<lambda>_. None), mv_fault = (\<lambda>_. False)\<rparr>"

definition demo_runtime :: runtime where
  "demo_runtime =
     \<lparr>R_status = \<lparr>S_StartedAt = None, S_TunnelStartedAt = None, S_State = ''IDLE'', S_Running = False,
        S_Connected = False, S_SSHAuthenticated = False, S_TransportReady = False, S_Phase = '''',
        S_LastError = '''', S_LastEvent = '''', S_Attempt = 0, S_Note = ''''\<rparr>,
      R_paths = \<lparr>S_Version = ''1'', S_GOOS = '''', S_GOARCH = '''', S_WorkDir = ''/d'', S_ConfigPath = '''',
        S_ProfilesPath = '''', S_APIAddr = ''''\<rparr>,
      R_profile = \<lparr>S_SelectedProfile = '''', S_SelectedMode = '''', S_TransportChain = '''',
        S_PayloadEnabled = False\<rparr>,
      R_net = \<lparr>S_NetworkOnline = True, S_DefaultRoute = '''', S_Interface = '''', S_Gateway = '''',
        S_SourceIP = '''', S_RemoteBanner = '''', S_HTTPStatuses = [], S_ResolvedDial = '''',
        S_ResolverMethod = '''', S_ResolvedIPs = [], S_DNSMode = '''', S_DNSServers = []\<rparr>,
      R_proxy = \<lparr>S_HotspotEnabled = False, S_SocksEnabled = False, S_SocksAddr = '''', S_SocksRunning = False,
        S_TransparentEnabled = False, S_TransparentAddr = '''', S_TransparentRunning = False,
        S_TransparentApplied = False, S_HotspotRunning = False\<rparr>,
      R_metrics = \<lparr>S_CPUPercent = 0, S_MemoryRSSBytes = 0, S_MemoryRSSMB = 0, S_SystemMemTotalBytes = 0,
        S_SystemMemAvailBytes = 0, S_SystemMemUsedPct = 0, S_Goroutines = 0\<rparr>,
      R_pool = \<lparr>S_PoolSize = 0, S_PoolHealthy = 0, S_PoolReconnecting = 0, S_PoolStreams = 0,
        S_PoolMaxStreams = 0, S_PoolLastError = ''''\<rparr>\<rparr>"

definition demo_server :: server where
  "demo_server =
     (NewServer ''127.0.0.1'' 9190 ''/d'' ''/d/config.json'' ''/d/profiles.json'' demo_runtime demo_heap
        demo_fs)\<lparr>sv_cfg := Some DefaultConfig\<rparr>"

definition demo_post :: "string \<Rightarrow> string \<Rightarrow> http_request" where
  "demo_post path b = \<lparr>rq_method = ''POST'', rq_path = path, rq_target = '''', rq_body = b, rq_flusher = True\<rparr>"

lemma DefaultConfig_normal: "Normalize DefaultConfig = DefaultConfig" "normalized DefaultConfig"
proof -
  show "normalized DefaultConfig" by (simp add: normalized_def DefaultConfig_def default_ifaces_def)
  then show "Normalize DefaultConfig = DefaultConfig" by (rule Normalize_id)
qed

lemma demo_pf_codec: "pf_codec demo_env"
  by (simp add: pf_codec_def codec_ok_def demo_env_def)

lemma demo_cfg_codec: "cfg_codec demo_env"
  by (simp add: cfg_codec_def codec_ok_def demo_env_def)

lemma demo_run: "path_join ''/d'' ''run'' = ''/d/run''" "path_join ''/d/run'' ''autostart'' = ''/d/run/autostart''"
  by code_simp+

lemma demo_server_ok: "server_ok demo_env 2 demo_server"
proof -
  have "paths_ok demo_server"
    by (simp add: paths_ok_def doc_path_ok_def demo_server_def NewServer_def demo_run HasPrefix_def
        HasSuffix_def suffix_def append_eq_Cons_conv)
  moreover have "stored_wf demo_env 2 demo_server"
    by (simp add: stored_wf_def stored_def LoadProfiles_def load_doc_def demo_server_def NewServer_def
        demo_fs_def demo_env_def wf_profiles_def demo_profiles_def demo_profile_def)
  moreover have "cfg_agrees demo_env demo_server"
    by (simp add: cfg_agrees_def LoadConfig_def load_doc_def demo_server_def NewServer_def demo_fs_def
        demo_env_def DefaultConfig_normal)
  ultimately show ?thesis by (simp add: server_ok_def)
qed

lemma demo_mux: "mux ''/api/v1/profile/select'' = Some ProfileSelect" "mux ''/api/v1/autostart'' = Some Autostart"
  by (rule mux_registered; simp add: registerRoutes_def)+

section \<open>Properties\<close>




text \<open>C36. A \<open>GET\<close> is safe on every route: it changes no file, no configuration and no runtime state,
  and dispatches no control action.\<close>
theorem serve_get_safe:
  assumes "rq_method q = ''GET''"
  shows "case serve e q sv of (_, sv') \<Rightarrow>
     sv_fs sv' = sv_fs sv \<and> sv_cfg sv' = sv_cfg sv \<and> sv_state sv' = sv_state sv \<and> sv_actions sv' = sv_actions sv"
  using serve_get_same [OF assms, of sv e] by (auto simp: same_files_def split: prod.split)

theorem serve_get_safe_witness:
  "sv_fs (snd (serve demo_env (demo_post ''/api/v1/config'' ''x''\<lparr>rq_method := ''GET''\<rparr>) demo_server)) = demo_fs"
  using serve_get_safe [where q = "demo_post ''/api/v1/config'' ''x''\<lparr>rq_method := ''GET''\<rparr>"
      and e = demo_env and sv = demo_server]
  by (simp add: demo_post_def case_prod_beta) (simp add: demo_server_def NewServer_def)





end
