(* ===== verification/EventStream.thy ===== *)
theory EventStream
  imports Server
begin

text \<open>
  What \<open>handleEvents\<close> of \<^verbatim>\<open>internal/api/api.go\<close> writes: the status events and the pings, and the page's
  side of it, an event stream read as the HTML standard prescribes. When an event is due is the
  subject of theory Runtime; here the changes are given and any write may be the first to fail.
\<close>

section \<open>Definitions\<close>

subsection \<open>Writing\<close>

definition event_line :: "string \<Rightarrow> string" where
  "event_line event = ''event: '' @ event @ [nl]"

definition data_lines :: "string \<Rightarrow> string" where
  "data_lines d = ''data: '' @ d @ [nl, nl]"

definition ping :: string where
  "ping = '': ping'' @ [nl, nl]"

text \<open>\<^verbatim>\<open>send\<close>, with \<^verbatim>\<open>json.Marshal\<close> as a parameter: false when the payload has no encoding or a write fails.\<close>

definition send :: "('p \<Rightarrow> string option) \<Rightarrow> string \<Rightarrow> 'p \<Rightarrow> conn \<Rightarrow> bool \<times> conn" where
  "send marshal event payload w =
     (case marshal payload of
        None \<Rightarrow> (False, w)
      | Some d \<Rightarrow>
          (case (if event \<noteq> '''' then write_all (bytes_of (event_line event)) w else (Inr (), w)) of
             (Inl _, w1) \<Rightarrow> (False, w1)
           | (Inr _, w1) \<Rightarrow>
               (case write_all (bytes_of (data_lines d)) w1 of
                  (Inl _, w2) \<Rightarrow> (False, w2)
                | (Inr _, w2) \<Rightarrow> (True, w2))))"

text \<open>What wakes the loop: the state changed, and is read then, or the heartbeat. The request's context
  ends the list.\<close>

datatype wake = Changed server | Heartbeat

fun event_loop :: "env \<Rightarrow> (status_page \<Rightarrow> string option) \<Rightarrow> wake list \<Rightarrow> conn \<Rightarrow> conn" where
  "event_loop e marshal [] w = w"
| "event_loop e marshal (Changed sv # ws) w =
     (case send marshal ''status'' (statusPayload e sv) w of
        (ok, w1) \<Rightarrow> if ok then event_loop e marshal ws w1 else w1)"
| "event_loop e marshal (Heartbeat # ws) w =
     (case write_all (bytes_of ping) w of
        (Inl _, w1) \<Rightarrow> w1
      | (Inr _, w1) \<Rightarrow> event_loop e marshal ws w1)"

definition event_stream :: "env \<Rightarrow> (status_page \<Rightarrow> string option) \<Rightarrow> server \<Rightarrow> wake list \<Rightarrow> conn \<Rightarrow> conn" where
  "event_stream e marshal sv ws w =
     (case send marshal ''status'' (statusPayload e sv) w of
        (ok, w1) \<Rightarrow> if ok then event_loop e marshal ws w1 else w1)"

subsection \<open>Reading\<close>

text \<open>
  The client's interpretation of the lines: the event type and the data lines so far are the state, an
  empty line dispatches, a line that starts with a colon is a comment, other fields are ignored. An
  incomplete last line is not a line.
\<close>

definition field :: "string \<Rightarrow> string \<Rightarrow> string option" where
  "field name line =
     (if HasPrefix line (name @ '': '') then Some (drop (length name + 2) line)
      else if HasPrefix line (name @ '':'') then Some (drop (length name + 1) line)
      else if line = name then Some '''' else None)"

fun dispatch :: "string \<Rightarrow> string list \<Rightarrow> string list \<Rightarrow> (string \<times> string) list" where
  "dispatch type dat [] = []"
| "dispatch type dat (l # ls) =
     (if l = '''' then
        (if dat = [] then dispatch '''' [] ls
         else (if type = '''' then ''message'' else type, Join dat [nl]) # dispatch '''' [] ls)
      else if HasPrefix l '':'' then dispatch type dat ls
      else (case field ''event'' l of
              Some v \<Rightarrow> dispatch v dat ls
            | None \<Rightarrow> (case field ''data'' l of
                         Some v \<Rightarrow> dispatch type (dat @ [v]) ls
                       | None \<Rightarrow> dispatch type dat ls)))"

definition client_events :: "byte list \<Rightarrow> (string \<times> string) list" where
  "client_events bs = dispatch '''' [] (butlast (Split nl (string_of bs)))"

text \<open>The states that a stream reports.\<close>

fun reported :: "wake list \<Rightarrow> server list" where
  "reported [] = []"
| "reported (Changed sv # ws) = sv # reported ws"
| "reported (Heartbeat # ws) = reported ws"

section \<open>Lemmas\<close>

lemma split_line: "nl \<notin> set a \<Longrightarrow> butlast (Split nl (a @ nl # rest)) = a # butlast (Split nl rest)"
  by (simp add: Split_append_sep Split_no_sep)

lemma no_nl: "nl \<notin> set ''event: status''" "nl \<notin> set '': ping''" "nl \<notin> set ([] :: string)"
    "nl \<notin> set d \<Longrightarrow> nl \<notin> set (''data: '' @ d)"
  by (simp_all add: nl_def)

lemmas split_lines = no_nl(1-3) [THEN split_line] no_nl(4) [THEN split_line]

text \<open>The blocks that the loop writes, read from a line start.\<close>

lemma read_status_block:
  assumes "nl \<notin> set d"
  shows "dispatch '''' [] (butlast (Split nl (event_line ''status'' @ data_lines d @ rest))) =
     (''status'', d) # dispatch '''' [] (butlast (Split nl rest))"
proof -
  have "event_line ''status'' @ data_lines d @ rest =
      ''event: status'' @ nl # (''data: '' @ d) @ nl # [] @ nl # rest"
    by (simp add: event_line_def data_lines_def)
  then have "butlast (Split nl (event_line ''status'' @ data_lines d @ rest)) =
      ''event: status'' # (''data: '' @ d) # [] # butlast (Split nl rest)"
    by (simp only: split_lines split_lines(4) [OF assms])
  then show ?thesis by (simp add: field_def HasPrefix_def)
qed

lemma read_event_line: "dispatch '''' [] (butlast (Split nl (event_line ''status''))) = []"
proof -
  have "event_line ''status'' = ''event: status'' @ nl # []" by (simp add: event_line_def)
  then have "butlast (Split nl (event_line ''status'')) = ''event: status'' # butlast (Split nl [])"
    by (simp only: split_lines)
  then show ?thesis by (simp add: field_def HasPrefix_def)
qed

lemma read_ping_block: "dispatch '''' [] (butlast (Split nl (ping @ rest))) = dispatch '''' [] (butlast (Split nl rest))"
proof -
  have "ping @ rest = '': ping'' @ nl # [] @ nl # rest" by (simp add: ping_def)
  then have "butlast (Split nl (ping @ rest)) = '': ping'' # [] # butlast (Split nl rest)"
    by (simp only: split_lines)
  then show ?thesis by (simp add: HasPrefix_def)
qed

text \<open>The writes that a run of the loop takes.\<close>

fun writes_needed :: "wake list \<Rightarrow> nat" where
  "writes_needed [] = 0"
| "writes_needed (Changed sv # ws) = 2 + writes_needed ws"
| "writes_needed (Heartbeat # ws) = 1 + writes_needed ws"

lemma send_cases:
  obtains (stuck) "send marshal ''status'' p w = (False, w)" "marshal p = None \<or> writes_left w < 2"
  | (half) w1 where "send marshal ''status'' p w = (False, w1)" "outp w1 = outp w @ bytes_of (event_line ''status'')"
      "writes_left w < 2"
  | (sent) d w1 where "send marshal ''status'' p w = (True, w1)" "marshal p = Some d" "2 \<le> writes_left w"
      "outp w1 = outp w @ bytes_of (event_line ''status'' @ data_lines d)" "writes_left w1 = writes_left w - 2"
proof (cases "marshal p")
  case None
  then show ?thesis by (intro stuck) (simp_all add: send_def)
next
  case (Some d)
  consider "writes_left w = 0" | "writes_left w = 1" | "2 \<le> writes_left w" by linarith
  then show ?thesis
  proof cases
    case 1
    then show ?thesis using Some by (intro stuck) (simp_all add: send_def write_all_fail)
  next
    case 2
    let ?w = "w\<lparr>outp := outp w @ bytes_of (event_line ''status''), writes_left := 0\<rparr>"
    have "send marshal ''status'' p w = (False, ?w)"
      using Some 2 by (simp add: send_def write_all_ok write_all_fail)
    then show ?thesis using 2 by (intro half [of ?w]) simp_all
  next
    case 3
    let ?w = "w\<lparr>outp := outp w @ bytes_of (event_line ''status'' @ data_lines d), writes_left := writes_left w - 2\<rparr>"
    have "send marshal ''status'' p w = (True, ?w)"
      using Some 3 by (simp add: send_def write_all_ok bytes_of_def)
    then show ?thesis using Some 3 by (intro sent [of ?w d]) simp_all
  qed
qed

abbreviation status_events :: "env \<Rightarrow> (status_page \<Rightarrow> string option) \<Rightarrow> server list \<Rightarrow> (string \<times> string) list" where
  "status_events e marshal svs \<equiv> map (\<lambda>sv. (''status'', the (marshal (statusPayload e sv)))) svs"

text \<open>What a run has written, and what a client makes of it.\<close>

definition stream_ok :: "env \<Rightarrow> (status_page \<Rightarrow> string option) \<Rightarrow> wake list \<Rightarrow> conn \<Rightarrow> conn \<Rightarrow> bool" where
  "stream_ok e marshal ws w w' \<longleftrightarrow>
     (\<exists>x k. outp w' = outp w @ bytes_of x \<and> k \<le> length (reported ws) \<and>
        dispatch '''' [] (butlast (Split nl x)) = status_events e marshal (take k (reported ws)) \<and>
        ((\<forall>sv \<in> set (reported ws). marshal (statusPayload e sv) \<noteq> None) \<and> writes_needed ws \<le> writes_left w \<longrightarrow>
           k = length (reported ws)))"

lemma stream_stuck:
  assumes "outp w' = outp w @ bytes_of x" "dispatch '''' [] (butlast (Split nl x)) = []"
    "reported ws = [] \<or> (\<exists>sv \<in> set (reported ws). marshal (statusPayload e sv) = None) \<or> writes_left w < writes_needed ws"
  shows "stream_ok e marshal ws w w'"
  unfolding stream_ok_def using assms by (intro exI [of _ x] exI [of _ 0]) auto

lemma stream_status:
  assumes nl: "nl \<notin> set d" "marshal (statusPayload e sv) = Some d"
    and w1: "outp w1 = outp w @ bytes_of (event_line ''status'' @ data_lines d)" "writes_left w1 = writes_left w - 2"
    and rest: "stream_ok e marshal ws w1 w'"
  shows "stream_ok e marshal (Changed sv # ws) w w'"
proof -
  obtain x k where x: "outp w' = outp w1 @ bytes_of x" "k \<le> length (reported ws)"
    "dispatch '''' [] (butlast (Split nl x)) = status_events e marshal (take k (reported ws))"
    "(\<forall>sv \<in> set (reported ws). marshal (statusPayload e sv) \<noteq> None) \<and> writes_needed ws \<le> writes_left w1 \<Longrightarrow>
       k = length (reported ws)"
    using rest unfolding stream_ok_def by blast
  let ?x = "event_line ''status'' @ data_lines d @ x"
  have "outp w' = outp w @ bytes_of ?x" using x(1) w1(1) by (simp add: bytes_of_def)
  moreover have "dispatch '''' [] (butlast (Split nl ?x)) = status_events e marshal (take (Suc k) (reported (Changed sv # ws)))"
    using read_status_block [OF nl(1), of x] x(3) nl(2) by simp
  ultimately show ?thesis
    unfolding stream_ok_def using x(2,4) w1(2) by (intro exI [of _ ?x] exI [of _ "Suc k"]) auto
qed

lemma event_loop_ok:
  assumes "\<And>p d. marshal p = Some d \<Longrightarrow> nl \<notin> set d"
  shows "stream_ok e marshal ws w (event_loop e marshal ws w)"
proof (induction ws arbitrary: w)
  case Nil
  show ?case by (rule stream_stuck [of _ _ "[]"]) (simp_all add: bytes_of_def)
next
  case (Cons a ws)
  show ?case
  proof (cases a)
    case (Changed sv)
    show ?thesis
    proof (cases rule: send_cases [of marshal "statusPayload e sv" w])
      case stuck
      then show ?thesis unfolding Changed by (intro stream_stuck [of _ _ "[]"]) (auto simp: bytes_of_def)
    next
      case (half w1)
      then show ?thesis unfolding Changed
        by (intro stream_stuck [of _ _ "event_line ''status''"]) (auto simp: read_event_line)
    next
      case (sent d w1)
      then have "stream_ok e marshal (Changed sv # ws) w (event_loop e marshal ws w1)"
        using Cons.IH assms by (intro stream_status [of d marshal e sv w1 w]) auto
      then show ?thesis by (simp add: Changed sent(1))
    qed
  next
    case Heartbeat
    show ?thesis
    proof (cases "writes_left w")
      case 0
      then show ?thesis unfolding Heartbeat
        by (intro stream_stuck [of _ _ "[]"]) (auto simp: bytes_of_def write_all_fail)
    next
      case (Suc n)
      let ?w = "w\<lparr>outp := outp w @ bytes_of ping, writes_left := n\<rparr>"
      obtain x k where x: "outp (event_loop e marshal ws ?w) = outp ?w @ bytes_of x" "k \<le> length (reported ws)"
        "dispatch '''' [] (butlast (Split nl x)) = status_events e marshal (take k (reported ws))"
        "(\<forall>sv \<in> set (reported ws). marshal (statusPayload e sv) \<noteq> None) \<and> writes_needed ws \<le> writes_left ?w \<Longrightarrow>
           k = length (reported ws)"
        using Cons.IH [of ?w] unfolding stream_ok_def by blast
      have "outp (event_loop e marshal ws ?w) = outp w @ bytes_of (ping @ x)" using x(1) by (simp add: bytes_of_def)
      moreover have "event_loop e marshal (a # ws) w = event_loop e marshal ws ?w"
        by (simp add: Heartbeat write_all_ok Suc)
      ultimately show ?thesis
        unfolding stream_ok_def using x(2-4) Suc
        by (intro exI [of _ "ping @ x"] exI [of _ k]) (auto simp: Heartbeat read_ping_block)
    qed
  qed
qed

lemma event_stream_loop: "event_stream e marshal sv ws w = event_loop e marshal (Changed sv # ws) w"
  by (simp add: event_stream_def)

section \<open>Properties\<close>

text \<open>C34. A page reads exactly the states that the stream reported. Whatever write is the first to fail, the
  events that a client gets from the bytes written are, in order, the encoded states of the first
  event and of the first changes after it, each once and whole, and the heartbeats are invisible; when
  every state has an encoding and no write fails, they are all of them. The only fact used of the
  encoder is that its output is one line.\<close>

theorem event_stream_roundtrip:
  assumes "\<And>p d. marshal p = Some d \<Longrightarrow> nl \<notin> set d" "outp w = []"
  shows "\<exists>k \<le> Suc (length (reported ws)).
    client_events (outp (event_stream e marshal sv ws w)) =
      map (\<lambda>s. (''status'', the (marshal (statusPayload e s)))) (take k (sv # reported ws)) \<and>
    ((\<forall>s \<in> set (sv # reported ws). marshal (statusPayload e s) \<noteq> None) \<and> 2 + writes_needed ws \<le> writes_left w \<longrightarrow>
       k = Suc (length (reported ws)))"
proof -
  have "stream_ok e marshal (Changed sv # ws) w (event_stream e marshal sv ws w)"
    unfolding event_stream_loop by (rule event_loop_ok) (rule assms(1))
  then obtain x k where "outp (event_stream e marshal sv ws w) = bytes_of x" "k \<le> Suc (length (reported ws))"
    "dispatch '''' [] (butlast (Split nl x)) = status_events e marshal (take k (sv # reported ws))"
    "(\<forall>s \<in> set (sv # reported ws). marshal (statusPayload e s) \<noteq> None) \<and> 2 + writes_needed ws \<le> writes_left w \<Longrightarrow>
       k = Suc (length (reported ws))"
    using assms(2) unfolding stream_ok_def by auto
  then show ?thesis unfolding client_events_def by (intro exI [of _ k]) simp
qed

definition demo_page :: conn where
  "demo_page = \<lparr>inp = [], outp = [], writes_left = 5, closed = False\<rparr>"

theorem event_stream_roundtrip_witness:
  "\<forall>e sv sv'. client_events (outp (event_stream e (\<lambda>_. Some ''{}'') sv [Heartbeat, Changed sv'] demo_page)) =
     [(''status'', ''{}''), (''status'', ''{}'')]"
proof (intro allI)
  fix e sv sv'
  have "nl \<notin> set d" if "Some ''{}'' = Some d" for d using that by (auto simp: nl_def)
  from event_stream_roundtrip [of "\<lambda>_. Some ''{}''" demo_page "[Heartbeat, Changed sv']" e sv, OF this]
  show "client_events (outp (event_stream e (\<lambda>_. Some ''{}'') sv [Heartbeat, Changed sv'] demo_page)) =
     [(''status'', ''{}''), (''status'', ''{}'')]"
    by (auto simp: demo_page_def)
qed

end
