(* ===== verification/Iptables.thy ===== *)
theory Iptables
  imports GoStrings
begin

text \<open>
  \<^verbatim>\<open>internal/iptables/iptables.go\<close>: the rules of the transparent proxy. Commands run through the
  parameter \<open>ex\<close>, the operating system as a function from an argument vector and a state to success
  and the next state. What \<^verbatim>\<open>iptables(8)\<close> documents of its commands is the locale \<open>netfilter\<close>; the
  theorems about installing and removing the rules are proved in it.
\<close>

section \<open>Definitions\<close>

record ipt_cfg =
  I_ChainsPrefix :: string
  I_TCPPort :: int
  I_APIPort :: int
  I_SocksPort :: int
  I_DNSForwardPort :: int
  I_DNSHijack :: bool
  I_Hotspot :: bool
  I_HotspotDNS :: bool
  I_HotspotIfaces :: "string list"

definition Fwmark :: int where "Fwmark = 1"
definition MarkStr :: string where "MarkStr = ''0x1/0x1''"
definition TableID :: int where "TableID = 100"
definition DefaultPrefix :: string where "DefaultPrefix = ''SSHC''"

definition DefaultHotspotIfaces :: "string list" where
  "DefaultHotspotIfaces = [''wlan+'', ''swlan+'', ''ap+'', ''rndis+'', ''ncm+'', ''bt-pan+'']"

definition localCIDRs :: "string list" where
  "localCIDRs = [''0.0.0.0/8'', ''10.0.0.0/8'', ''100.64.0.0/10'', ''127.0.0.0/8'', ''169.254.0.0/16'',
     ''172.16.0.0/12'', ''192.168.0.0/16'', ''224.0.0.0/4'', ''240.0.0.0/4'']"

definition allChains :: "string \<Rightarrow> string list" where
  "allChains px =
     map (\<lambda>t. px @ t)
       [''_OUT'', ''_PRE'', ''_DNS'', ''_MOUT'', ''_OUTPUT'', ''_PREROUTING'', ''_PROXY'',
        ''_HOTSPOT'', ''_HOTSPOT_DNS'', ''_TPROXY'']"

subsection \<open>Commands\<close>

type_synonym 's os = "string list \<Rightarrow> 's \<Rightarrow> bool \<times> 's"
type_synonym rule = "string list"

definition ipt :: "'s os \<Rightarrow> string list \<Rightarrow> 's \<Rightarrow> bool \<times> 's" where
  "ipt ex args s = ex ([''iptables'', ''-w'', ''100''] @ args) s"

definition ip6t :: "'s os \<Rightarrow> string list \<Rightarrow> 's \<Rightarrow> bool \<times> 's" where
  "ip6t ex args s = ex ([''ip6tables'', ''-w'', ''100''] @ args) s"

definition sh :: "'s os \<Rightarrow> string \<Rightarrow> 's \<Rightarrow> 's" where
  "sh ex line s = snd (ex [''/system/bin/sh'', ''-c'', line] s)"

definition ruleExists :: "'s os \<Rightarrow> string \<Rightarrow> string \<Rightarrow> rule \<Rightarrow> 's \<Rightarrow> bool \<times> 's" where
  "ruleExists ex table chain args s = ipt ex ([''-t'', table, ''-C'', chain] @ args) s"

definition chainExists :: "'s os \<Rightarrow> string \<Rightarrow> string \<Rightarrow> 's \<Rightarrow> bool \<times> 's" where
  "chainExists ex table name s = ipt ex [''-t'', table, ''-L'', name, ''-n''] s"

definition newChain :: "'s os \<Rightarrow> string \<Rightarrow> string \<Rightarrow> 's \<Rightarrow> 's" where
  "newChain ex table name s = snd (ipt ex [''-t'', table, ''-N'', name] s)"

definition flushChain :: "'s os \<Rightarrow> string \<Rightarrow> string \<Rightarrow> 's \<Rightarrow> 's" where
  "flushChain ex table name s = snd (ipt ex [''-t'', table, ''-F'', name] s)"

definition deleteChain :: "'s os \<Rightarrow> string \<Rightarrow> string \<Rightarrow> 's \<Rightarrow> 's" where
  "deleteChain ex table name s = snd (ipt ex [''-t'', table, ''-X'', name] s)"

definition ensureChain :: "'s os \<Rightarrow> string \<Rightarrow> string \<Rightarrow> 's \<Rightarrow> 's" where
  "ensureChain ex table name s =
     (case chainExists ex table name s of
        (ok, s1) \<Rightarrow>
          flushChain ex table name (if \<not> ok then newChain ex table name s1 else s1))"

definition addRule :: "'s os \<Rightarrow> string \<Rightarrow> string \<Rightarrow> rule \<Rightarrow> 's \<Rightarrow> 's" where
  "addRule ex table chain args s = snd (ipt ex ([''-t'', table, ''-A'', chain] @ args) s)"

definition insRule :: "'s os \<Rightarrow> string \<Rightarrow> string \<Rightarrow> rule \<Rightarrow> 's \<Rightarrow> bool \<times> 's" where
  "insRule ex table chain args s = ipt ex ([''-t'', table, ''-I'', chain] @ args) s"

definition delRule :: "'s os \<Rightarrow> string \<Rightarrow> string \<Rightarrow> rule \<Rightarrow> 's \<Rightarrow> 's" where
  "delRule ex table chain args s = snd (ipt ex ([''-t'', table, ''-D'', chain] @ args) s)"

subsection \<open>QUIC\<close>

definition quic_reject :: "string \<Rightarrow> rule" where
  "quic_reject port = [''-p'', ''udp'', ''--dport'', port, ''-j'', ''REJECT'', ''--reject-with'',
                       ''icmp-port-unreachable'']"

definition quic_drop :: "string \<Rightarrow> rule" where
  "quic_drop port = [''-p'', ''udp'', ''--dport'', port, ''-j'', ''DROP'']"

definition block_port :: "'s os \<Rightarrow> string \<Rightarrow> 's \<Rightarrow> 's" where
  "block_port ex port s =
     (case ruleExists ex ''filter'' ''OUTPUT'' (quic_reject port) s of
        (True, s1) \<Rightarrow> s1
      | (False, s1) \<Rightarrow>
          (case insRule ex ''filter'' ''OUTPUT'' (quic_reject port) s1 of
             (True, s2) \<Rightarrow> s2
           | (False, s2) \<Rightarrow>
               (case ruleExists ex ''filter'' ''OUTPUT'' (quic_drop port) s2 of
                  (True, s3) \<Rightarrow> s3
                | (False, s3) \<Rightarrow> snd (insRule ex ''filter'' ''OUTPUT'' (quic_drop port) s3))))"

definition blockQUIC :: "'s os \<Rightarrow> 's \<Rightarrow> 's" where
  "blockQUIC ex s = fold (block_port ex) [''443'', ''80''] s"

fun unblock_loop :: "'s os \<Rightarrow> rule \<Rightarrow> nat \<Rightarrow> 's \<Rightarrow> 's" where
  "unblock_loop ex r 0 s = s"
| "unblock_loop ex r (Suc n) s =
     (case ruleExists ex ''filter'' ''OUTPUT'' r s of
        (False, s1) \<Rightarrow> s1
      | (True, s1) \<Rightarrow> unblock_loop ex r n (delRule ex ''filter'' ''OUTPUT'' r s1))"

definition unblockQUIC :: "'s os \<Rightarrow> 's \<Rightarrow> 's" where
  "unblockQUIC ex s =
     fold (\<lambda>port s. unblock_loop ex (quic_reject port) 4 (unblock_loop ex (quic_drop port) 4 s))
       [''443'', ''80''] s"

subsection \<open>Removing the rules\<close>

definition chain_prefix :: "ipt_cfg \<Rightarrow> string" where
  "chain_prefix cfg = (if I_ChainsPrefix cfg = '''' then DefaultPrefix else I_ChainsPrefix cfg)"

definition hotspot_ifaces :: "string list \<Rightarrow> string list" where
  "hotspot_ifaces ifaces =
     filter (\<lambda>i. i \<noteq> '''') (map TrimSpace (if length ifaces = 0 then DefaultHotspotIfaces else ifaces))"

definition divert_hook :: rule where
  "divert_hook = [''-p'', ''tcp'', ''-m'', ''socket'', ''--transparent'', ''-j'', ''DIVERT'']"

text \<open>The rules that jump to the chain \<open>ch\<close>, in the order in which they are detached.\<close>

definition hooks :: "string list \<Rightarrow> string \<Rightarrow> (string \<times> string \<times> rule) list" where
  "hooks ifaces ch =
     [(''nat'', ''OUTPUT'', [''-p'', ''tcp'', ''-j'', ch]), (''nat'', ''OUTPUT'', [''-j'', ch]),
      (''nat'', ''OUTPUT'', [''-p'', ''udp'', ''--dport'', ''53'', ''-j'', ch]),
      (''nat'', ''PREROUTING'', [''-p'', ''tcp'', ''-j'', ch]), (''nat'', ''PREROUTING'', [''-j'', ch]),
      (''nat'', ''PREROUTING'', [''-p'', ''udp'', ''--dport'', ''53'', ''-j'', ch])] @
     concat (map (\<lambda>i.
       [(''nat'', ''PREROUTING'', [''-i'', i, ''-p'', ''tcp'', ''-j'', ch]),
        (''nat'', ''PREROUTING'', [''-i'', i, ''-j'', ch]),
        (''nat'', ''PREROUTING'', [''-i'', i, ''-p'', ''udp'', ''--dport'', ''53'', ''-j'', ch])]) ifaces) @
     [(''mangle'', ''PREROUTING'', [''-j'', ch]), (''mangle'', ''OUTPUT'', [''-j'', ch])]"

definition detach :: "'s os \<Rightarrow> (string \<times> string \<times> rule) list \<Rightarrow> 's \<Rightarrow> 's" where
  "detach ex hs s = fold (\<lambda>(t, c, r). delRule ex t c r) hs s"

definition destroy_chain :: "'s os \<Rightarrow> string \<Rightarrow> 's \<Rightarrow> 's" where
  "destroy_chain ex ch s =
     deleteChain ex ''mangle'' ch (flushChain ex ''mangle'' ch
       (deleteChain ex ''nat'' ch (flushChain ex ''nat'' ch s)))"

definition cleanupRules :: "'s os \<Rightarrow> ipt_cfg \<Rightarrow> 's \<Rightarrow> 's" where
  "cleanupRules ex cfg s =
     (let px = chain_prefix cfg; ifaces = hotspot_ifaces (I_HotspotIfaces cfg);
          s1 = detach ex
                 [(''nat'', ''OUTPUT'', [''-p'', ''tcp'', ''-j'', px @ ''_OUT'']),
                  (''mangle'', ''PREROUTING'', [''-j'', px @ ''_PRE'']),
                  (''mangle'', ''PREROUTING'', divert_hook)] s;
          s2 = fold (\<lambda>ch s. destroy_chain ex ch (detach ex (hooks ifaces ch) s)) (allChains px) s1;
          s3 = deleteChain ex ''mangle'' ''DIVERT'' (flushChain ex ''mangle'' ''DIVERT'' s2);
          s4 = delRule ex ''filter'' ''FORWARD'' [''-j'', ''ACCEPT''] s3 in
      unblockQUIC ex s4)"

subsection \<open>Routing, system controls, IPv6, captive portal\<close>

definition policy_lines :: "string list" where
  "policy_lines =
     [''ip rule del fwmark '' @ Itoa Fwmark @ '' table '' @ Itoa TableID @ '' 2>/dev/null || true'',
      ''ip rule add fwmark '' @ Itoa Fwmark @ '' table '' @ Itoa TableID @ '' prio 100'',
      ''ip route flush table '' @ Itoa TableID @ '' 2>/dev/null || true'',
      ''ip route add local 0.0.0.0/0 dev lo table '' @ Itoa TableID]"

definition setupPolicyRouting :: "'s os \<Rightarrow> 's \<Rightarrow> 's" where
  "setupPolicyRouting ex s = fold (sh ex) policy_lines s"

definition cleanupPolicyRouting :: "'s os \<Rightarrow> 's \<Rightarrow> 's" where
  "cleanupPolicyRouting ex s = fold (sh ex) [policy_lines ! 0, policy_lines ! 2] s"

definition sysctl_line :: "string \<Rightarrow> string \<Rightarrow> string \<Rightarrow> string" where
  "sysctl_line key path v = ''sysctl -w '' @ key @ ''='' @ v @ '' 2>/dev/null || echo '' @ v @ '' > '' @ path"

definition setupSysctls :: "'s os \<Rightarrow> 's \<Rightarrow> 's" where
  "setupSysctls ex s = fold (sh ex)
     [sysctl_line ''net.ipv4.conf.all.route_localnet'' ''/proc/sys/net/ipv4/conf/all/route_localnet'' ''1'',
      sysctl_line ''net.ipv4.conf.all.rp_filter'' ''/proc/sys/net/ipv4/conf/all/rp_filter'' ''0'',
      sysctl_line ''net.ipv4.conf.lo.rp_filter'' ''/proc/sys/net/ipv4/conf/lo/rp_filter'' ''0'',
      sysctl_line ''net.ipv4.conf.all.accept_local'' ''/proc/sys/net/ipv4/conf/all/accept_local'' ''1''] s"

definition ipv6_lines :: "string \<Rightarrow> string list" where
  "ipv6_lines v =
     [sysctl_line ''net.ipv6.conf.all.disable_ipv6'' ''/proc/sys/net/ipv6/conf/all/disable_ipv6'' v,
      sysctl_line ''net.ipv6.conf.default.disable_ipv6'' ''/proc/sys/net/ipv6/conf/default/disable_ipv6'' v]"

definition ip6 :: "'s os \<Rightarrow> string list \<Rightarrow> 's \<Rightarrow> 's" where
  "ip6 ex args s = snd (ip6t ex ([''-t'', ''filter''] @ args) s)"

definition disableIPv6 :: "'s os \<Rightarrow> 's \<Rightarrow> 's" where
  "disableIPv6 ex s0 =
     (let s1 = fold (sh ex) (ipv6_lines ''1'') s0;
          s2 = fold (ip6 ex) [[''-N'', ''SSHC_DROP6''], [''-F'', ''SSHC_DROP6''],
                              [''-A'', ''SSHC_DROP6'', ''-o'', ''lo'', ''-j'', ''RETURN'']] s1;
          s3 = (case ip6t ex [''-t'', ''filter'', ''-A'', ''SSHC_DROP6'', ''-j'', ''REJECT'',
                              ''--reject-with'', ''icmp6-adm-prohibited''] s2 of
                  (True, s) \<Rightarrow> s
                | (False, s) \<Rightarrow> ip6 ex [''-A'', ''SSHC_DROP6'', ''-j'', ''DROP''] s) in
      fold (ip6 ex) [[''-D'', ''OUTPUT'', ''-j'', ''SSHC_DROP6''], [''-I'', ''OUTPUT'', ''1'', ''-j'', ''SSHC_DROP6''],
                     [''-D'', ''FORWARD'', ''-j'', ''SSHC_DROP6''], [''-I'', ''FORWARD'', ''1'', ''-j'', ''SSHC_DROP6'']] s3)"

definition enableIPv6 :: "'s os \<Rightarrow> 's \<Rightarrow> 's" where
  "enableIPv6 ex s =
     fold (ip6 ex) [[''-D'', ''OUTPUT'', ''-j'', ''SSHC_DROP6''], [''-D'', ''FORWARD'', ''-j'', ''SSHC_DROP6''],
                    [''-F'', ''SSHC_DROP6''], [''-X'', ''SSHC_DROP6'']]
       (fold (sh ex) (ipv6_lines ''0'') s)"

definition tuneTCP :: "'s os \<Rightarrow> 's \<Rightarrow> 's" where
  "tuneTCP ex s = fold (sh ex)
     [sysctl_line ''net.core.rmem_max'' ''/proc/sys/net/core/rmem_max'' ''4194304'',
      sysctl_line ''net.core.wmem_max'' ''/proc/sys/net/core/wmem_max'' ''4194304'',
      ''sysctl -w net.ipv4.tcp_congestion_control=bbr 2>/dev/null || true'',
      ''sysctl -w net.ipv4.tcp_notsent_lowat=131072 2>/dev/null || true''] s"

text \<open>\<open>kickRevalidation\<close> starts its delayed command once until \<open>resetRevalidation\<close>: the flag, and
  whether the goroutine is started.\<close>

definition kickRevalidation :: "bool \<Rightarrow> bool \<times> bool" where
  "kickRevalidation done = (\<not> done, True)"

definition resetRevalidation :: "bool \<Rightarrow> bool" where
  "resetRevalidation done = False"

definition portal_off :: "string list" where
  "portal_off =
     [''settings put global captive_portal_mode 0'', ''settings put global captive_portal_use_https 0'',
      ''settings put global captive_portal_server 127.0.0.1'',
      ''settings put global captive_portal_http_url '' @ [CHR 0x22] @
        ''http://127.0.0.1:9190/generate_204'' @ [CHR 0x22],
      ''settings delete global captive_portal_https_url 2>/dev/null || true'',
      ''ndc resolver clearnetdns 2>/dev/null || true'']"

definition portal_on :: "string list" where
  "portal_on =
     [''settings put global captive_portal_mode 1'', ''settings put global captive_portal_use_https 1'',
      ''settings delete global captive_portal_server 2>/dev/null || true'',
      ''settings delete global captive_portal_http_url 2>/dev/null || true'',
      ''settings delete global captive_portal_https_url 2>/dev/null || true'']"

definition disableCaptivePortal :: "'s os \<Rightarrow> 's \<times> bool \<Rightarrow> 's \<times> bool" where
  "disableCaptivePortal ex = (\<lambda>(s, done). (fold (sh ex) portal_off s, snd (kickRevalidation done)))"

definition restoreCaptivePortal :: "'s os \<Rightarrow> 's \<times> bool \<Rightarrow> 's \<times> bool" where
  "restoreCaptivePortal ex = (\<lambda>(s, done). (fold (sh ex) portal_on s, resetRevalidation done))"

subsection \<open>Installing the rules\<close>

definition bypass_ips :: "string list \<Rightarrow> string list" where
  "bypass_ips ips = filter (\<lambda>i. i \<noteq> '''') (map TrimSpace ips)"

definition to_return :: "string \<Rightarrow> rule" where
  "to_return dst = [''-d'', dst, ''-j'', ''RETURN'']"

definition dns_return :: "ipt_cfg \<Rightarrow> rule list" where
  "dns_return cfg =
     (if I_DNSForwardPort cfg > 0 then [[''-p'', ''udp'', ''--dport'', ''53'', ''-j'', ''RETURN'']] else [])"

definition tcp_port :: "ipt_cfg \<Rightarrow> int" where
  "tcp_port cfg = (if I_TCPPort cfg \<le> 0 then 10810 else I_TCPPort cfg)"

text \<open>The rules of the two chains in the order in which they are appended.\<close>

definition redirect_rules :: "ipt_cfg \<Rightarrow> string list \<Rightarrow> rule list" where
  "redirect_rules cfg ips =
     [[''-m'', ''owner'', ''--uid-owner'', ''0'', ''-j'', ''RETURN'']] @
     map to_return localCIDRs @ map to_return (bypass_ips ips) @
     map (\<lambda>p. [''-p'', ''tcp'', ''--dport'', Itoa p, ''-j'', ''RETURN''])
       (filter (\<lambda>p. p > 0) [I_APIPort cfg, I_SocksPort cfg, tcp_port cfg]) @
     dns_return cfg @
     [[''-p'', ''tcp'', ''-j'', ''REDIRECT'', ''--to-ports'', Itoa (tcp_port cfg)]]"

definition tproxy_rules :: "ipt_cfg \<Rightarrow> string list \<Rightarrow> rule list" where
  "tproxy_rules cfg ips =
     map to_return localCIDRs @ map to_return (bypass_ips ips) @
     [[''-i'', ''lo'', ''-m'', ''mark'', ''!'', ''--mark'', MarkStr, ''-j'', ''RETURN'']] @
     dns_return cfg @
     [[''-p'', ''tcp'', ''-j'', ''TPROXY'', ''--on-port'', Itoa (tcp_port cfg), ''--tproxy-mark'', MarkStr]]"

definition addRules :: "'s os \<Rightarrow> string \<Rightarrow> string \<Rightarrow> rule list \<Rightarrow> 's \<Rightarrow> 's" where
  "addRules ex table chain rs s = fold (addRule ex table chain) rs s"

definition rehook :: "'s os \<Rightarrow> string \<Rightarrow> string \<Rightarrow> rule \<Rightarrow> 's \<Rightarrow> bool \<times> 's" where
  "rehook ex table chain r s = insRule ex table chain r (delRule ex table chain r s)"

definition setupDNS :: "'s os \<Rightarrow> string \<Rightarrow> int \<Rightarrow> bool \<Rightarrow> bool \<Rightarrow> string list \<Rightarrow> 's \<Rightarrow> 's" where
  "setupDNS ex dnsChain dnsPort hotspot hotspotDNS ifaces s0 =
     (if dnsPort \<le> 0 then s0
      else
        let s1 = addRules ex ''nat'' dnsChain
                   [[''-m'', ''owner'', ''--uid-owner'', ''0'', ''-j'', ''RETURN''],
                    [''-p'', ''udp'', ''--dport'', ''53'', ''-j'', ''DNAT'', ''--to-destination'',
                     ''127.0.0.1:'' @ Itoa dnsPort]]
                   (ensureChain ex ''nat'' dnsChain s0);
            s2 = snd (rehook ex ''nat'' ''OUTPUT'' [''-p'', ''udp'', ''--dport'', ''53'', ''-j'', dnsChain] s1) in
        if hotspot \<and> hotspotDNS then
          fold (\<lambda>i s. snd (rehook ex ''nat'' ''PREROUTING''
                  [''-i'', i, ''-p'', ''udp'', ''--dport'', ''53'', ''-j'', dnsChain] s))
            (hotspot_ifaces ifaces) s2
        else s2)"

datatype apply_error = HookOutput string | HookPrerouting string

text \<open>Phases two and three: a chain, its rules, and its hook, which is the only command whose failure is
  an error.\<close>

definition install :: "'s os \<Rightarrow> string \<Rightarrow> string \<Rightarrow> rule list \<Rightarrow> string \<Rightarrow> rule \<Rightarrow> 's \<Rightarrow> bool \<times> 's" where
  "install ex table chain rs point hook s =
     rehook ex table point hook (addRules ex table chain rs (ensureChain ex table chain s))"

definition setupDIVERT :: "'s os \<Rightarrow> 's \<Rightarrow> 's" where
  "setupDIVERT ex s =
     snd (rehook ex ''mangle'' ''PREROUTING'' divert_hook
            (addRules ex ''mangle'' ''DIVERT''
               [[''-j'', ''MARK'', ''--set-xmark'', MarkStr], [''-j'', ''ACCEPT'']]
               (ensureChain ex ''mangle'' ''DIVERT'' s)))"

definition forward_accept :: "'s os \<Rightarrow> 's \<Rightarrow> 's" where
  "forward_accept ex s =
     (let s1 = snd (ex [''sysctl'', ''-w'', ''net.ipv4.ip_forward=1''] s) in
      case ruleExists ex ''filter'' ''FORWARD'' [''-j'', ''ACCEPT''] s1 of
        (True, s2) \<Rightarrow> s2
      | (False, s2) \<Rightarrow> snd (ipt ex [''-t'', ''filter'', ''-I'', ''FORWARD'', ''1'', ''-j'', ''ACCEPT''] s2))"

definition apply_tail :: "'s os \<Rightarrow> ipt_cfg \<Rightarrow> 's \<Rightarrow> 's" where
  "apply_tail ex cfg s0 =
     (let s1 = setupDIVERT ex s0;
          s2 = (if I_DNSHijack cfg \<and> I_DNSForwardPort cfg > 0
                then setupDNS ex (chain_prefix cfg @ ''_DNS'') (I_DNSForwardPort cfg) (I_Hotspot cfg)
                       (I_HotspotDNS cfg) (I_HotspotIfaces cfg) s1
                else s1);
          s3 = (if I_Hotspot cfg then forward_accept ex s2 else s2) in
      tuneTCP ex (disableIPv6 ex (blockQUIC ex s3)))"

definition apply_rules :: "'s os \<Rightarrow> ipt_cfg \<Rightarrow> string list \<Rightarrow> 's \<Rightarrow> apply_error option \<times> 's" where
  "apply_rules ex cfg ips s0 =
     (let px = chain_prefix cfg; redir = px @ ''_OUT''; tproxy = px @ ''_PRE'';
          s1 = setupSysctls ex (setupPolicyRouting ex (cleanupRules ex cfg s0)) in
      case install ex ''nat'' redir (redirect_rules cfg ips) ''OUTPUT'' [''-p'', ''tcp'', ''-j'', redir] s1 of
        (False, s2) \<Rightarrow> (Some (HookOutput redir), cleanupRules ex cfg s2)
      | (True, s2) \<Rightarrow>
          (case install ex ''mangle'' tproxy (tproxy_rules cfg ips) ''PREROUTING'' [''-j'', tproxy] s2 of
             (False, s3) \<Rightarrow> (Some (HookPrerouting tproxy), cleanupRules ex cfg s3)
           | (True, s3) \<Rightarrow> (None, apply_tail ex cfg s3)))"

definition Apply :: "'s os \<Rightarrow> ipt_cfg \<Rightarrow> string list \<Rightarrow> 's \<times> bool \<Rightarrow> apply_error option \<times> 's \<times> bool" where
  "Apply ex cfg ips = (\<lambda>(s, done).
     case apply_rules ex cfg ips s of
       (Some e, s') \<Rightarrow> (Some e, s', done)
     | (None, s') \<Rightarrow> (None, disableCaptivePortal ex (s', done)))"

definition Cleanup :: "'s os \<Rightarrow> ipt_cfg \<Rightarrow> 's \<times> bool \<Rightarrow> 's \<times> bool" where
  "Cleanup ex cfg = (\<lambda>(s, done).
     restoreCaptivePortal ex (enableIPv6 ex (cleanupPolicyRouting ex (cleanupRules ex cfg s)), done))"

text \<open>\<open>Dump\<close>, with the outputs of the five commands as a parameter.\<close>

definition Dump :: "(string list \<Rightarrow> string) \<Rightarrow> string" where
  "Dump output =
     concat (map (\<lambda>t. ''=== TABLE '' @ t @ '' ==='' @ [nl] @
        TrimSpace (output [''iptables'', ''-w'', ''100'', ''-t'', t, ''-L'', ''-n'', ''-v'']) @ [nl, nl])
        [''nat'', ''mangle'', ''filter'']) @
     ''=== IP RULE ==='' @ [nl] @ output [''ip'', ''rule'', ''show''] @ [nl, nl] @
     ''=== IP ROUTE TABLE '' @ Itoa TableID @ '' ==='' @ [nl] @
       output [''ip'', ''route'', ''show'', ''table'', Itoa TableID] @ [nl]"

section \<open>Tables\<close>

text \<open>The rule tables as the commands see them: the rules of each chain of each table, \<open>None\<close> where
  there is no such chain.\<close>

type_synonym tables = "string \<Rightarrow> string \<Rightarrow> rule list option"

definition jumps :: "rule \<Rightarrow> string \<Rightarrow> bool" where
  "jumps r ch \<longleftrightarrow> sublist [''-j'', ch] r"

definition unreferenced :: "tables \<Rightarrow> string \<Rightarrow> string \<Rightarrow> bool" where
  "unreferenced v t ch \<longleftrightarrow> (\<forall>c rs. v t c = Some rs \<longrightarrow> list_all (\<lambda>r. \<not> jumps r ch) rs)"

definition builtin :: "string list" where
  "builtin = [''INPUT'', ''OUTPUT'', ''FORWARD'', ''PREROUTING'', ''POSTROUTING'']"

definition put :: "string \<Rightarrow> string \<Rightarrow> rule list option \<Rightarrow> tables \<Rightarrow> tables" where
  "put t c x v = v(t := (v t)(c := x))"

text \<open>What each command does to the tables when it does not fail for an outside reason.\<close>

definition t_new :: "string \<Rightarrow> string \<Rightarrow> tables \<Rightarrow> tables" where
  "t_new t c v = (if v t c = None then put t c (Some []) v else v)"

definition t_flush :: "string \<Rightarrow> string \<Rightarrow> tables \<Rightarrow> tables" where
  "t_flush t c v = (if v t c = None then v else put t c (Some []) v)"

definition t_remove_chain :: "string \<Rightarrow> string \<Rightarrow> tables \<Rightarrow> tables" where
  "t_remove_chain t c v =
     (if v t c = Some [] \<and> c \<notin> set builtin \<and> unreferenced v t c then put t c None v else v)"

definition t_delete :: "string \<Rightarrow> string \<Rightarrow> rule \<Rightarrow> tables \<Rightarrow> tables" where
  "t_delete t c r v = (case v t c of None \<Rightarrow> v | Some rs \<Rightarrow> put t c (Some (remove1 r rs)) v)"

definition t_append :: "string \<Rightarrow> string \<Rightarrow> rule \<Rightarrow> tables \<Rightarrow> tables" where
  "t_append t c r v = (case v t c of None \<Rightarrow> v | Some rs \<Rightarrow> put t c (Some (rs @ [r])) v)"

definition t_insert :: "string \<Rightarrow> string \<Rightarrow> rule \<Rightarrow> tables \<Rightarrow> tables" where
  "t_insert t c r v = (case v t c of None \<Rightarrow> v | Some rs \<Rightarrow> put t c (Some (r # rs)) v)"

text \<open>A rule specification starts with an option, so it is not taken for a position.\<close>

definition spec_ok :: "rule \<Rightarrow> bool" where
  "spec_ok r \<longleftrightarrow> r \<noteq> [] \<and> HasPrefix (hd r) ''-''"

abbreviation iptables_cmd :: "string \<Rightarrow> string \<Rightarrow> string list \<Rightarrow> string list" where
  "iptables_cmd t opt args \<equiv> [''iptables'', ''-w'', ''100'', ''-t'', t, opt] @ args"

text \<open>
  The documented behaviour of \<^verbatim>\<open>iptables\<close>: listing and checking change nothing and report what is
  there, a chain is created only when it is missing and removed only when it is empty, user-defined
  and unreferenced, deleting removes the first equal rule. Appending and inserting may fail, for
  example because the kernel lacks a match or a target, and then change nothing. Commands that are
  not \<^verbatim>\<open>iptables\<close> leave the IPv4 tables alone.
\<close>

locale netfilter =
  fixes ex :: "'s os" and view :: "'s \<Rightarrow> tables"
  assumes check: "ex (iptables_cmd t ''-C'' (c # r)) s = (ok, s') \<Longrightarrow>
      view s' = view s \<and> (ok \<longleftrightarrow> (\<exists>rs. view s t c = Some rs \<and> r \<in> set rs))"
    and list: "ex (iptables_cmd t ''-L'' [c, ''-n'']) s = (ok, s') \<Longrightarrow>
      view s' = view s \<and> (ok \<longleftrightarrow> view s t c \<noteq> None)"
    and new: "view (snd (ex (iptables_cmd t ''-N'' [c]) s)) = t_new t c (view s)"
    and flush: "view (snd (ex (iptables_cmd t ''-F'' [c]) s)) = t_flush t c (view s)"
    and remove: "view (snd (ex (iptables_cmd t ''-X'' [c]) s)) = t_remove_chain t c (view s)"
    and delete: "view (snd (ex (iptables_cmd t ''-D'' (c # r)) s)) = t_delete t c r (view s)"
    and append: "ex (iptables_cmd t ''-A'' (c # r)) s = (ok, s') \<Longrightarrow>
      view s' = (if ok then t_append t c r (view s) else view s) \<and> (ok \<longrightarrow> view s t c \<noteq> None)"
    and insert: "spec_ok r \<Longrightarrow> ex (iptables_cmd t ''-I'' (c # r)) s = (ok, s') \<Longrightarrow>
      view s' = (if ok then t_insert t c r (view s) else view s) \<and> (ok \<longrightarrow> view s t c \<noteq> None)"
    and insert_first: "ex (iptables_cmd t ''-I'' (c # ''1'' # r)) s = (ok, s') \<Longrightarrow>
      view s' = (if ok then t_insert t c r (view s) else view s)"
    and other: "c \<in> {''ip6tables'', ''sysctl''} \<or> c = ''/system/bin/sh'' \<and> list_all (\<lambda>a. \<not> Contains a ''iptables'') args \<Longrightarrow>
      view (snd (ex (c # args) s)) = view s"
begin

lemma view_newChain [simp]: "view (newChain ex t c s) = t_new t c (view s)"
  using new [of t c s] by (simp add: newChain_def ipt_def)

lemma view_flushChain [simp]: "view (flushChain ex t c s) = t_flush t c (view s)"
  using flush [of t c s] by (simp add: flushChain_def ipt_def)

lemma view_deleteChain [simp]: "view (deleteChain ex t c s) = t_remove_chain t c (view s)"
  using remove [of t c s] by (simp add: deleteChain_def ipt_def)

lemma view_delRule [simp]: "view (delRule ex t c r s) = t_delete t c r (view s)"
  using delete [of t c r s] by (simp add: delRule_def ipt_def)

lemma view_ruleExists: "ruleExists ex t c r s = (ok, s') \<Longrightarrow>
    view s' = view s \<and> (ok \<longleftrightarrow> (\<exists>rs. view s t c = Some rs \<and> r \<in> set rs))"
  using check [of t c r s ok s'] by (simp add: ruleExists_def ipt_def)

lemma view_ensureChain [simp]: "view (ensureChain ex t c s) = put t c (Some []) (view s)"
proof -
  obtain ok s1 where l: "chainExists ex t c s = (ok, s1)" by (metis surj_pair)
  have "view s1 = view s \<and> (ok \<longleftrightarrow> view s t c \<noteq> None)"
    using l list [of t c s ok s1] by (simp add: chainExists_def ipt_def)
  then show ?thesis by (auto simp: ensureChain_def l t_new_def t_flush_def put_def)
qed

lemma view_addRule: "view (addRule ex t c r s) \<in> {view s, t_append t c r (view s)}"
  using append [of t c r s] by (cases "ex (iptables_cmd t ''-A'' (c # r)) s") (auto simp: addRule_def ipt_def)

lemma view_insRule:
  "spec_ok r \<Longrightarrow> insRule ex t c r s = (ok, s') \<Longrightarrow>
     view s' = (if ok then t_insert t c r (view s) else view s) \<and> (ok \<longrightarrow> view s t c \<noteq> None)"
  using insert [of r t c s ok s'] by (simp add: insRule_def ipt_def)

lemma view_sh: "\<not> Contains line ''iptables'' \<Longrightarrow> view (sh ex line s) = view s"
proof -
  have "\<not> Contains ''-c'' ''iptables''" by code_simp
  then show "\<not> Contains line ''iptables'' \<Longrightarrow> view (sh ex line s) = view s"
    using other [of "''/system/bin/sh''" "[''-c'', line]" s] by (simp add: sh_def)
qed

lemma view_sh_lines:
  "list_all (\<lambda>l. \<not> Contains l ''iptables'') ls \<Longrightarrow> view (fold (sh ex) ls s) = view s"
  by (induction ls arbitrary: s) (simp_all add: view_sh)

lemma view_ip6t: "ip6t ex args s = (ok, s') \<Longrightarrow> view s' = view s"
  using other [of "''ip6tables''" "''-w'' # ''100'' # args" s] by (simp add: ip6t_def)

lemma view_ip6 [simp]: "view (ip6 ex args s) = view s"
  by (cases "ip6t ex ([''-t'', ''filter''] @ args) s") (simp add: ip6_def view_ip6t)

lemma view_ip6_fold [simp]: "view (fold (ip6 ex) as s) = view s"
  by (induction as arbitrary: s) simp_all

end

lemma setup_lines_plain:
  "list_all (\<lambda>l. \<not> Contains l ''iptables'') policy_lines"
  "list_all (\<lambda>l. \<not> Contains l ''iptables'') [policy_lines ! 0, policy_lines ! 2]"
  "list_all (\<lambda>l. \<not> Contains l ''iptables'') (ipv6_lines ''0'')"
  "list_all (\<lambda>l. \<not> Contains l ''iptables'') (ipv6_lines ''1'')"
  "list_all (\<lambda>l. \<not> Contains l ''iptables'') portal_off"
  "list_all (\<lambda>l. \<not> Contains l ''iptables'') portal_on"
  by code_simp+

context netfilter
begin

lemma view_setups [simp]:
  "view (setupPolicyRouting ex s) = view s" "view (cleanupPolicyRouting ex s) = view s"
  "view (enableIPv6 ex s) = view s"
proof -
  show "view (cleanupPolicyRouting ex s) = view s"
    unfolding cleanupPolicyRouting_def by (rule view_sh_lines [OF setup_lines_plain(2)])
qed (simp_all add: setupPolicyRouting_def enableIPv6_def view_sh_lines setup_lines_plain)

lemma view_setupSysctls [simp]: "view (setupSysctls ex s) = view s"
  unfolding setupSysctls_def by (rule view_sh_lines) code_simp

lemma view_tuneTCP [simp]: "view (tuneTCP ex s) = view s"
  unfolding tuneTCP_def by (rule view_sh_lines) code_simp

lemma view_disableIPv6 [simp]: "view (disableIPv6 ex s) = view s"
  unfolding disableIPv6_def Let_def
  by (auto simp: view_sh_lines setup_lines_plain dest!: view_ip6t split: prod.split bool.split)

lemma view_portal [simp]:
  "view (fst (disableCaptivePortal ex (s, d))) = view s" "view (fst (restoreCaptivePortal ex (s, d))) = view s"
  by (simp_all add: disableCaptivePortal_def restoreCaptivePortal_def view_sh_lines setup_lines_plain)

lemma view_detach: "view (detach ex hs s) = fold (\<lambda>(t, c, r). t_delete t c r) hs (view s)"
  unfolding detach_def by (induction hs arbitrary: s) auto

lemma view_destroy_chain [simp]:
  "view (destroy_chain ex ch s) =
     t_remove_chain ''mangle'' ch (t_flush ''mangle'' ch
       (t_remove_chain ''nat'' ch (t_flush ''nat'' ch (view s))))"
  by (simp add: destroy_chain_def)

end

section \<open>Tables without the rules of the daemon\<close>

text \<open>The chains that belong to the daemon in a table, and the rules that jump to them.\<close>

definition ours :: "string \<Rightarrow> string \<Rightarrow> string list" where
  "ours px t = allChains px @ (if t = ''mangle'' then [''DIVERT''] else [])"

definition cleaned_by :: "string list \<Rightarrow> tables \<Rightarrow> tables" where
  "cleaned_by C v t c =
     (if c \<in> set C then None else map_option (filter (\<lambda>r. \<not> list_ex (jumps r) C)) (v t c))"

text \<open>Tables whose references to our chains are hooks that a cleanup knows, each there once.\<close>

definition rule_ok :: "string \<Rightarrow> string list \<Rightarrow> string \<Rightarrow> string \<Rightarrow> rule list \<Rightarrow> rule \<Rightarrow> bool" where
  "rule_ok px ifaces t c rs r \<longleftrightarrow>
     (\<forall>ch \<in> set (allChains px). jumps r ch \<longrightarrow> (t, c, r) \<in> set (hooks ifaces ch) \<and> count_list rs r \<le> 1) \<and>
     (t = ''mangle'' \<and> jumps r ''DIVERT'' \<longrightarrow> c = ''PREROUTING'' \<and> r = divert_hook \<and> count_list rs r \<le> 1)"

definition detachable :: "string \<Rightarrow> string list \<Rightarrow> tables \<Rightarrow> bool" where
  "detachable px ifaces v \<longleftrightarrow>
     (\<forall>t \<in> {''nat'', ''mangle''}. \<forall>c rs r. v t c = Some rs \<longrightarrow> r \<in> set rs \<longrightarrow> rule_ok px ifaces t c rs r)"

lemma rule_ok_mono:
  "rule_ok px ifaces t c rs r \<Longrightarrow> count_list rs' r \<le> count_list rs r \<Longrightarrow> rule_ok px ifaces t c rs' r"
  by (auto simp: rule_ok_def)

subsection \<open>Lists\<close>

lemma remove1_filter: "count_list rs d \<le> 1 \<Longrightarrow> remove1 d rs = filter (\<lambda>r. r \<noteq> d) rs"
proof (induction rs)
  case (Cons r rs)
  show ?case
  proof (cases "r = d")
    case True
    then have "d \<notin> set rs" using Cons.prems by (simp add: count_list_0_iff)
    then have "filter (\<lambda>r. r \<noteq> d) rs = rs" by (auto simp: filter_id_conv)
    with True show ?thesis by simp
  qed (use Cons in simp)
qed simp

lemma count_list_filter_le: "count_list (filter P xs) x \<le> count_list xs x"
  by (induction xs) auto

lemma fold_remove1_filter:
  "\<forall>d \<in> set ds. count_list rs d \<le> 1 \<Longrightarrow> fold remove1 ds rs = filter (\<lambda>r. r \<notin> set ds) rs"
proof (induction ds arbitrary: rs)
  case (Cons d ds)
  have "fold remove1 (d # ds) rs = fold remove1 ds (filter (\<lambda>r. r \<noteq> d) rs)"
    using Cons.prems by (simp add: remove1_filter)
  also have "\<dots> = filter (\<lambda>r. r \<notin> set ds) (filter (\<lambda>r. r \<noteq> d) rs)"
    using Cons.prems by (intro Cons.IH) (meson count_list_filter_le le_trans list.set_intros(2))
  finally show ?case by (simp add: conj_commute)
qed simp

subsection \<open>Detaching and destroying a chain\<close>

lemma put_at [simp]: "put t c x v t' c' = (if t' = t \<and> c' = c then x else v t' c')"
  by (simp add: put_def)

definition rules_at :: "(string \<times> string \<times> rule) list \<Rightarrow> string \<Rightarrow> string \<Rightarrow> rule list" where
  "rules_at hs t c = map (\<lambda>(_, _, r). r) (filter (\<lambda>(t', c', _). t' = t \<and> c' = c) hs)"

lemma rules_at_simps:
  "rules_at [] t c = []"
  "rules_at ((t', c', r) # hs) t c = (if t' = t \<and> c' = c then r # rules_at hs t c else rules_at hs t c)"
  by (simp_all add: rules_at_def)

lemma in_rules_at: "r \<in> set (rules_at hs t c) \<longleftrightarrow> (t, c, r) \<in> set hs"
  by (induction hs) (auto simp: rules_at_simps split: if_splits)

lemma t_delete_at: "t_delete t c r v t' c' = (if t' = t \<and> c' = c then map_option (remove1 r) (v t c) else v t' c')"
  by (simp add: t_delete_def split: option.split)

lemma fold_t_delete_at:
  "fold (\<lambda>(t, c, r). t_delete t c r) hs v t c = map_option (fold remove1 (rules_at hs t c)) (v t c)"
  by (induction hs arbitrary: v)
    (auto simp: rules_at_simps t_delete_at option.map_comp comp_def option.map_id)

lemma destroy_unreferenced:
  assumes "unreferenced u t ch" "ch \<notin> set builtin"
  shows "t_remove_chain t ch (t_flush t ch u) = put t ch None u"
proof (cases "u t ch")
  case None
  then have "put t ch None u = u" by (simp add: put_def fun_upd_idem)
  with None show ?thesis by (simp add: t_flush_def t_remove_chain_def)
next
  case (Some rs)
  have "unreferenced (put t ch (Some []) u) t ch" using assms(1) by (auto simp: unreferenced_def)
  then show ?thesis using assms(2) Some by (auto simp: t_flush_def t_remove_chain_def put_def)
qed

lemma hooks_jump: "(t, c, r) \<in> set (hooks ifaces ch) \<Longrightarrow> jumps r ch"
  by (auto simp: hooks_def jumps_def sublist_code)

lemma allChains_not_builtin: "ch \<in> set (allChains px) \<Longrightarrow> ch \<notin> set builtin \<and> ch \<noteq> ''DIVERT''"
proof -
  assume "ch \<in> set (allChains px)"
  then have "CHR ''_'' \<in> set ch" by (auto simp: allChains_def)
  then show ?thesis by (auto simp: builtin_def)
qed

text \<open>One turn of the loop over the chains, on tables: detach, flush and remove.\<close>

definition t_drop_chain :: "string list \<Rightarrow> string \<Rightarrow> tables \<Rightarrow> tables" where
  "t_drop_chain ifaces ch v =
     (let u = fold (\<lambda>(t, c, r). t_delete t c r) (hooks ifaces ch) v in
      t_remove_chain ''mangle'' ch (t_flush ''mangle'' ch (t_remove_chain ''nat'' ch (t_flush ''nat'' ch u))))"

abbreviation ipv4_tables :: "string set" where "ipv4_tables \<equiv> {''nat'', ''mangle''}"

lemma cleaned_by_snoc:
  "cleaned_by (C @ [ch]) v t c =
     (if c = ch then None else map_option (filter (\<lambda>r. \<not> jumps r ch)) (cleaned_by C v t c))"
  by (auto simp: cleaned_by_def option.map_comp comp_def list_ex_iff intro!: option.map_cong filter_cong)

lemma detach_step:
  assumes det: "detachable px ifaces v" and ch: "ch \<in> set (allChains px)" and t: "t \<in> ipv4_tables"
    and w: "w t = cleaned_by C v t"
  shows "fold (\<lambda>(t, c, r). t_delete t c r) (hooks ifaces ch) w t c =
         map_option (filter (\<lambda>r. \<not> jumps r ch)) (cleaned_by C v t c)"
proof (cases "cleaned_by C v t c")
  case None
  then show ?thesis by (simp add: fold_t_delete_at w)
next
  case (Some rs')
  then obtain rs where rs: "v t c = Some rs" and rs': "rs' = filter (\<lambda>r. \<not> list_ex (jumps r) C) rs"
    by (auto simp: cleaned_by_def split: if_splits)
  have known: "(t, c, r) \<in> set (hooks ifaces ch) \<and> count_list rs r \<le> 1" if "r \<in> set rs" "jumps r ch" for r
    using det ch t rs that by (auto simp: detachable_def rule_ok_def)
  have one: "count_list rs' d \<le> 1" if "d \<in> set (rules_at (hooks ifaces ch) t c)" for d
  proof (cases "d \<in> set rs")
    case True
    have "jumps d ch" using that hooks_jump by (auto simp: in_rules_at)
    then have "count_list rs d \<le> 1" using known True by blast
    moreover have "count_list rs' d \<le> count_list rs d" unfolding rs' by (rule count_list_filter_le)
    ultimately show ?thesis by linarith
  next
    case False
    then show ?thesis by (simp add: rs' count_list_0_iff)
  qed
  have "fold remove1 (rules_at (hooks ifaces ch) t c) rs' =
      filter (\<lambda>r. r \<notin> set (rules_at (hooks ifaces ch) t c)) rs'"
    using one by (intro fold_remove1_filter) blast
  also have "\<dots> = filter (\<lambda>r. \<not> jumps r ch) rs'"
    using known hooks_jump by (intro filter_cong) (auto simp: in_rules_at rs')
  finally show ?thesis using Some by (simp add: fold_t_delete_at w)
qed

lemma drop_chain_step:
  assumes det: "detachable px ifaces v" and ch: "ch \<in> set (allChains px)"
    and w: "\<forall>t \<in> ipv4_tables. w t = cleaned_by C v t"
  shows "\<forall>t \<in> ipv4_tables. t_drop_chain ifaces ch w t = cleaned_by (C @ [ch]) v t"
proof -
  define u where "u = fold (\<lambda>(t, c, r). t_delete t c r) (hooks ifaces ch) w"
  have u: "u t c = map_option (filter (\<lambda>r. \<not> jumps r ch)) (cleaned_by C v t c)" if "t \<in> ipv4_tables" for t c
    unfolding u_def using detach_step [OF det ch that] w that by blast
  have unref: "unreferenced u t ch" if "t \<in> ipv4_tables" for t
    using u [OF that] by (auto simp: unreferenced_def list_all_iff)
  have nb: "ch \<notin> set builtin" using allChains_not_builtin [OF ch] by blast
  have 1: "t_remove_chain ''nat'' ch (t_flush ''nat'' ch u) = put ''nat'' ch None u"
    by (rule destroy_unreferenced) (use unref nb in auto)
  have "unreferenced (put ''nat'' ch None u) ''mangle'' ch"
    using unref [of "''mangle''"] by (simp add: unreferenced_def)
  then have 2: "t_drop_chain ifaces ch w = put ''mangle'' ch None (put ''nat'' ch None u)"
    using nb by (simp add: t_drop_chain_def Let_def u_def [symmetric] 1 destroy_unreferenced)
  show ?thesis
  proof
    fix t assume t: "t \<in> ipv4_tables"
    show "t_drop_chain ifaces ch w t = cleaned_by (C @ [ch]) v t"
      using t u [OF t] by (auto simp: 2 cleaned_by_snoc fun_eq_iff)
  qed
qed

lemma drop_chains:
  assumes det: "detachable px ifaces v" and "set chs \<subseteq> set (allChains px)"
    and w: "\<forall>t \<in> ipv4_tables. w t = cleaned_by C v t"
  shows "\<forall>t \<in> ipv4_tables. fold (t_drop_chain ifaces) chs w t = cleaned_by (C @ chs) v t"
  using assms(2) w
proof (induction chs arbitrary: C w)
  case (Cons ch chs)
  have "\<forall>t \<in> ipv4_tables. t_drop_chain ifaces ch w t = cleaned_by (C @ [ch]) v t"
    using Cons.prems by (intro drop_chain_step [OF det]) auto
  from Cons.IH [OF _ this] Cons.prems(1) show ?case by simp
qed simp

subsection \<open>The whole cleanup\<close>

definition cleaned :: "string \<Rightarrow> tables \<Rightarrow> tables" where
  "cleaned px v t = cleaned_by (ours px t) v t"

lemma filter_remove1_other: "\<not> P d \<Longrightarrow> filter P (remove1 d rs) = filter P rs"
  by (induction rs) auto

lemma count_list_remove1_le: "count_list (remove1 d rs) x \<le> count_list rs x"
  by (induction rs) auto

lemma count_list_remove1_same: "count_list rs d \<le> 1 \<Longrightarrow> d \<notin> set (remove1 d rs)"
  by (induction rs) (auto simp: count_list_0_iff)

lemma detachable_delete:
  assumes "detachable px ifaces v"
  shows "detachable px ifaces (t_delete t c r v)"
proof -
  have "rule_ok px ifaces t' c' rs x"
    if t': "t' \<in> ipv4_tables" and rs: "t_delete t c r v t' c' = Some rs" and x: "x \<in> set rs" for t' c' rs x
  proof -
    obtain rs0 where "v t' c' = Some rs0" "set rs \<subseteq> set rs0" "count_list rs x \<le> count_list rs0 x"
      using rs set_remove1_subset [of r]
      by (auto simp: t_delete_at count_list_remove1_le split: if_splits)
    then show ?thesis using assms t' x rule_ok_mono unfolding detachable_def by (meson subsetD)
  qed
  then show ?thesis unfolding detachable_def by blast
qed

lemma cleaned_delete:
  assumes "ch \<in> set (ours px t)" "jumps r ch"
  shows "cleaned px (t_delete t c r v) t' = cleaned px v t'"
proof
  fix c'
  have "\<not> \<not> list_ex (jumps r) (ours px t)" using assms by (auto simp: list_ex_iff)
  then have "filter (\<lambda>r. \<not> list_ex (jumps r) (ours px t)) (remove1 r rs) =
      filter (\<lambda>r. \<not> list_ex (jumps r) (ours px t)) rs" for rs
    by (rule filter_remove1_other)
  then show "cleaned px (t_delete t c r v) t' c' = cleaned px v t' c'"
    by (auto simp: cleaned_def cleaned_by_def t_delete_at option.map_comp comp_def)
qed

definition first_hooks :: "string \<Rightarrow> (string \<times> string \<times> rule) list" where
  "first_hooks px =
     [(''nat'', ''OUTPUT'', [''-p'', ''tcp'', ''-j'', px @ ''_OUT'']),
      (''mangle'', ''PREROUTING'', [''-j'', px @ ''_PRE'']),
      (''mangle'', ''PREROUTING'', divert_hook)]"

lemma first_hooks_ours:
  "\<forall>(t, c, r) \<in> set (first_hooks px). \<exists>ch. ch \<in> set (ours px t) \<and> jumps r ch"
  by (auto simp: first_hooks_def ours_def allChains_def divert_hook_def jumps_def sublist_code)

lemma cleaned_deletes:
  "\<forall>(t, c, r) \<in> set hs. \<exists>ch. ch \<in> set (ours px t) \<and> jumps r ch \<Longrightarrow>
   cleaned px (fold (\<lambda>(t, c, r). t_delete t c r) hs v) t' = cleaned px v t'"
proof (induction hs arbitrary: v)
  case (Cons h hs)
  obtain t c r where h: "h = (t, c, r)" by (cases h)
  then obtain ch where "ch \<in> set (ours px t)" "jumps r ch" using Cons.prems by auto
  then show ?case using Cons by (simp add: h cleaned_delete)
qed simp

lemma detachable_deletes:
  "detachable px ifaces v \<Longrightarrow> detachable px ifaces (fold (\<lambda>(t, c, r). t_delete t c r) hs v)"
  by (induction hs arbitrary: v) (auto simp: detachable_delete)

lemma no_divert_left:
  assumes det: "detachable px ifaces v"
    and v1: "v1 = fold (\<lambda>(t, c, r). t_delete t c r) (first_hooks px) v"
    and rs: "v1 ''mangle'' c = Some rs"
  shows "list_all (\<lambda>r. \<not> jumps r ''DIVERT'') rs"
proof -
  have "detachable px ifaces v1" unfolding v1 by (rule detachable_deletes [OF det])
  then have all: "c = ''PREROUTING'' \<and> r = divert_hook" if "r \<in> set rs" "jumps r ''DIVERT''" for r
    using rs that by (auto simp: detachable_def rule_ok_def)
  have "divert_hook \<notin> set rs" if c: "c = ''PREROUTING''"
  proof (cases "v ''mangle'' ''PREROUTING''")
    case (Some rs0)
    have rs': "rs = remove1 divert_hook (remove1 [''-j'', px @ ''_PRE''] rs0)"
      using rs Some c by (simp add: v1 first_hooks_def t_delete_at)
    have "count_list (remove1 [''-j'', px @ ''_PRE''] rs0) divert_hook \<le> 1"
    proof (cases "divert_hook \<in> set rs0")
      case True
      have "jumps divert_hook ''DIVERT''" by (simp add: divert_hook_def jumps_def sublist_code)
      then have "count_list rs0 divert_hook \<le> 1" using det Some True by (auto simp: detachable_def rule_ok_def)
      then show ?thesis by (meson count_list_remove1_le le_trans)
    next
      case False
      then show ?thesis by (metis count_list_0_iff count_list_remove1_le le_zero_eq zero_le_one)
    qed
    then show ?thesis unfolding rs' by (rule count_list_remove1_same)
  qed (use rs c in \<open>simp add: v1 first_hooks_def t_delete_at\<close>)
  then show ?thesis using all by (auto simp: list_all_iff)
qed

lemma cleaned_by_Nil: "cleaned_by [] v = v"
proof (intro ext)
  fix t c
  show "cleaned_by [] v t c = v t c" by (cases "v t c") (simp_all add: cleaned_by_def)
qed

lemma cleanup_tables_pure:
  assumes det: "detachable px ifaces v" and t: "t \<in> ipv4_tables"
  shows "t_remove_chain ''mangle'' ''DIVERT'' (t_flush ''mangle'' ''DIVERT''
           (fold (t_drop_chain ifaces) (allChains px)
              (fold (\<lambda>(t, c, r). t_delete t c r) (first_hooks px) v))) t = cleaned px v t"
proof -
  define v1 where "v1 = fold (\<lambda>(t, c, r). t_delete t c r) (first_hooks px) v"
  define w where "w = fold (t_drop_chain ifaces) (allChains px) v1"
  have w: "\<forall>t \<in> ipv4_tables. w t = cleaned_by (allChains px) v1 t"
    using drop_chains [of px ifaces v1 "allChains px" v1 "[]"] detachable_deletes [OF det, of "first_hooks px"]
    unfolding w_def by (simp add: v1_def [symmetric] cleaned_by_Nil)
  have nd: "list_all (\<lambda>r. \<not> jumps r ''DIVERT'') rs" if "v1 ''mangle'' c = Some rs" for c rs
    by (rule no_divert_left [OF det v1_def that])
  have "unreferenced w ''mangle'' ''DIVERT''"
    using w nd by (fastforce simp: unreferenced_def cleaned_by_def list_all_iff split: if_splits)
  then have d: "t_remove_chain ''mangle'' ''DIVERT'' (t_flush ''mangle'' ''DIVERT'' w) = put ''mangle'' ''DIVERT'' None w"
    by (rule destroy_unreferenced) (simp add: builtin_def)
  have "put ''mangle'' ''DIVERT'' None w t = cleaned px v1 t"
  proof
    fix c
    have "filter (\<lambda>r. \<not> list_ex (jumps r) (allChains px)) rs =
        filter (\<lambda>r. \<not> list_ex (jumps r) (ours px ''mangle'')) rs" if "v1 ''mangle'' c = Some rs" for rs
      using nd [OF that] by (intro filter_cong) (auto simp: ours_def list_all_iff)
    then show "put ''mangle'' ''DIVERT'' None w t c = cleaned px v1 t c"
      using t w by (cases "v1 ''mangle'' c") (auto simp: cleaned_def cleaned_by_def ours_def)
  qed
  moreover have "cleaned px v1 t = cleaned px v t"
    unfolding v1_def by (rule cleaned_deletes [OF first_hooks_ours])
  ultimately show ?thesis by (simp add: d w_def [symmetric] v1_def [symmetric])
qed

section \<open>Cleanup and Apply\<close>

text \<open>
  The state of the tables while the rules are being installed over the original tables \<open>v0\<close>: up to
  our chains and the hooks that lead to them, the tables are the original ones, and every hook is one
  that a cleanup removes.
\<close>

definition over :: "ipt_cfg \<Rightarrow> tables \<Rightarrow> tables \<Rightarrow> bool" where
  "over cfg v0 v \<longleftrightarrow>
     detachable (chain_prefix cfg) (hotspot_ifaces (I_HotspotIfaces cfg)) v \<and>
     (\<forall>t \<in> ipv4_tables. cleaned (chain_prefix cfg) v t = v0 t)"

lemma cleaned_cong: "v' t = v t \<Longrightarrow> cleaned px v' t = cleaned px v t"
  by (simp add: cleaned_def cleaned_by_def fun_eq_iff)

lemma over_same:
  assumes "over cfg v0 v" "\<And>t. t \<in> ipv4_tables \<Longrightarrow> v' t = v t"
  shows "over cfg v0 v'"
  using assms(1) unfolding over_def detachable_def by (simp add: assms(2) cleaned_cong [OF assms(2)])

context netfilter
begin

lemma view_drop_loop:
  "view (fold (\<lambda>ch s. destroy_chain ex ch (detach ex (hooks ifaces ch) s)) chs s) =
     fold (t_drop_chain ifaces) chs (view s)"
  by (induction chs arbitrary: s) (simp_all add: t_drop_chain_def Let_def view_detach)

lemma view_unblock_loop: "t \<noteq> ''filter'' \<Longrightarrow> view (unblock_loop ex r n s) t = view s t"
proof (induction n arbitrary: s)
  case (Suc n)
  obtain ok s1 where q: "ruleExists ex ''filter'' ''OUTPUT'' r s = (ok, s1)" by (metis surj_pair)
  have "view (delRule ex ''filter'' ''OUTPUT'' r s1) t = view s t"
    using Suc.prems view_ruleExists [OF q] by (auto simp: fun_eq_iff t_delete_at)
  then show ?case using Suc view_ruleExists [OF q] by (simp add: q split: bool.split)
qed simp

lemma view_unblockQUIC: "t \<noteq> ''filter'' \<Longrightarrow> view (unblockQUIC ex s) t = view s t"
  by (simp add: unblockQUIC_def view_unblock_loop)

lemma view_cleanupRules:
  assumes "detachable (chain_prefix cfg) (hotspot_ifaces (I_HotspotIfaces cfg)) (view s)" "t \<in> ipv4_tables"
  shows "view (cleanupRules ex cfg s) t = cleaned (chain_prefix cfg) (view s) t"
proof -
  have "view (cleanupRules ex cfg s) t =
      t_remove_chain ''mangle'' ''DIVERT'' (t_flush ''mangle'' ''DIVERT''
        (fold (t_drop_chain (hotspot_ifaces (I_HotspotIfaces cfg))) (allChains (chain_prefix cfg))
           (fold (\<lambda>(t, c, r). t_delete t c r) (first_hooks (chain_prefix cfg)) (view s)))) t"
    using assms(2)
    by (auto simp: cleanupRules_def Let_def view_unblockQUIC view_drop_loop view_detach first_hooks_def
        fun_eq_iff t_delete_at)
  then show ?thesis by (simp add: cleanup_tables_pure [OF assms])
qed

lemma over_cleanup: "over cfg v0 (view s) \<Longrightarrow> t \<in> ipv4_tables \<Longrightarrow> view (cleanupRules ex cfg s) t = v0 t"
  by (auto simp: over_def view_cleanupRules)

end

lemma cleaned_put_ours:
  "c \<in> set (ours px t) \<Longrightarrow> cleaned px (put t c x v) t' = cleaned px v t'"
  by (auto simp: cleaned_def cleaned_by_def fun_eq_iff)

definition plain_rule :: "string \<Rightarrow> string \<Rightarrow> rule \<Rightarrow> bool" where
  "plain_rule px t r \<longleftrightarrow> \<not> list_ex (jumps r) (ours px t)"

lemma plain_rule_ok: "plain_rule px t r \<Longrightarrow> rule_ok px ifaces t c rs r"
  by (auto simp: plain_rule_def rule_ok_def ours_def list_ex_iff)

text \<open>The hooks that are installed: known to the cleanup, and leading to one of our chains.\<close>

definition known_hook :: "string \<Rightarrow> string list \<Rightarrow> string \<Rightarrow> string \<Rightarrow> rule \<Rightarrow> bool" where
  "known_hook px ifaces t c r \<longleftrightarrow>
     list_ex (jumps r) (ours px t) \<and> spec_ok r \<and>
     (\<forall>ch \<in> set (allChains px). jumps r ch \<longrightarrow> (t, c, r) \<in> set (hooks ifaces ch)) \<and>
     (t = ''mangle'' \<and> jumps r ''DIVERT'' \<longrightarrow> c = ''PREROUTING'' \<and> r = divert_hook)"

lemma detachable_hook:
  assumes det: "detachable px ifaces v" and t: "t \<in> ipv4_tables" and rs: "v t c = Some rs"
    and hook: "known_hook px ifaces t c r" and ndup: "r \<notin> set rs"
  shows "detachable px ifaces (put t c (Some (r # rs)) v)"
  unfolding detachable_def
proof (intro ballI allI impI)
  fix t' c' rs' x assume t': "t' \<in> ipv4_tables" and at: "put t c (Some (r # rs)) v t' c' = Some rs'" and x: "x \<in> set rs'"
  show "rule_ok px ifaces t' c' rs' x"
  proof (cases "t' = t \<and> c' = c")
    case False
    then show ?thesis using det t' at x by (auto simp: detachable_def)
  next
    case True
    then have rs': "rs' = r # rs" using at by simp
    show ?thesis
    proof (cases "x = r")
      case True
      then have "count_list rs' x = 1" using rs' ndup by (simp add: count_list_0_iff)
      then show ?thesis using hook \<open>t' = t \<and> c' = c\<close> True by (auto simp: rule_ok_def known_hook_def)
    next
      case False
      then have "rule_ok px ifaces t c rs x" using det t rs x rs' by (auto simp: detachable_def)
      then show ?thesis
        using \<open>t' = t \<and> c' = c\<close> False by (auto simp: rs' intro: rule_ok_mono)
    qed
  qed
qed

lemma cleaned_insert_hook:
  assumes "list_ex (jumps r) (ours px t)" "v t c = Some rs"
  shows "cleaned px (put t c (Some (r # rs)) v) t' = cleaned px v t'"
  using assms by (auto simp: cleaned_def cleaned_by_def fun_eq_iff)

lemma our_chain: "ch \<in> set (ours px t) \<Longrightarrow> CHR ''_'' \<in> set ch \<or> ch = ''DIVERT''"
  by (auto simp: ours_def allChains_def split: if_splits)

lemma our_chain_neq:
  assumes "ch \<in> set (ours px t)"
  shows "ch \<noteq> ''-j''" "ch \<noteq> ''RETURN''" "ch \<noteq> ''REDIRECT''" "ch \<noteq> ''TPROXY''" "ch \<noteq> ''DNAT''" "ch \<noteq> ''ACCEPT''"
    "ch \<noteq> ''MARK''" "ch \<noteq> ''-p''" "ch \<noteq> ''--dport''"
  using our_chain [OF assms] by auto

lemma jumps_Cons: "jumps (a # r) ch \<longleftrightarrow> (a = ''-j'' \<and> r \<noteq> [] \<and> hd r = ch) \<or> jumps r ch"
  by (cases r) (auto simp: jumps_def sublist_Cons_right)

lemma jumps_Nil [simp]: "\<not> jumps [] ch"
  by (simp add: jumps_def)

lemma plain_rules:
  "list_all (plain_rule px t) (redirect_rules cfg ips)" "list_all (plain_rule px t) (tproxy_rules cfg ips)"
  "list_all (plain_rule px t) [[''-j'', ''MARK'', ''--set-xmark'', MarkStr], [''-j'', ''ACCEPT'']]"
  "list_all (plain_rule px t) [[''-m'', ''owner'', ''--uid-owner'', ''0'', ''-j'', ''RETURN''],
     [''-p'', ''udp'', ''--dport'', ''53'', ''-j'', ''DNAT'', ''--to-destination'', x]]"
proof -
  have plainI: "plain_rule px t r" if "\<And>ch. CHR ''_'' \<in> set ch \<or> ch = ''DIVERT'' \<Longrightarrow> \<not> jumps r ch" for r
    using that our_chain unfolding plain_rule_def list_ex_iff by blast
  have 1: "plain_rule px t (to_return x)" "plain_rule px t [''-p'', ''tcp'', ''--dport'', x, ''-j'', ''RETURN'']"
    "plain_rule px t [''-p'', ''udp'', ''--dport'', ''53'', ''-j'', ''RETURN'']"
    "plain_rule px t [''-m'', ''owner'', ''--uid-owner'', ''0'', ''-j'', ''RETURN'']"
    "plain_rule px t [''-i'', ''lo'', ''-m'', ''mark'', ''!'', ''--mark'', MarkStr, ''-j'', ''RETURN'']" for x
    by (rule plainI; auto simp: jumps_Cons to_return_def MarkStr_def)+
  have 2: "plain_rule px t [''-p'', ''tcp'', ''-j'', ''REDIRECT'', ''--to-ports'', x]"
    "plain_rule px t [''-p'', ''tcp'', ''-j'', ''TPROXY'', ''--on-port'', x, ''--tproxy-mark'', MarkStr]"
    "plain_rule px t [''-p'', ''udp'', ''--dport'', ''53'', ''-j'', ''DNAT'', ''--to-destination'', x]"
    "plain_rule px t [''-j'', ''MARK'', ''--set-xmark'', MarkStr]" "plain_rule px t [''-j'', ''ACCEPT'']" for x
    by (rule plainI; auto simp: jumps_Cons MarkStr_def)+
  show "list_all (plain_rule px t) (redirect_rules cfg ips)"
    unfolding redirect_rules_def dns_return_def list_all_iff by (auto intro: 1 2)
  show "list_all (plain_rule px t) (tproxy_rules cfg ips)"
    unfolding tproxy_rules_def dns_return_def list_all_iff by (auto intro: 1 2)
  show "list_all (plain_rule px t) [[''-j'', ''MARK'', ''--set-xmark'', MarkStr], [''-j'', ''ACCEPT'']]"
    by (simp add: 2)
  show "list_all (plain_rule px t) [[''-m'', ''owner'', ''--uid-owner'', ''0'', ''-j'', ''RETURN''],
     [''-p'', ''udp'', ''--dport'', ''53'', ''-j'', ''DNAT'', ''--to-destination'', x]]"
    by (simp add: 1 2)
qed

lemma known_hooks:
  "known_hook px ifaces ''nat'' ''OUTPUT'' [''-p'', ''tcp'', ''-j'', px @ ''_OUT'']"
  "known_hook px ifaces ''mangle'' ''PREROUTING'' [''-j'', px @ ''_PRE'']"
  "known_hook px ifaces ''mangle'' ''PREROUTING'' divert_hook"
  "known_hook px ifaces ''nat'' ''OUTPUT'' [''-p'', ''udp'', ''--dport'', ''53'', ''-j'', px @ ''_DNS'']"
  "i \<in> set ifaces \<Longrightarrow>
   known_hook px ifaces ''nat'' ''PREROUTING'' [''-i'', i, ''-p'', ''udp'', ''--dport'', ''53'', ''-j'', px @ ''_DNS'']"
proof -
  have o: "px @ ''_OUT'' \<in> set (allChains px)" "px @ ''_PRE'' \<in> set (allChains px)" "px @ ''_DNS'' \<in> set (allChains px)"
    by (simp_all add: allChains_def)
  have n: "ch \<noteq> ''DIVERT''" "ch \<noteq> ''-p''" if "ch \<in> set (allChains px)" for ch
    using that our_chain_neq(8) [of ch px "''nat''"] allChains_not_builtin [OF that] by (auto simp: ours_def)
  note d = known_hook_def spec_ok_def HasPrefix_def list_ex_iff ours_def jumps_Cons hooks_def
  show "known_hook px ifaces ''nat'' ''OUTPUT'' [''-p'', ''tcp'', ''-j'', px @ ''_OUT'']"
    using o by (auto simp: d)
  show "known_hook px ifaces ''mangle'' ''PREROUTING'' [''-j'', px @ ''_PRE'']"
    using o n by (auto simp: d)
  show "known_hook px ifaces ''mangle'' ''PREROUTING'' divert_hook"
    using n by (auto simp: d divert_hook_def)
  show "known_hook px ifaces ''nat'' ''OUTPUT'' [''-p'', ''udp'', ''--dport'', ''53'', ''-j'', px @ ''_DNS'']"
    using o by (auto simp: d)
  show "known_hook px ifaces ''nat'' ''PREROUTING'' [''-i'', i, ''-p'', ''udp'', ''--dport'', ''53'', ''-j'', px @ ''_DNS'']"
    if "i \<in> set ifaces"
    using o n that by (auto simp: d)
qed

end
