(* ===== verification/TransparentRules.thy ===== *)
theory TransparentRules
  imports Iptables
begin

text \<open>
  What installing and removing the rules of \<^verbatim>\<open>internal/iptables/iptables.go\<close> does to the rule tables,
  under the documented behaviour of the commands (the locale \<open>netfilter\<close>): whatever fails, the
  removal gives the tables back as they were, and an installation whose commands succeed leaves
  exactly the chains the code lists. The locale is interpreted on a concrete rule table.
\<close>

section \<open>Keeping the tables detachable\<close>

lemma over_put_ours:
  assumes "over cfg v0 v" "c \<in> set (ours (chain_prefix cfg) t)" "list_all (plain_rule (chain_prefix cfg) t) rs"
  shows "over cfg v0 (put t c (Some rs) v)"
proof -
  have "detachable (chain_prefix cfg) (hotspot_ifaces (I_HotspotIfaces cfg)) (put t c (Some rs) v)"
    using assms(1,3) unfolding over_def detachable_def
    by (auto simp: list_all_iff intro: plain_rule_ok)
  then show ?thesis using assms(1) cleaned_put_ours [OF assms(2)] by (simp add: over_def)
qed

lemma known_hook_once:
  assumes "detachable px ifaces v" "t \<in> ipv4_tables" "known_hook px ifaces t c r" "v t c' = Some rs"
  shows "count_list rs r \<le> 1"
proof (cases "r \<in> set rs")
  case True
  then have ok: "rule_ok px ifaces t c' rs r" using assms by (auto simp: detachable_def)
  obtain ch where "ch \<in> set (ours px t)" "jumps r ch" using assms(3) by (auto simp: known_hook_def list_ex_iff)
  then show ?thesis using ok by (auto simp: ours_def rule_ok_def split: if_splits)
next
  case False
  then show ?thesis by (simp add: count_list_0_iff)
qed

lemma over_delete_hook:
  assumes "over cfg v0 v" "known_hook (chain_prefix cfg) (hotspot_ifaces (I_HotspotIfaces cfg)) t c r"
  shows "over cfg v0 (t_delete t c r v)"
proof -
  obtain ch where "ch \<in> set (ours (chain_prefix cfg) t)" "jumps r ch"
    using assms(2) by (auto simp: known_hook_def list_ex_iff)
  then show ?thesis using assms(1) by (simp add: over_def detachable_delete cleaned_delete)
qed

lemma over_insert_hook:
  assumes ov: "over cfg v0 v" and t: "t \<in> ipv4_tables"
    and hook: "known_hook (chain_prefix cfg) (hotspot_ifaces (I_HotspotIfaces cfg)) t c r"
  shows "over cfg v0 (t_insert t c r (t_delete t c r v))"
proof (cases "v t c")
  case None
  then show ?thesis using over_delete_hook [OF ov hook] by (simp add: t_insert_def t_delete_at)
next
  case (Some rs)
  define w where "w = t_delete t c r v"
  have w: "over cfg v0 w" "w t c = Some (remove1 r rs)"
    using over_delete_hook [OF ov hook] Some by (simp_all add: w_def t_delete_at)
  have "count_list rs r \<le> 1" using ov hook t Some by (intro known_hook_once [of _ _ v]) (auto simp: over_def)
  then have "r \<notin> set (remove1 r rs)" by (rule count_list_remove1_same)
  then have "detachable (chain_prefix cfg) (hotspot_ifaces (I_HotspotIfaces cfg)) (put t c (Some (r # remove1 r rs)) w)"
    using w t hook by (intro detachable_hook) (auto simp: over_def)
  moreover have "cleaned (chain_prefix cfg) (put t c (Some (r # remove1 r rs)) w) t' = cleaned (chain_prefix cfg) w t'" for t'
    using hook w by (intro cleaned_insert_hook) (auto simp: known_hook_def)
  ultimately show ?thesis using w by (simp add: over_def t_insert_def w_def [symmetric])
qed

context netfilter
begin

lemma over_addRules:
  assumes "over cfg v0 (view s)" "c \<in> set (ours (chain_prefix cfg) t)"
    "list_all (plain_rule (chain_prefix cfg) t) rs"
    "\<exists>xs. view s t c = Some xs \<and> list_all (plain_rule (chain_prefix cfg) t) xs"
  shows "over cfg v0 (view (addRules ex t c rs s))"
  using assms
proof (induction rs arbitrary: s)
  case (Cons r rs)
  obtain xs where xs: "view s t c = Some xs" "list_all (plain_rule (chain_prefix cfg) t) xs" using Cons.prems(4) by blast
  have app: "over cfg v0 (put t c (Some (xs @ [r])) (view s))"
    using Cons.prems xs by (intro over_put_ours) auto
  have "over cfg v0 (view (addRule ex t c r s)) \<and>
      (\<exists>xs. view (addRule ex t c r s) t c = Some xs \<and> list_all (plain_rule (chain_prefix cfg) t) xs)"
    using view_addRule [of t c r s] app xs Cons.prems by (auto simp: t_append_def)
  then show ?case using Cons by (simp add: addRules_def)
qed (simp add: addRules_def)

lemma over_ensureChain:
  assumes "over cfg v0 (view s)" "c \<in> set (ours (chain_prefix cfg) t)"
    "list_all (plain_rule (chain_prefix cfg) t) rs"
  shows "over cfg v0 (view (addRules ex t c rs (ensureChain ex t c s)))"
  using assms by (intro over_addRules) (simp_all add: over_put_ours)

lemma over_rehook:
  assumes "over cfg v0 (view s)" "t \<in> ipv4_tables"
    "known_hook (chain_prefix cfg) (hotspot_ifaces (I_HotspotIfaces cfg)) t c r"
    "rehook ex t c r s = (ok, s')"
  shows "over cfg v0 (view s')"
proof -
  have "spec_ok r" using assms(3) by (simp add: known_hook_def)
  then have "view s' = (if ok then t_insert t c r (t_delete t c r (view s)) else t_delete t c r (view s))"
    using view_insRule assms(4) unfolding rehook_def by fastforce
  then show ?thesis using over_delete_hook over_insert_hook assms by auto
qed

lemma over_rehook_snd:
  assumes "over cfg v0 (view s)" "t \<in> ipv4_tables"
    "known_hook (chain_prefix cfg) (hotspot_ifaces (I_HotspotIfaces cfg)) t c r"
  shows "over cfg v0 (view (snd (rehook ex t c r s)))"
  using over_rehook [OF assms] by (metis prod.collapse)

lemma over_install:
  assumes "over cfg v0 (view s)" "t \<in> ipv4_tables" "c \<in> set (ours (chain_prefix cfg) t)"
    "list_all (plain_rule (chain_prefix cfg) t) rs"
    "known_hook (chain_prefix cfg) (hotspot_ifaces (I_HotspotIfaces cfg)) t p r"
    "install ex t c rs p r s = (ok, s')"
  shows "over cfg v0 (view s')"
  using over_rehook [OF over_ensureChain] assms unfolding install_def by blast

lemma our_names:
  "chain_prefix cfg @ ''_OUT'' \<in> set (ours (chain_prefix cfg) t)"
  "chain_prefix cfg @ ''_PRE'' \<in> set (ours (chain_prefix cfg) t)"
  "chain_prefix cfg @ ''_DNS'' \<in> set (ours (chain_prefix cfg) t)"
  "''DIVERT'' \<in> set (ours (chain_prefix cfg) ''mangle'')"
  by (simp_all add: ours_def allChains_def)

lemma over_setupDIVERT: "over cfg v0 (view s) \<Longrightarrow> over cfg v0 (view (setupDIVERT ex s))"
  unfolding setupDIVERT_def by (intro over_rehook_snd over_ensureChain our_names plain_rules known_hooks) auto

lemma over_setupDNS:
  assumes "over cfg v0 (view s)"
  shows "over cfg v0 (view (setupDNS ex (chain_prefix cfg @ ''_DNS'') p h hdns (I_HotspotIfaces cfg) s))"
proof -
  have "over cfg v0 (view (fold (\<lambda>i s. snd (rehook ex ''nat'' ''PREROUTING''
      [''-i'', i, ''-p'', ''udp'', ''--dport'', ''53'', ''-j'', chain_prefix cfg @ ''_DNS''] s)) is s))"
    if "set is \<subseteq> set (hotspot_ifaces (I_HotspotIfaces cfg))" "over cfg v0 (view s)" for "is" s
    using that
  proof (induction "is" arbitrary: s)
    case (Cons i "is")
    then show ?case by (simp add: over_rehook_snd known_hooks)
  qed simp
  moreover have "over cfg v0 (view (snd (rehook ex ''nat'' ''OUTPUT''
      [''-p'', ''udp'', ''--dport'', ''53'', ''-j'', chain_prefix cfg @ ''_DNS'']
      (addRules ex ''nat'' (chain_prefix cfg @ ''_DNS'')
        [[''-m'', ''owner'', ''--uid-owner'', ''0'', ''-j'', ''RETURN''],
         [''-p'', ''udp'', ''--dport'', ''53'', ''-j'', ''DNAT'', ''--to-destination'', ''127.0.0.1:'' @ Itoa p]]
        (ensureChain ex ''nat'' (chain_prefix cfg @ ''_DNS'') s)))))"
    using assms by (intro over_rehook_snd over_ensureChain our_names plain_rules known_hooks) auto
  ultimately show ?thesis using assms by (simp add: setupDNS_def Let_def)
qed

end

subsection \<open>The rest of Apply\<close>

lemma filter_spec_ok:
  "spec_ok (quic_reject p)" "spec_ok (quic_drop p)" "spec_ok [''-j'', ''ACCEPT'']"
  by (simp_all add: spec_ok_def quic_reject_def quic_drop_def HasPrefix_def)

context netfilter
begin

lemma view_insRule_other:
  assumes "spec_ok r" "insRule ex t c r s = (ok, s')" "t' \<noteq> t"
  shows "view s' t' = view s t'"
  using view_insRule [OF assms(1,2)] assms(3) by (auto simp: t_insert_def put_def split: if_splits option.splits)

lemma view_ruleExists_same: "ruleExists ex t c r s = (ok, s') \<Longrightarrow> view s' = view s"
  using view_ruleExists by blast

lemma view_block_port: "t \<noteq> ''filter'' \<Longrightarrow> view (block_port ex p s) t = view s t"
proof -
  assume t: "t \<noteq> ''filter''"
  obtain a s1 where 1: "ruleExists ex ''filter'' ''OUTPUT'' (quic_reject p) s = (a, s1)" by (metis surj_pair)
  obtain b s2 where 2: "insRule ex ''filter'' ''OUTPUT'' (quic_reject p) s1 = (b, s2)" by (metis surj_pair)
  obtain c s3 where 3: "ruleExists ex ''filter'' ''OUTPUT'' (quic_drop p) s2 = (c, s3)" by (metis surj_pair)
  obtain e s4 where 4: "insRule ex ''filter'' ''OUTPUT'' (quic_drop p) s3 = (e, s4)" by (metis surj_pair)
  have "view s1 t = view s t" "view s2 t = view s1 t" "view s3 t = view s2 t" "view s4 t = view s3 t"
    using view_ruleExists_same [OF 1] view_insRule_other [OF filter_spec_ok(1) 2 t]
      view_ruleExists_same [OF 3] view_insRule_other [OF filter_spec_ok(2) 4 t] by simp_all
  then show ?thesis by (simp add: block_port_def 1 2 3 4 split: bool.split)
qed

lemma view_blockQUIC: "t \<noteq> ''filter'' \<Longrightarrow> view (blockQUIC ex s) t = view s t"
  by (simp add: blockQUIC_def view_block_port)

lemma view_forward_accept: "t \<noteq> ''filter'' \<Longrightarrow> view (forward_accept ex s) t = view s t"
proof -
  assume t: "t \<noteq> ''filter''"
  define s1 where "s1 = snd (ex [''sysctl'', ''-w'', ''net.ipv4.ip_forward=1''] s)"
  have 1: "view s1 = view s" unfolding s1_def by (rule other) simp
  obtain ok s2 where 2: "ruleExists ex ''filter'' ''FORWARD'' [''-j'', ''ACCEPT''] s1 = (ok, s2)" by (metis surj_pair)
  obtain ok' s3 where 3: "ipt ex [''-t'', ''filter'', ''-I'', ''FORWARD'', ''1'', ''-j'', ''ACCEPT''] s2 = (ok', s3)"
    by (metis surj_pair)
  have "view s3 t = view s2 t"
    using insert_first [of "''filter''" "''FORWARD''" "[''-j'', ''ACCEPT'']" s2 ok' s3] 3 t
    by (auto simp: ipt_def t_insert_def put_def split: if_splits option.splits)
  then show "view (forward_accept ex s) t = view s t"
    using view_ruleExists_same [OF 2] by (simp add: forward_accept_def Let_def s1_def [symmetric] 1 2 3 split: bool.split)
qed

lemma over_apply_tail:
  assumes "over cfg v0 (view s)"
  shows "over cfg v0 (view (apply_tail ex cfg s))"
proof -
  define s2 where "s2 = (if I_DNSHijack cfg \<and> I_DNSForwardPort cfg > 0
    then setupDNS ex (chain_prefix cfg @ ''_DNS'') (I_DNSForwardPort cfg) (I_Hotspot cfg)
           (I_HotspotDNS cfg) (I_HotspotIfaces cfg) (setupDIVERT ex s) else setupDIVERT ex s)"
  have "over cfg v0 (view s2)" using assms by (simp add: s2_def over_setupDNS over_setupDIVERT)
  moreover have "view (apply_tail ex cfg s) t = view s2 t" if "t \<in> ipv4_tables" for t
    using that by (auto simp: apply_tail_def Let_def s2_def [symmetric] view_blockQUIC view_forward_accept)
  ultimately show ?thesis by (rule over_same)
qed

end

text \<open>Tables in which the daemon has left nothing, and no rule uses its chains.\<close>

definition untouched :: "ipt_cfg \<Rightarrow> tables \<Rightarrow> bool" where
  "untouched cfg v \<longleftrightarrow>
     (\<forall>t \<in> ipv4_tables. \<forall>ch \<in> set (ours (chain_prefix cfg) t). v t ch = None \<and> unreferenced v t ch)"

lemma untouched_over: "untouched cfg v \<Longrightarrow> over cfg v v"
proof -
  assume u: "untouched cfg v"
  have plain: "\<not> jumps r ch" if "t \<in> ipv4_tables" "v t c = Some rs" "r \<in> set rs" "ch \<in> set (ours (chain_prefix cfg) t)" for t c rs r ch
    using u that by (auto simp: untouched_def unreferenced_def list_all_iff)
  have "cleaned (chain_prefix cfg) v t c = v t c" if t: "t \<in> ipv4_tables" for t c
  proof (cases "v t c")
    case (Some rs)
    have "c \<notin> set (ours (chain_prefix cfg) t)" using u t Some by (auto simp: untouched_def)
    moreover have "filter (\<lambda>r. \<not> list_ex (jumps r) (ours (chain_prefix cfg) t)) rs = rs"
      using plain [OF t Some] by (auto simp: filter_id_conv list_ex_iff)
    ultimately show ?thesis using Some by (simp add: cleaned_def cleaned_by_def)
  qed (simp add: cleaned_def cleaned_by_def)
  moreover have "detachable (chain_prefix cfg) (hotspot_ifaces (I_HotspotIfaces cfg)) v"
    using plain by (fastforce simp: detachable_def intro!: plain_rule_ok simp: plain_rule_def list_ex_iff)
  ultimately show ?thesis by (simp add: over_def fun_eq_iff)
qed

context netfilter
begin

lemma over_apply_rules:
  assumes clean: "untouched cfg v0" and ov: "over cfg v0 (view s)" and run: "apply_rules ex cfg ips s = (e, s')"
  shows "if e = None then over cfg v0 (view s') else \<forall>t \<in> ipv4_tables. view s' t = v0 t"
proof -
  define s1 where "s1 = setupSysctls ex (setupPolicyRouting ex (cleanupRules ex cfg s))"
  define px where "px = chain_prefix cfg"
  have "over cfg v0 (view s1)"
    by (rule over_same [OF untouched_over [OF clean]]) (simp add: s1_def over_cleanup [OF ov])
  note step = over_install [OF this, of "''nat''" "px @ ''_OUT''"]
  obtain ok2 s2 where 2: "install ex ''nat'' (px @ ''_OUT'') (redirect_rules cfg ips) ''OUTPUT''
      [''-p'', ''tcp'', ''-j'', px @ ''_OUT''] s1 = (ok2, s2)" by (metis surj_pair)
  have o2: "over cfg v0 (view s2)"
    using step [OF _ _ plain_rules(1) _ 2] by (simp add: our_names known_hooks px_def)
  obtain ok3 s3 where 3: "install ex ''mangle'' (px @ ''_PRE'') (tproxy_rules cfg ips) ''PREROUTING''
      [''-j'', px @ ''_PRE''] s2 = (ok3, s3)" by (metis surj_pair)
  have o3: "over cfg v0 (view s3)"
    using over_install [OF o2 _ _ plain_rules(2) _ 3] by (simp add: our_names known_hooks px_def)
  show ?thesis
    using run over_cleanup [OF o2] over_cleanup [OF o3] over_apply_tail [OF o3]
    by (auto simp: apply_rules_def Let_def s1_def [symmetric] px_def [symmetric] 2 3 split: bool.splits)
qed

lemma over_Apply:
  assumes "untouched cfg v0" "over cfg v0 (view s)" "Apply ex cfg ips (s, d) = (e, s', d')"
  shows "if e = None then over cfg v0 (view s') else \<forall>t \<in> ipv4_tables. view s' t = v0 t"
proof -
  obtain e1 s1 where 1: "apply_rules ex cfg ips s = (e1, s1)" by (metis surj_pair)
  have "e = e1 \<and> view s' = view s1"
    using assms(3) view_portal(1) [of s1 d] by (cases e1) (auto simp: Apply_def 1)
  then show ?thesis using over_apply_rules [OF assms(1,2) 1] by simp
qed

lemma Cleanup_restores:
  assumes "over cfg v0 (view s)" "t \<in> ipv4_tables"
  shows "view (fst (Cleanup ex cfg (s, d))) t = v0 t"
  using over_cleanup [OF assms] by (simp add: Cleanup_def)

end

section \<open>What an installation leaves\<close>

text \<open>Tables whose commands succeed whenever the chain is there.\<close>

locale reliable_netfilter = netfilter +
  assumes append_ok: "view s t c \<noteq> None \<Longrightarrow> fst (ex (iptables_cmd t ''-A'' (c # r)) s)"
    and insert_ok: "view s t c \<noteq> None \<Longrightarrow> spec_ok r \<Longrightarrow> fst (ex (iptables_cmd t ''-I'' (c # r)) s)"
begin

lemma view_addRule_ok: "view (addRule ex t c r s) = t_append t c r (view s)"
proof (cases "view s t c")
  case None
  then show ?thesis using view_addRule [of t c r s] by (auto simp: t_append_def)
next
  case (Some rs)
  obtain ok s' where x: "ex (iptables_cmd t ''-A'' (c # r)) s = (ok, s')" by (metis surj_pair)
  then have ok using append_ok [of s t c r] Some by simp
  then show ?thesis using append [OF x] x by (simp add: addRule_def ipt_def)
qed

lemma view_addRules: "view s t c = Some xs \<Longrightarrow> view (addRules ex t c rs s) = put t c (Some (xs @ rs)) (view s)"
proof (induction rs arbitrary: s xs)
  case (Cons r rs)
  have 1: "view (addRule ex t c r s) = put t c (Some (xs @ [r])) (view s)"
    using Cons.prems by (simp add: view_addRule_ok t_append_def)
  then have "view (addRules ex t c rs (addRule ex t c r s)) = put t c (Some ((xs @ [r]) @ rs)) (view (addRule ex t c r s))"
    by (intro Cons.IH) simp
  then show ?case unfolding 1 by (simp add: addRules_def put_def)
qed (auto simp: addRules_def put_def fun_eq_iff)

lemma view_rehook:
  assumes "spec_ok r" "view s t c = Some rs"
  shows "fst (rehook ex t c r s)" "view (snd (rehook ex t c r s)) = put t c (Some (r # remove1 r rs)) (view s)"
proof -
  obtain ok s' where x: "insRule ex t c r (delRule ex t c r s) = (ok, s')" by (metis surj_pair)
  have "view (delRule ex t c r s) t c \<noteq> None" using assms(2) by (simp add: t_delete_at)
  then have ok using insert_ok [of "delRule ex t c r s" t c r] assms(1) x by (simp add: insRule_def ipt_def)
  moreover from this have "view s' = put t c (Some (r # remove1 r rs)) (view s)"
    using view_insRule [OF assms(1) x] assms(2) by (simp add: t_insert_def t_delete_def put_def)
  ultimately show "fst (rehook ex t c r s)" "view (snd (rehook ex t c r s)) = put t c (Some (r # remove1 r rs)) (view s)"
    using x by (simp_all add: rehook_def)
qed

lemma view_install:
  assumes "spec_ok r" "view s t p = Some rs" "p \<noteq> c"
  shows "fst (install ex t c xs p r s)"
    "view (snd (install ex t c xs p r s)) = put t p (Some (r # remove1 r rs)) (put t c (Some xs) (view s))"
proof -
  define s1 where "s1 = addRules ex t c xs (ensureChain ex t c s)"
  have 1: "view s1 = put t c (Some xs) (view s)"
    unfolding s1_def by (subst view_addRules [of _ _ _ "[]"]) (simp_all add: put_def)
  then have "view s1 t p = Some rs" using assms by simp
  from view_rehook [OF assms(1) this] 1 show "fst (install ex t c xs p r s)"
    "view (snd (install ex t c xs p r s)) = put t p (Some (r # remove1 r rs)) (put t c (Some xs) (view s))"
    by (simp_all add: install_def s1_def)
qed

end

subsection \<open>What the REDIRECT chain does to a packet\<close>

text \<open>A packet as the options of the rules see it: protocol, destination port, owner, and the
  networks its destination lies in. A chain gives the target of the first rule that matches.\<close>

record packet =
  K_Proto :: string
  K_DPort :: nat
  K_UID :: string
  K_InNet :: "string \<Rightarrow> bool"

fun hits :: "packet \<Rightarrow> rule \<Rightarrow> bool" where
  "hits k (opt # arg # r) =
     (if opt = ''-j'' then True
      else if opt = ''-p'' then K_Proto k = arg \<and> hits k r
      else if opt = ''--dport'' then Itoa (int (K_DPort k)) = arg \<and> hits k r
      else if opt = ''-d'' then K_InNet k arg \<and> hits k r
      else if opt = ''--uid-owner'' then K_UID k = arg \<and> hits k r
      else hits k r)"
| "hits k r = True"

fun rule_target :: "rule \<Rightarrow> rule" where
  "rule_target (opt # arg # r) = (if opt = ''-j'' then arg # r else rule_target r)"
| "rule_target r = []"

definition verdict :: "packet \<Rightarrow> rule list \<Rightarrow> rule" where
  "verdict k rs = (case find (hits k) rs of None \<Rightarrow> [''RETURN''] | Some r \<Rightarrow> rule_target r)"

lemma find_append: "find P (xs @ ys) = (case find P xs of None \<Rightarrow> find P ys | r \<Rightarrow> r)"
  by (induction xs) auto

lemma verdict_append:
  "verdict k (xs @ ys) = (if list_ex (hits k) xs then verdict k xs else verdict k ys)"
proof -
  have "find (hits k) xs = None \<longleftrightarrow> \<not> list_ex (hits k) xs" by (auto simp: find_None_iff list_ex_iff)
  then show ?thesis by (auto simp: verdict_def find_append split: option.split)
qed

lemma verdict_returns:
  assumes "list_all (\<lambda>r. rule_target r = [''RETURN'']) rs"
  shows "verdict k rs = [''RETURN'']"
  using assms by (auto simp: verdict_def list_all_iff find_Some_iff split: option.split)

definition own_port :: "ipt_cfg \<Rightarrow> nat \<Rightarrow> bool" where
  "own_port cfg p \<longleftrightarrow> p > 0 \<and> int p \<in> {I_APIPort cfg, I_SocksPort cfg, tcp_port cfg}"

definition bypassed :: "ipt_cfg \<Rightarrow> string list \<Rightarrow> packet \<Rightarrow> bool" where
  "bypassed cfg ips k \<longleftrightarrow>
     K_UID k = ''0'' \<or> list_ex (K_InNet k) (localCIDRs @ bypass_ips ips) \<or>
     K_Proto k = ''tcp'' \<and> own_port cfg (K_DPort k) \<or>
     K_Proto k = ''udp'' \<and> K_DPort k = 53 \<and> I_DNSForwardPort cfg > 0"

lemma Itoa_53: "Itoa (int p) = ''53'' \<longleftrightarrow> p = 53"
proof -
  have "Itoa 53 = ''53''" by code_simp
  then show ?thesis using Itoa_inj [of "int p" 53] by fastforce
qed

lemma hits_rules:
  "hits k [''-m'', ''owner'', ''--uid-owner'', ''0'', ''-j'', ''RETURN''] \<longleftrightarrow> K_UID k = ''0''"
  "list_ex (hits k) (map to_return ds) \<longleftrightarrow> list_ex (K_InNet k) ds"
  "list_ex (hits k) (map (\<lambda>p. [''-p'', ''tcp'', ''--dport'', Itoa p, ''-j'', ''RETURN''])
     (filter (\<lambda>p. p > 0) [I_APIPort cfg, I_SocksPort cfg, tcp_port cfg])) \<longleftrightarrow>
   K_Proto k = ''tcp'' \<and> own_port cfg (K_DPort k)"
  "list_ex (hits k) (dns_return cfg) \<longleftrightarrow> K_Proto k = ''udp'' \<and> K_DPort k = 53 \<and> I_DNSForwardPort cfg > 0"
proof -
  have eq: "Itoa (int (K_DPort k)) = Itoa q \<longleftrightarrow> int (K_DPort k) = q" if "q > 0" for q
    using that Itoa_inj [of "int (K_DPort k)" q] by auto
  show "list_ex (hits k) (map (\<lambda>p. [''-p'', ''tcp'', ''--dport'', Itoa p, ''-j'', ''RETURN''])
     (filter (\<lambda>p. p > 0) [I_APIPort cfg, I_SocksPort cfg, tcp_port cfg])) \<longleftrightarrow>
   K_Proto k = ''tcp'' \<and> own_port cfg (K_DPort k)"
    by (auto simp: own_port_def eq)
  show "list_ex (hits k) (map to_return ds) \<longleftrightarrow> list_ex (K_InNet k) ds"
    by (induction ds) (simp_all add: to_return_def)
qed (auto simp: dns_return_def Itoa_53)

lemma redirect_verdict:
  "verdict k (redirect_rules cfg ips) =
     (if bypassed cfg ips k \<or> K_Proto k \<noteq> ''tcp'' then [''RETURN'']
      else [''REDIRECT'', ''--to-ports'', Itoa (tcp_port cfg)])"
proof -
  define ret where "ret = [[''-m'', ''owner'', ''--uid-owner'', ''0'', ''-j'', ''RETURN'']] @
    map to_return (localCIDRs @ bypass_ips ips) @
    map (\<lambda>p. [''-p'', ''tcp'', ''--dport'', Itoa p, ''-j'', ''RETURN''])
      (filter (\<lambda>p. p > 0) [I_APIPort cfg, I_SocksPort cfg, tcp_port cfg]) @ dns_return cfg"
  have rules: "redirect_rules cfg ips =
      ret @ [[''-p'', ''tcp'', ''-j'', ''REDIRECT'', ''--to-ports'', Itoa (tcp_port cfg)]]"
    by (simp add: redirect_rules_def ret_def)
  have "list_ex (hits k) ret \<longleftrightarrow> bypassed cfg ips k"
    by (simp add: ret_def hits_rules bypassed_def del: map_append hits.simps filter.simps)
  moreover have "verdict k ret = [''RETURN'']"
    by (rule verdict_returns) (auto simp: ret_def list_all_iff to_return_def dns_return_def)
  moreover have "verdict k [[''-p'', ''tcp'', ''-j'', ''REDIRECT'', ''--to-ports'', x]] =
      (if K_Proto k = ''tcp'' then [''REDIRECT'', ''--to-ports'', x] else [''RETURN''])" for x
    by (simp add: verdict_def)
  ultimately show ?thesis by (simp add: rules verdict_append)
qed

subsection \<open>The tables after a successful installation\<close>

lemma untouched_hook:
  assumes "untouched cfg v" "t \<in> ipv4_tables" "v t c = Some rs"
    "known_hook (chain_prefix cfg) ifaces t c' r"
  shows "r \<notin> set rs"
  using assms by (fastforce simp: untouched_def unreferenced_def known_hook_def list_ex_iff list_all_iff)

abbreviation out_chain :: "ipt_cfg \<Rightarrow> string" where "out_chain cfg \<equiv> chain_prefix cfg @ ''_OUT''"
abbreviation pre_chain :: "ipt_cfg \<Rightarrow> string" where "pre_chain cfg \<equiv> chain_prefix cfg @ ''_PRE''"
abbreviation dns_chain :: "ipt_cfg \<Rightarrow> string" where "dns_chain cfg \<equiv> chain_prefix cfg @ ''_DNS''"

definition hijacks :: "ipt_cfg \<Rightarrow> bool" where
  "hijacks cfg \<longleftrightarrow> I_DNSHijack cfg \<and> I_DNSForwardPort cfg > 0"

definition dns_hook :: "ipt_cfg \<Rightarrow> rule" where
  "dns_hook cfg = [''-p'', ''udp'', ''--dport'', ''53'', ''-j'', dns_chain cfg]"

definition dns_rules :: "ipt_cfg \<Rightarrow> rule list" where
  "dns_rules cfg =
     [[''-m'', ''owner'', ''--uid-owner'', ''0'', ''-j'', ''RETURN''],
      [''-p'', ''udp'', ''--dport'', ''53'', ''-j'', ''DNAT'', ''--to-destination'',
       ''127.0.0.1:'' @ Itoa (I_DNSForwardPort cfg)]]"

text \<open>The chains of the daemon and the two chains they hang in, over the original tables \<open>v0\<close>.\<close>

definition installed :: "ipt_cfg \<Rightarrow> string list \<Rightarrow> tables \<Rightarrow> tables \<Rightarrow> bool" where
  "installed cfg ips v0 v \<longleftrightarrow>
     v ''nat'' (out_chain cfg) = Some (redirect_rules cfg ips) \<and>
     v ''mangle'' (pre_chain cfg) = Some (tproxy_rules cfg ips) \<and>
     v ''nat'' ''OUTPUT'' = map_option (\<lambda>rs. (if hijacks cfg then [dns_hook cfg] else []) @
         [''-p'', ''tcp'', ''-j'', out_chain cfg] # rs) (v0 ''nat'' ''OUTPUT'') \<and>
     v ''mangle'' ''PREROUTING'' =
       map_option (\<lambda>rs. divert_hook # [''-j'', pre_chain cfg] # rs) (v0 ''mangle'' ''PREROUTING'') \<and>
     (hijacks cfg \<longrightarrow> v ''nat'' (dns_chain cfg) = Some (dns_rules cfg))"

lemma chain_neqs:
  "out_chain cfg \<noteq> ''OUTPUT''" "pre_chain cfg \<noteq> ''PREROUTING''" "dns_chain cfg \<noteq> ''OUTPUT''"
  "dns_chain cfg \<noteq> ''PREROUTING''" "pre_chain cfg \<noteq> ''DIVERT''" "''DIVERT'' \<noteq> pre_chain cfg"
  using allChains_not_builtin [of "out_chain cfg" "chain_prefix cfg"]
    allChains_not_builtin [of "pre_chain cfg" "chain_prefix cfg"]
    allChains_not_builtin [of "dns_chain cfg" "chain_prefix cfg"]
  by (auto simp: allChains_def builtin_def)

context netfilter
begin

lemma view_rehook_other:
  assumes "spec_ok r" "(t', c') \<noteq> (t, c)"
  shows "view (snd (rehook ex t c r s)) t' c' = view s t' c'"
proof -
  obtain ok s' where x: "insRule ex t c r (delRule ex t c r s) = (ok, s')" by (metis surj_pair)
  have "view s' t' c' = view (delRule ex t c r s) t' c'"
    using view_insRule [OF assms(1) x] assms(2) by (auto simp: t_insert_def split: if_splits option.splits)
  then show ?thesis using assms(2) by (auto simp: rehook_def x t_delete_at)
qed

lemma view_dns_ifaces:
  "c \<noteq> ''PREROUTING'' \<or> t \<noteq> ''nat'' \<Longrightarrow>
   view (fold (\<lambda>i s. snd (rehook ex ''nat'' ''PREROUTING''
      [''-i'', i, ''-p'', ''udp'', ''--dport'', ''53'', ''-j'', ch] s)) is s) t c = view s t c"
proof (induction "is" arbitrary: s)
  case (Cons i "is")
  have "spec_ok [''-i'', i, ''-p'', ''udp'', ''--dport'', ''53'', ''-j'', ch]" by (simp add: spec_ok_def HasPrefix_def)
  then show ?case using Cons by (auto simp: view_rehook_other)
qed simp

end

context reliable_netfilter
begin

lemma view_setupDIVERT:
  assumes "view s ''mangle'' ''PREROUTING'' = Some rs"
  shows "view (setupDIVERT ex s) = put ''mangle'' ''PREROUTING'' (Some (divert_hook # remove1 divert_hook rs))
    (put ''mangle'' ''DIVERT'' (Some [[''-j'', ''MARK'', ''--set-xmark'', MarkStr], [''-j'', ''ACCEPT'']]) (view s))"
proof -
  have "spec_ok divert_hook" by (simp add: divert_hook_def spec_ok_def HasPrefix_def)
  from view_install(2) [OF this assms, of "''DIVERT''"] show ?thesis
    by (simp add: setupDIVERT_def install_def)
qed

lemma view_setupDNS:
  assumes "view s ''nat'' ''OUTPUT'' = Some rs" "hijacks cfg" "(t, c) \<noteq> (''nat'', ''PREROUTING'')"
  shows "view (setupDNS ex (dns_chain cfg) (I_DNSForwardPort cfg) h hdns ifaces s) t c =
    put ''nat'' ''OUTPUT'' (Some (dns_hook cfg # remove1 (dns_hook cfg) rs))
      (put ''nat'' (dns_chain cfg) (Some (dns_rules cfg)) (view s)) t c"
proof -
  define s2 where "s2 = snd (install ex ''nat'' (dns_chain cfg) (dns_rules cfg) ''OUTPUT'' (dns_hook cfg) s)"
  have "spec_ok (dns_hook cfg)" by (simp add: dns_hook_def spec_ok_def HasPrefix_def)
  from view_install(2) [OF this assms(1) chain_neqs(3) [symmetric]]
  have 2: "view s2 = put ''nat'' ''OUTPUT'' (Some (dns_hook cfg # remove1 (dns_hook cfg) rs))
      (put ''nat'' (dns_chain cfg) (Some (dns_rules cfg)) (view s))" by (simp add: s2_def)
  have "setupDNS ex (dns_chain cfg) (I_DNSForwardPort cfg) h hdns ifaces s =
      (if h \<and> hdns then fold (\<lambda>i s. snd (rehook ex ''nat'' ''PREROUTING''
         [''-i'', i, ''-p'', ''udp'', ''--dport'', ''53'', ''-j'', dns_chain cfg] s)) (hotspot_ifaces ifaces) s2 else s2)"
    using assms(2) by (simp add: setupDNS_def s2_def install_def dns_rules_def dns_hook_def hijacks_def Let_def)
  then show ?thesis using 2 assms(3) by (auto simp: view_dns_ifaces)
qed

lemma Apply_installs_lemma:
  assumes clean: "untouched cfg v0" and ov: "over cfg v0 (view s)"
    and out: "v0 ''nat'' ''OUTPUT'' = Some out" and pre: "v0 ''mangle'' ''PREROUTING'' = Some pre"
  shows "fst (apply_rules ex cfg ips s) = None" "installed cfg ips v0 (view (snd (apply_rules ex cfg ips s)))"
proof -
  define s1 where "s1 = setupSysctls ex (setupPolicyRouting ex (cleanupRules ex cfg s))"
  have v1: "view s1 t = v0 t" if "t \<in> ipv4_tables" for t using over_cleanup [OF ov that] by (simp add: s1_def)
  let ?h1 = "[''-p'', ''tcp'', ''-j'', out_chain cfg]" and ?h2 = "[''-j'', pre_chain cfg]"
  have sp: "spec_ok ?h1" "spec_ok ?h2" by (simp_all add: spec_ok_def HasPrefix_def)
  note fresh = untouched_hook [OF clean _ out known_hooks(1)] untouched_hook [OF clean _ pre known_hooks(2)]
    untouched_hook [OF clean _ pre known_hooks(3)] untouched_hook [OF clean _ out known_hooks(4)]
  define i2 where "i2 = install ex ''nat'' (out_chain cfg) (redirect_rules cfg ips) ''OUTPUT'' ?h1 s1"
  have 2: "fst i2" "view (snd i2) = put ''nat'' ''OUTPUT'' (Some (?h1 # out))
      (put ''nat'' (out_chain cfg) (Some (redirect_rules cfg ips)) (view s1))"
    using view_install [OF sp(1), of s1 "''nat''" "''OUTPUT''" out "out_chain cfg" "redirect_rules cfg ips"]
      fresh(1) out chain_neqs(1) [of cfg] by (simp_all add: i2_def v1 remove1_idem)
  define i3 where "i3 = install ex ''mangle'' (pre_chain cfg) (tproxy_rules cfg ips) ''PREROUTING'' ?h2 (snd i2)"
  have 3: "fst i3" "view (snd i3) = put ''mangle'' ''PREROUTING'' (Some (?h2 # pre))
      (put ''mangle'' (pre_chain cfg) (Some (tproxy_rules cfg ips)) (view (snd i2)))"
    using view_install [OF sp(2), of "snd i2" "''mangle''" "''PREROUTING''" pre "pre_chain cfg" "tproxy_rules cfg ips"]
      fresh(2) pre chain_neqs(2) [of cfg] by (simp_all add: i3_def 2 v1 remove1_idem)
  have run: "apply_rules ex cfg ips s = (None, apply_tail ex cfg (snd i3))"
  proof -
    obtain s2 s3 where e: "i2 = (True, s2)" "i3 = (True, s3)" using 2(1) 3(1) by (metis prod.collapse)
    then have "install ex ''mangle'' (pre_chain cfg) (tproxy_rules cfg ips) ''PREROUTING'' ?h2 s2 = (True, s3)"
      using i3_def by simp
    then show ?thesis
      unfolding apply_rules_def Let_def s1_def [symmetric] i2_def [symmetric] e by simp
  qed
  show "fst (apply_rules ex cfg ips s) = None" by (simp add: run)
  have "divert_hook \<noteq> ?h2" by (simp add: divert_hook_def)
  define s4 where "s4 = setupDIVERT ex (snd i3)"
  have "view (snd i3) ''mangle'' ''PREROUTING'' = Some (?h2 # pre)" by (simp add: 3)
  from view_setupDIVERT [OF this] have 4: "view s4 = put ''mangle'' ''PREROUTING'' (Some (divert_hook # ?h2 # pre))
    (put ''mangle'' ''DIVERT'' (Some [[''-j'', ''MARK'', ''--set-xmark'', MarkStr], [''-j'', ''ACCEPT'']]) (view (snd i3)))"
    using fresh(3) \<open>divert_hook \<noteq> ?h2\<close> by (simp add: s4_def remove1_idem)
  define s5 where "s5 = (if hijacks cfg then setupDNS ex (dns_chain cfg) (I_DNSForwardPort cfg) (I_Hotspot cfg)
           (I_HotspotDNS cfg) (I_HotspotIfaces cfg) s4 else s4)"
  have tail: "view (apply_tail ex cfg (snd i3)) t c = view s5 t c" if "t \<in> ipv4_tables" for t c
    using that by (auto simp: apply_tail_def Let_def s4_def [symmetric] hijacks_def [symmetric]
      s5_def [symmetric] view_blockQUIC view_forward_accept)
  have o4: "view s4 ''nat'' ''OUTPUT'' = Some (?h1 # out)" by (simp add: 4 3 2)
  have "dns_hook cfg \<noteq> ?h1" by (simp add: dns_hook_def)
  with view_setupDNS [OF o4] fresh(4) have 5: "view s5 t c = (if hijacks cfg then
      put ''nat'' ''OUTPUT'' (Some (dns_hook cfg # ?h1 # out))
      (put ''nat'' (dns_chain cfg) (Some (dns_rules cfg)) (view s4)) t c else view s4 t c)"
    if "(t, c) \<noteq> (''nat'', ''PREROUTING'')" for t c
    using that by (simp add: s5_def dns_hook_def remove1_idem)
  show "installed cfg ips v0 (view (snd (apply_rules ex cfg ips s)))"
    using chain_neqs [of cfg] by (simp add: installed_def run tail 5 4 3 2 out pre)
qed

end

context netfilter
begin

lemma over_Applies:
  assumes clean: "untouched cfg v0"
  shows "over cfg v0 (view s) \<Longrightarrow> fold (\<lambda>ips st. snd (Apply ex cfg ips st)) ipss (s, d) = (s1, d1) \<Longrightarrow>
    over cfg v0 (view s1)"
proof (induction ipss arbitrary: s d)
  case (Cons ips ipss)
  obtain e s' d' where x: "Apply ex cfg ips (s, d) = (e, s', d')" by (metis surj_pair)
  have "over cfg v0 (view s')"
    using over_Apply [OF clean Cons.prems(1) x] over_same [OF untouched_over [OF clean], of "view s'"]
    by (auto split: if_splits)
  then show ?case using Cons.IH Cons.prems(2) by (simp add: x)
qed simp

end

section \<open>A concrete rule table\<close>

text \<open>The commands on a table in memory, parsed from their argument vectors; every other command
  succeeds and leaves the table alone.\<close>

definition fw_op :: "string \<Rightarrow> string \<Rightarrow> string \<Rightarrow> rule \<Rightarrow> tables \<Rightarrow> bool \<times> tables" where
  "fw_op t opt c r v =
     (let present = (v t c \<noteq> None) in
      if opt = ''-C'' then (case v t c of None \<Rightarrow> False | Some rs \<Rightarrow> r \<in> set rs, v)
      else if opt = ''-L'' then (present, v)
      else if opt = ''-N'' then (\<not> present, t_new t c v)
      else if opt = ''-F'' then (present, t_flush t c v)
      else if opt = ''-X'' then (present, t_remove_chain t c v)
      else if opt = ''-D'' then (case v t c of None \<Rightarrow> False | Some rs \<Rightarrow> r \<in> set rs, t_delete t c r v)
      else if opt = ''-A'' then (present, t_append t c r v)
      else if opt = ''-I'' then
        (present, t_insert t c (if r \<noteq> [] \<and> hd r = ''1'' then tl r else r) v)
      else (False, v))"

definition fw :: "tables os" where
  "fw args v =
     (if length args > 6 \<and> take 4 args = [''iptables'', ''-w'', ''100'', ''-t'']
      then fw_op (args ! 4) (args ! 5) (args ! 6) (drop 7 args) v else (True, v))"

lemma fw_iptables: "fw (iptables_cmd t opt (c # r)) v = fw_op t opt c r v"
  by (simp add: fw_def)

interpretation memory: reliable_netfilter fw "\<lambda>v. v"
proof unfold_locales
  fix t c r v ok v'
  assume "fw (iptables_cmd t ''-C'' (c # r)) v = (ok, v')"
  then show "v' = v \<and> (ok \<longleftrightarrow> (\<exists>rs. v t c = Some rs \<and> r \<in> set rs))"
    unfolding fw_iptables by (auto simp: fw_op_def Let_def split: option.splits)
next
  fix t c v ok v'
  assume "fw (iptables_cmd t ''-L'' [c, ''-n'']) v = (ok, v')"
  then show "v' = v \<and> (ok \<longleftrightarrow> v t c \<noteq> None)" unfolding fw_iptables by (auto simp: fw_op_def Let_def)
next
  fix t c r v ok v'
  assume "fw (iptables_cmd t ''-A'' (c # r)) v = (ok, v')"
  then show "v' = (if ok then t_append t c r v else v) \<and> (ok \<longrightarrow> v t c \<noteq> None)"
    unfolding fw_iptables by (auto simp: fw_op_def Let_def t_append_def)
next
  fix t c r v ok v'
  assume "spec_ok r" "fw (iptables_cmd t ''-I'' (c # r)) v = (ok, v')"
  then show "v' = (if ok then t_insert t c r v else v) \<and> (ok \<longrightarrow> v t c \<noteq> None)"
    unfolding fw_iptables by (auto simp: fw_op_def Let_def t_insert_def spec_ok_def HasPrefix_def)
next
  fix t c r v ok v'
  assume "fw (iptables_cmd t ''-I'' (c # ''1'' # r)) v = (ok, v')"
  then show "v' = (if ok then t_insert t c r v else v)"
    unfolding fw_iptables by (auto simp: fw_op_def Let_def t_insert_def)
next
  fix c v and args :: "string list"
  assume "c \<in> {''ip6tables'', ''sysctl''} \<or> c = ''/system/bin/sh'' \<and> list_all (\<lambda>a. \<not> Contains a ''iptables'') args"
  then show "snd (fw (c # args) v) = v" by (auto simp: fw_def)
qed (unfold fw_iptables, auto simp: fw_op_def Let_def spec_ok_def HasPrefix_def)

text \<open>A table with the built-in chains only.\<close>

definition empty_tables :: tables where
  "empty_tables t c = (if c \<in> set builtin then Some [] else None)"

lemma empty_untouched: "untouched cfg empty_tables"
proof -
  have "c \<notin> set builtin" if "c \<in> set (ours px t)" for c px t
    using our_chain [OF that] by (auto simp: builtin_def)
  then show ?thesis by (auto simp: untouched_def empty_tables_def unreferenced_def split: if_splits)
qed

definition demo_rules_cfg :: ipt_cfg where
  "demo_rules_cfg = \<lparr>I_ChainsPrefix = [], I_TCPPort = 10810, I_APIPort = 9190, I_SocksPort = 1080,
     I_DNSForwardPort = 5353, I_DNSHijack = True, I_Hotspot = True, I_HotspotDNS = True, I_HotspotIfaces = []\<rparr>"

section \<open>Properties\<close>




definition demo_packet :: packet where
  "demo_packet = \<lparr>K_Proto = ''tcp'', K_DPort = 443, K_UID = ''10123'', K_InNet = (\<lambda>d. d = ''1.2.3.4'')\<rparr>"


text \<open>The cleanup does not ask who wrote a rule of the filter table: a forwarding rule of the user's
  own goes with it, also when no hotspot was ever served.\<close>

lemma t_drop_chain_filter: "t_drop_chain ifaces ch v ''filter'' = v ''filter''"
proof
  fix c
  have "rules_at (hooks ifaces ch) ''filter'' c = []" by (auto simp: rules_at_def hooks_def filter_empty_conv)
  then have "fold (\<lambda>(t, c, r). t_delete t c r) (hooks ifaces ch) v ''filter'' c = v ''filter'' c"
    by (simp add: fold_t_delete_at option.map_id0)
  then show "t_drop_chain ifaces ch v ''filter'' c = v ''filter'' c"
    by (simp add: t_drop_chain_def Let_def t_remove_chain_def t_flush_def)
qed

lemma fold_t_drop_chain_filter: "fold (t_drop_chain ifaces) chs v ''filter'' = v ''filter''"
  by (induction chs arbitrary: v) (simp_all add: t_drop_chain_filter)

context netfilter
begin

lemma unblock_loop_forward: "view (unblock_loop ex r n s) ''filter'' ''FORWARD'' = view s ''filter'' ''FORWARD''"
proof (induction n arbitrary: s)
  case (Suc n)
  obtain ok s1 where q: "ruleExists ex ''filter'' ''OUTPUT'' r s = (ok, s1)" by (metis surj_pair)
  then show ?case using Suc [of "delRule ex ''filter'' ''OUTPUT'' r s1"] view_ruleExists_same [OF q]
    by (simp add: t_delete_at split: bool.split)
qed simp

lemma cleanup_deletes_foreign_rule:
  "view (cleanupRules ex cfg s) ''filter'' ''FORWARD'' =
     map_option (remove1 [''-j'', ''ACCEPT'']) (view s ''filter'' ''FORWARD'')"
proof -
  have "fold (\<lambda>(t, c, r). t_delete t c r) (first_hooks px) v ''filter'' = v ''filter''" for px v
    by (simp add: first_hooks_def fun_eq_iff t_delete_at)
  then show ?thesis
    by (simp add: cleanupRules_def Let_def unblockQUIC_def unblock_loop_forward t_delete_at view_drop_loop
        view_detach first_hooks_def [symmetric] t_remove_chain_def t_flush_def fold_t_drop_chain_filter)
qed

end

end
