(* ===== verification/TunnelLoop.thy ===== *)
theory TunnelLoop
  imports Runtime Tunnel Transport TransparentRules
begin

text \<open>
  The reconnect loop of the daemon (\<open>tunnelLoop\<close>, \<open>startListeners\<close> and the configuration helpers
  of \<^verbatim>\<open>cmd/sshcustomd/main.go\<close>). A step is what the loop does between two points where it waits;
  the events say how the wait ended, and what the other goroutines did meanwhile.
\<close>

section \<open>Definitions\<close>

subsection \<open>Configuration helpers\<close>

definition dnsForwardPort :: int where "dnsForwardPort = 5353"
definition dnsUpstream :: string where "dnsUpstream = ''8.8.8.8:53''"

definition socksAddr :: "config \<Rightarrow> string" where
  "socksAddr cfg =
     (let lp = CLocalProxy cfg;
          host = (if SocksHost lp = '''' then ''127.0.0.1'' else SocksHost lp);
          port = (if SocksPort lp \<le> 0 then 1080 else SocksPort lp) in
      host @ '':'' @ Itoa port)"

definition transparentAddr :: "config \<Rightarrow> string" where
  "transparentAddr cfg =
     (let port = TP_TCPPort (CTransparentProxy cfg) in
      ''0.0.0.0:'' @ Itoa (if port \<le> 0 then 10810 else port))"

definition iptablesCfg :: "config \<Rightarrow> ipt_cfg" where
  "iptablesCfg cfg =
     \<lparr>I_ChainsPrefix = TP_ChainsPrefix (CTransparentProxy cfg), I_TCPPort = TP_TCPPort (CTransparentProxy cfg),
      I_APIPort = API_Port (CAPI cfg), I_SocksPort = SocksPort (CLocalProxy cfg),
      I_DNSForwardPort = dnsForwardPort,
      I_DNSHijack = (DNS_Enabled (CDNS cfg) \<and> DNS_Hijack (CDNS cfg)),
      I_Hotspot = (Hotspot_Enabled (CHotspot cfg) \<and> Hotspot_TCP (CHotspot cfg)),
      I_HotspotDNS = (Hotspot_Enabled (CHotspot cfg) \<and> Hotspot_DNS (CHotspot cfg)),
      I_HotspotIfaces = Hotspot_Interfaces (CHotspot cfg)\<rparr>"

text \<open>The services that run under the listeners' context.\<close>

datatype service = SocksAt string | RedirectAt string | DNSForwardAt string string

definition startListeners :: "config \<Rightarrow> service list" where
  "startListeners cfg =
     (if SocksEnabled (CLocalProxy cfg) then [SocksAt (socksAddr cfg)] else []) @
     (if TP_Enabled (CTransparentProxy cfg) then [RedirectAt (transparentAddr cfg)] else []) @
     (if DNS_Enabled (CDNS cfg) then [DNSForwardAt (''127.0.0.1:'' @ Itoa dnsForwardPort) dnsUpstream] else [])"

subsection \<open>State\<close>

record route_info =
  RI_Online :: bool
  RI_Raw :: string
  RI_Iface :: string
  RI_Gw :: string
  RI_Src :: string

text \<open>
  Where the loop is: asleep before an attempt, in \<^verbatim>\<open>DialContext\<close>, in the pause between starting the
  listeners and installing the rules, in the inner loop with a client, or returned. \<open>W_tc\<close> is the
  latest client and \<open>W_ptr\<close> whether the shared pointer leads to it (it is nil or leads there);
  \<open>W_listeners\<close> says that \<^verbatim>\<open>listenerCancel\<close> is set, \<open>W_services\<close> what its context keeps alive.
  \<open>W_opened\<close> and \<open>W_closed\<close> count connections and are not part of the program.
\<close>

datatype pc = Asleep duration | Dialing duration | Settling "string list" | Serving | Returned

record 's daemon =
  W_pc :: pc
  W_cancelled :: bool
  W_rt :: runtime
  W_tc :: client
  W_ptr :: bool
  W_listeners :: bool
  W_services :: "service list"
  W_ipt :: bool
  W_os :: "'s \<times> bool"
  W_dns :: dns_state
  W_opened :: nat
  W_closed :: nat

text \<open>The operating system, the configuration and profile the loop was started with, and the texts of
  the errors.\<close>

record 's loop_env =
  E_os :: "'s os"
  E_cfg :: config
  E_sp :: profile
  E_dial_msg :: "transport_error option \<Rightarrow> string"
  E_apply_msg :: "apply_error \<Rightarrow> string"

datatype event =
    CtxCancel
  | SeeDone
  | Wake route_info
  | Dialed net_env "string \<Rightarrow> string \<Rightarrow> string \<Rightarrow> tconn \<Rightarrow> unit option"
  | Settled
  | ConnLost "string option"
  | Health nat
  | SocksRun bool
  | RedirectRun bool
  | Sampled st_metrics
  | StreamAdd
  | StreamRemove
  | PtrCleared

subsection \<open>Changes of the runtime state\<close>

definition set_route :: "route_info \<Rightarrow> runtime \<Rightarrow> runtime" where
  "set_route ri r = r\<lparr>R_net := (R_net r)\<lparr>S_NetworkOnline := RI_Online ri, S_Interface := RI_Iface ri,
     S_Gateway := RI_Gw ri, S_SourceIP := RI_Src ri\<rparr>\<rparr>"

definition set_offline :: "runtime \<Rightarrow> runtime" where
  "set_offline r = r\<lparr>R_status := (R_status r)\<lparr>S_State := ''PAUSED_NO_NETWORK'', S_Connected := False,
     S_LastEvent := ''network offline''\<rparr>\<rparr>"

definition set_connecting :: "runtime \<Rightarrow> runtime" where
  "set_connecting r = r\<lparr>R_status := (R_status r)\<lparr>S_State := ''CONNECTING_SSH'',
     S_LastEvent := ''connecting'', S_LastError := ''''\<rparr>\<rparr>"

definition set_result :: "result \<Rightarrow> runtime \<Rightarrow> runtime" where
  "set_result res r = r\<lparr>R_net := (R_net r)\<lparr>S_RemoteBanner := Banner res, S_HTTPStatuses := Statuses res,
     S_ResolvedDial := ResolvedDial res, S_ResolverMethod := ResolverMethod res,
     S_ResolvedIPs := ResolvedIPs res\<rparr>\<rparr>"

definition set_retry :: "string \<Rightarrow> result \<Rightarrow> runtime \<Rightarrow> runtime" where
  "set_retry msg res r = set_result res (r\<lparr>R_status := (R_status r)\<lparr>S_State := ''RETRY_BACKOFF'',
     S_Connected := False, S_LastError := msg, S_LastEvent := ''SSH auth failed''\<rparr>\<rparr>)"

definition set_connected :: "result \<Rightarrow> runtime \<Rightarrow> runtime" where
  "set_connected res r = set_result res (r\<lparr>R_status := (R_status r)\<lparr>S_State := ''CONNECTED'',
       S_Connected := True, S_SSHAuthenticated := True, S_TransportReady := True, S_LastError := '''',
       S_LastEvent := ''SSH connected; SOCKS5 + transparent TCP + DNS active''\<rparr>,
     R_pool := (R_pool r)\<lparr>S_PoolSize := 1, S_PoolHealthy := 1, S_PoolStreams := 0\<rparr>\<rparr>)"

definition set_apply_failed :: "string \<Rightarrow> runtime \<Rightarrow> runtime" where
  "set_apply_failed msg r = r\<lparr>R_proxy := (R_proxy r)\<lparr>S_TransparentApplied := False\<rparr>,
     R_status := (R_status r)\<lparr>S_LastError := ''iptables: '' @ msg\<rparr>\<rparr>"

definition set_applied :: "config \<Rightarrow> runtime \<Rightarrow> runtime" where
  "set_applied cfg r = r\<lparr>R_proxy := (R_proxy r)\<lparr>S_TransparentApplied := True,
     S_HotspotRunning := (Hotspot_Enabled (CHotspot cfg) \<and> Hotspot_TCP (CHotspot cfg))\<rparr>\<rparr>"

definition set_streams :: "int \<Rightarrow> int \<Rightarrow> runtime \<Rightarrow> runtime" where
  "set_streams n mx r = r\<lparr>R_pool := (R_pool r)\<lparr>S_PoolStreams := n, S_PoolMaxStreams := mx\<rparr>\<rparr>"

definition set_lost :: "runtime \<Rightarrow> runtime" where
  "set_lost r = r\<lparr>R_status := (R_status r)\<lparr>S_State := ''RECONNECTING'', S_Connected := False,
       S_SSHAuthenticated := False, S_TransportReady := False,
       S_LastEvent := ''SSH connection lost; reconnecting''\<rparr>,
     R_pool := (R_pool r)\<lparr>S_PoolHealthy := 0, S_PoolReconnecting := 1, S_PoolStreams := 0\<rparr>\<rparr>"

subsection \<open>Steps\<close>

definition baseDelay :: duration where "baseDelay = second"
definition maxDelay :: duration where "maxDelay = 30 * second"

definition update :: "(runtime \<Rightarrow> runtime) \<Rightarrow> 's daemon \<Rightarrow> 's daemon" where
  "update f d = d\<lparr>W_rt := f (W_rt d)\<rparr>"

text \<open>The deferred function of the loop.\<close>

definition teardown :: "'s loop_env \<Rightarrow> 's daemon \<Rightarrow> 's daemon" where
  "teardown env d =
     d\<lparr>W_listeners := False, W_services := [],
       W_os := (if W_ipt d then Cleanup (E_os env) (iptablesCfg (E_cfg env)) (W_os d) else W_os d),
       W_ipt := False, W_ptr := False, W_pc := Returned\<rparr>"

definition attempt :: "route_info \<Rightarrow> 's daemon \<Rightarrow> duration \<Rightarrow> 's daemon" where
  "attempt ri d delay =
     (if \<not> RI_Online ri
      then (update set_offline (update (set_route ri) d))\<lparr>W_pc := Asleep (5 * second)\<rparr>
      else (update set_connecting (update (set_route ri) d))\<lparr>W_pc := Dialing delay\<rparr>)"

definition evict_hosts :: "profile \<Rightarrow> dns_state \<Rightarrow> dns_state" where
  "evict_hosts sp st =
     (let st1 = st\<lparr>hostCache := EvictHost (SSH_Host (P_SSH sp)) (hostCache st)\<rparr> in
      case TR_HTTPProxy (P_Transport sp) of
        None \<Rightarrow> st1
      | Some h \<Rightarrow> st1\<lparr>hostCache := EvictHost (HP_Host h) (hostCache st1)\<rparr>)"

definition dialed ::
  "'s loop_env \<Rightarrow> net_env \<Rightarrow> (string \<Rightarrow> string \<Rightarrow> string \<Rightarrow> tconn \<Rightarrow> unit option)
     \<Rightarrow> duration \<Rightarrow> 's daemon \<Rightarrow> 's daemon" where
  "dialed env net new_client delay d =
     (case DialContext new_client net (E_cfg env) (E_sp env) (W_dns d) of
        (Inl err, r) \<Rightarrow>
          (let d1 = update (set_retry (E_dial_msg env err) (pr_result r)) (d\<lparr>W_dns := pr_dns r\<rparr>);
               d2 = (if delay \<ge> 8 * second then d1\<lparr>W_dns := evict_hosts (E_sp env) (W_dns d1)\<rparr> else d1) in
           d2\<lparr>W_pc := Asleep (NextDelay delay baseDelay maxDelay)\<rparr>)
      | (Inr _, r) \<Rightarrow>
          (let d1 = update (set_connected (pr_result r))
                      (d\<lparr>W_dns := pr_dns r, W_tc := NewClient, W_ptr := True, W_opened := Suc (W_opened d)\<rparr>) in
           if W_listeners d then d1\<lparr>W_pc := Serving\<rparr>
           else
             (let d2 = d1\<lparr>W_listeners := True, W_services := startListeners (E_cfg env)\<rparr> in
              d2\<lparr>W_pc := (if TP_Enabled (CTransparentProxy (E_cfg env))
                          then Settling (ResolvedIPs (pr_result r)) else Serving)\<rparr>)))"

definition settled :: "'s loop_env \<Rightarrow> string list \<Rightarrow> 's daemon \<Rightarrow> 's daemon" where
  "settled env bypass d =
     (case Apply (E_os env) (iptablesCfg (E_cfg env)) bypass (W_os d) of
        (Some e, os') \<Rightarrow> (update (set_apply_failed (E_apply_msg env e)) (d\<lparr>W_os := os'\<rparr>))\<lparr>W_pc := Serving\<rparr>
      | (None, os') \<Rightarrow>
          (update (set_applied (E_cfg env)) (d\<lparr>W_os := os', W_ipt := True\<rparr>))\<lparr>W_pc := Serving\<rparr>)"

definition close_client :: "'s daemon \<Rightarrow> 's daemon" where
  "close_client d = d\<lparr>W_tc := Close (W_tc d), W_ptr := False, W_closed := Suc (W_closed d)\<rparr>"

definition lost :: "'s daemon \<Rightarrow> 's daemon" where
  "lost d = (update set_lost (close_client d))\<lparr>W_pc := Asleep baseDelay\<rparr>"

definition max_streams :: "config \<Rightarrow> int" where
  "max_streams cfg = (let n = MaxStreamsPerSSH (CPerformance cfg) in if n \<le> 0 then 256 else n)"

definition health :: "'s loop_env \<Rightarrow> nat \<Rightarrow> 's daemon \<Rightarrow> 's daemon" where
  "health env te d =
     (if te \<ge> 5 then lost d else update (set_streams (Active (W_tc d)) (max_streams (E_cfg env))) d)"

text \<open>
  The steps: \<open>None\<close> when the event cannot happen there. A wait that starts after the cancellation
  with a positive delay ends by the context, because that channel is ready first. The events after
  \<open>Health\<close> are those of the other goroutines.
\<close>

fun loop_step :: "'s loop_env \<Rightarrow> event \<Rightarrow> 's daemon \<Rightarrow> 's daemon option" where
  "loop_step env CtxCancel d = Some (d\<lparr>W_cancelled := True\<rparr>)"
| "loop_step env SeeDone d =
     (if \<not> W_cancelled d then None
      else (case W_pc d of
              Asleep _ \<Rightarrow> Some (teardown env d)
            | Serving \<Rightarrow> Some (teardown env (close_client d))
            | _ \<Rightarrow> None))"
| "loop_step env (Wake ri) d =
     (case W_pc d of
        Asleep delay \<Rightarrow> if W_cancelled d \<and> 0 < delay then None else Some (attempt ri d delay)
      | _ \<Rightarrow> None)"
| "loop_step env (Dialed net new_client) d =
     (case W_pc d of Dialing delay \<Rightarrow> Some (dialed env net new_client delay d) | _ \<Rightarrow> None)"
| "loop_step env Settled d =
     (case W_pc d of Settling bypass \<Rightarrow> Some (settled env bypass d) | _ \<Rightarrow> None)"
| "loop_step env (ConnLost err) d = (case W_pc d of Serving \<Rightarrow> Some (lost d) | _ \<Rightarrow> None)"
| "loop_step env (Health te) d = (case W_pc d of Serving \<Rightarrow> Some (health env te d) | _ \<Rightarrow> None)"
| "loop_step env (SocksRun up) d =
     Some (update (\<lambda>r. r\<lparr>R_proxy := (R_proxy r)\<lparr>S_SocksRunning := up,
       S_SocksAddr := (if up then socksAddr (E_cfg env) else S_SocksAddr (R_proxy r))\<rparr>\<rparr>) d)"
| "loop_step env (RedirectRun up) d =
     Some (update (\<lambda>r. r\<lparr>R_proxy := (R_proxy r)\<lparr>S_TransparentRunning := up,
       S_TransparentAddr := (if up then transparentAddr (E_cfg env) else S_TransparentAddr (R_proxy r))\<rparr>\<rparr>) d)"
| "loop_step env (Sampled m) d = Some (update (\<lambda>r. r\<lparr>R_metrics := m\<rparr>) d)"
| "loop_step env StreamAdd d = Some (d\<lparr>W_tc := Add (W_tc d)\<rparr>)"
| "loop_step env StreamRemove d = Some (d\<lparr>W_tc := Remove (W_tc d)\<rparr>)"
| "loop_step env PtrCleared d = Some (d\<lparr>W_ptr := False\<rparr>)"

fun loop_run :: "'s loop_env \<Rightarrow> event list \<Rightarrow> 's daemon \<Rightarrow> 's daemon option" where
  "loop_run env [] d = Some d"
| "loop_run env (e # es) d = (case loop_step env e d of None \<Rightarrow> None | Some d' \<Rightarrow> loop_run env es d')"

text \<open>The start of \<open>tunnelLoop\<close> over the daemon's variables: no delay, no client, no listeners, no rules.\<close>

definition loop_start :: "runtime \<Rightarrow> 's \<times> bool \<Rightarrow> dns_state \<Rightarrow> 's daemon" where
  "loop_start rt os dns =
     \<lparr>W_pc = Asleep 0, W_cancelled = False, W_rt = rt, W_tc = NewClient, W_ptr = False,
      W_listeners = False, W_services = [], W_ipt = False, W_os = os, W_dns = dns,
      W_opened = 0, W_closed = 0\<rparr>"

subsection \<open>The invariant\<close>

definition serving :: "pc \<Rightarrow> bool" where
  "serving p \<longleftrightarrow> (case p of Settling _ \<Rightarrow> True | Serving \<Rightarrow> True | _ \<Rightarrow> False)"

definition delay_ok :: "pc \<Rightarrow> bool" where
  "delay_ok p \<longleftrightarrow>
     (case p of Asleep t \<Rightarrow> 0 \<le> t \<and> t \<le> maxDelay | Dialing t \<Rightarrow> 0 \<le> t \<and> t \<le> maxDelay | _ \<Rightarrow> True)"

definition status_ok :: "'s daemon \<Rightarrow> bool" where
  "status_ok d \<longleftrightarrow>
     (let st = R_status (W_rt d) in
      (W_pc d \<noteq> Returned \<longrightarrow>
         (S_Connected st \<longleftrightarrow> serving (W_pc d)) \<and> (S_State st = ''CONNECTED'' \<longleftrightarrow> serving (W_pc d))) \<and>
      (W_ipt d \<longrightarrow> S_TransparentApplied (R_proxy (W_rt d))))"

definition resources_ok :: "'s loop_env \<Rightarrow> 's daemon \<Rightarrow> bool" where
  "resources_ok env d \<longleftrightarrow>
     (W_ptr d \<longrightarrow> serving (W_pc d)) \<and>
     W_opened d = W_closed d + (if serving (W_pc d) then 1 else 0) \<and>
     (serving (W_pc d) \<longrightarrow> W_listeners d) \<and>
     (W_pc d = Returned \<longrightarrow> \<not> W_listeners d) \<and>
     W_services d = (if W_listeners d then startListeners (E_cfg env) else []) \<and>
     (W_ipt d \<longrightarrow> W_listeners d \<and> (\<forall>b. W_pc d \<noteq> Settling b))"

definition tables_ok :: "'s loop_env \<Rightarrow> ('s \<Rightarrow> tables) \<Rightarrow> tables \<Rightarrow> 's daemon \<Rightarrow> bool" where
  "tables_ok env view v0 d \<longleftrightarrow>
     over (iptablesCfg (E_cfg env)) v0 (view (fst (W_os d))) \<and>
     (\<not> W_ipt d \<longrightarrow> (\<forall>t \<in> ipv4_tables. view (fst (W_os d)) t = v0 t))"

definition loop_inv :: "'s loop_env \<Rightarrow> ('s \<Rightarrow> tables) \<Rightarrow> tables \<Rightarrow> 's daemon \<Rightarrow> bool" where
  "loop_inv env view v0 d \<longleftrightarrow> delay_ok (W_pc d) \<and> status_ok d \<and> resources_ok env d \<and> tables_ok env view v0 d"

section \<open>Lemmas\<close>

lemmas setter_defs = set_route_def set_offline_def set_connecting_def set_result_def set_retry_def
  set_connected_def set_apply_failed_def set_applied_def set_streams_def set_lost_def

lemma serving_simps [simp]:
  "\<not> serving (Asleep t)" "\<not> serving (Dialing t)" "serving (Settling b)" "serving Serving" "\<not> serving Returned"
  by (simp_all add: serving_def)

lemma delay_ok_simps [simp]:
  "delay_ok (Asleep t) \<longleftrightarrow> 0 \<le> t \<and> t \<le> maxDelay" "delay_ok (Dialing t) \<longleftrightarrow> 0 \<le> t \<and> t \<le> maxDelay"
  "delay_ok (Settling b)" "delay_ok Serving" "delay_ok Returned"
  by (simp_all add: delay_ok_def)

lemma NextDelay_ok: "0 \<le> t \<Longrightarrow> t \<le> maxDelay \<Longrightarrow> 0 \<le> NextDelay t baseDelay maxDelay \<and> NextDelay t baseDelay maxDelay \<le> maxDelay"
  by (cases "t = 0") (auto simp: NextDelay_double NextDelay_def baseDelay_def maxDelay_def second_def)

lemma NextDelay_pos: "0 \<le> t \<Longrightarrow> t \<le> maxDelay \<Longrightarrow> 0 < NextDelay t baseDelay maxDelay"
  by (cases "t = 0") (auto simp: NextDelay_double NextDelay_def baseDelay_def maxDelay_def second_def)

lemma delays: "0 < second" "0 < baseDelay" "baseDelay \<le> maxDelay" "5 * second \<le> maxDelay" "0 \<le> maxDelay"
  by (simp_all add: baseDelay_def maxDelay_def second_def)

lemma update_simps [simp]:
  "W_pc (update f d) = W_pc d" "W_rt (update f d) = f (W_rt d)" "W_ptr (update f d) = W_ptr d"
  "W_listeners (update f d) = W_listeners d" "W_services (update f d) = W_services d"
  "W_ipt (update f d) = W_ipt d" "W_os (update f d) = W_os d" "W_opened (update f d) = W_opened d"
  "W_closed (update f d) = W_closed d" "W_cancelled (update f d) = W_cancelled d" "W_dns (update f d) = W_dns d"
  "W_tc (update f d) = W_tc d"
  by (simp_all add: update_def)

subsection \<open>Each step keeps the delays, the status and the resources\<close>

lemma dialed_cases:
  obtains (failed) r :: prepared and err where "dialed env net nc t d =
      (update (set_retry (E_dial_msg env err) (pr_result r))
        (d\<lparr>W_dns := (if t \<ge> 8 * second then evict_hosts (E_sp env) (pr_dns r) else pr_dns r)\<rparr>))
      \<lparr>W_pc := Asleep (NextDelay t baseDelay maxDelay)\<rparr>"
  | (ok) r :: prepared where "dialed env net nc t d =
      (update (set_connected (pr_result r))
        (d\<lparr>W_dns := pr_dns r, W_tc := NewClient, W_ptr := True, W_opened := Suc (W_opened d)\<rparr>))
      \<lparr>W_listeners := True,
       W_services := (if W_listeners d then W_services d else startListeners (E_cfg env)),
       W_pc := (if \<not> W_listeners d \<and> TP_Enabled (CTransparentProxy (E_cfg env))
                then Settling (ResolvedIPs (pr_result r)) else Serving)\<rparr>"
proof (cases "DialContext nc net (E_cfg env) (E_sp env) (W_dns d)")
  case (Pair x r)
  show ?thesis
  proof (cases x)
    case (Inl err)
    then show ?thesis using Pair by (intro failed [of err r]) (simp add: dialed_def Let_def update_def)
  next
    case (Inr u)
    then show ?thesis using Pair by (intro ok [of r]) (simp add: dialed_def Let_def update_def)
  qed
qed

lemma resources_frame:
  assumes "resources_ok env d" "W_pc d' = W_pc d" "W_ptr d' \<longrightarrow> W_ptr d" "W_listeners d' = W_listeners d"
    "W_services d' = W_services d" "W_ipt d' = W_ipt d" "W_opened d' = W_opened d" "W_closed d' = W_closed d"
  shows "resources_ok env d'"
  using assms(1,3) unfolding resources_ok_def by (simp add: assms(2,4-)) 

lemma status_frame:
  assumes "status_ok d" "W_pc d' = W_pc d" "W_ipt d' = W_ipt d" "R_status (W_rt d') = R_status (W_rt d)"
    "S_TransparentApplied (R_proxy (W_rt d')) = S_TransparentApplied (R_proxy (W_rt d))"
  shows "status_ok d'"
  using assms(1) unfolding status_ok_def by (simp add: assms(2-))

lemma status_step:
  assumes "status_ok d" "resources_ok env d" "loop_step env e d = Some d'"
  shows "status_ok d'"
proof (cases e)
  case (Dialed net nc)
  then obtain t where t: "W_pc d = Dialing t" "d' = dialed env net nc t d"
    using assms(3) by (auto split: pc.splits)
  show ?thesis using assms(1,2) t
    by (cases rule: dialed_cases [of env net nc t d]) (auto simp: status_ok_def setter_defs Let_def resources_ok_def)
next
  case Settled
  then obtain b where b: "W_pc d = Settling b" "d' = settled env b d" using assms(3) by (auto split: pc.splits)
  show ?thesis using assms(1,2) b
    by (auto simp: status_ok_def resources_ok_def settled_def setter_defs Let_def split: prod.splits option.splits)
next
  case SeeDone
  then show ?thesis using assms
    by (auto simp: status_ok_def Let_def teardown_def split: pc.splits if_splits)
next
  case (Wake ri)
  then show ?thesis using assms
    by (auto simp: status_ok_def Let_def attempt_def setter_defs split: pc.splits if_splits)
next
  case (Health te)
  then show ?thesis using assms
    by (auto simp: status_ok_def Let_def health_def lost_def close_client_def setter_defs split: pc.splits if_splits)
next
  case (ConnLost err)
  then show ?thesis using assms
    by (auto simp: status_ok_def Let_def lost_def close_client_def setter_defs split: pc.splits if_splits)
qed (use assms in \<open>auto intro: status_frame\<close>)

lemma delay_step:
  assumes "delay_ok (W_pc d)" "loop_step env e d = Some d'"
  shows "delay_ok (W_pc d')"
proof (cases e)
  case (Dialed net nc)
  then obtain t where t: "W_pc d = Dialing t" "d' = dialed env net nc t d"
    using assms(2) by (auto split: pc.splits)
  show ?thesis using assms(1) t NextDelay_ok
    by (cases rule: dialed_cases [of env net nc t d]) auto
next
  case Settled
  then show ?thesis using assms by (auto simp: settled_def split: pc.splits prod.splits option.splits)
next
  case (Wake ri)
  then show ?thesis using assms delays by (auto simp: attempt_def split: pc.splits if_splits)
qed (use assms delays in \<open>auto simp: teardown_def health_def lost_def split: pc.splits if_splits\<close>)

lemma resources_step:
  assumes "resources_ok env d" "loop_step env e d = Some d'"
  shows "resources_ok env d'"
proof (cases e)
  case (Dialed net nc)
  then obtain t where t: "W_pc d = Dialing t" "d' = dialed env net nc t d"
    using assms(2) by (auto split: pc.splits)
  show ?thesis using assms(1) t
    by (cases rule: dialed_cases [of env net nc t d]) (auto simp: resources_ok_def)
next
  case Settled
  then show ?thesis using assms
    by (auto simp: resources_ok_def settled_def split: pc.splits prod.splits option.splits)
next
  case SeeDone
  then show ?thesis using assms
    by (auto simp: resources_ok_def teardown_def close_client_def split: pc.splits if_splits)
next
  case (Wake ri)
  then show ?thesis using assms
    by (auto simp: resources_ok_def attempt_def split: pc.splits if_splits)
next
  case (Health te)
  then show ?thesis using assms
    by (auto simp: resources_ok_def health_def lost_def close_client_def split: pc.splits if_splits)
next
  case (ConnLost err)
  then show ?thesis using assms
    by (auto simp: resources_ok_def lost_def close_client_def split: pc.splits if_splits)
qed (use assms in \<open>auto intro: resources_frame\<close>)

lemma os_frame:
  assumes "loop_step env e d = Some d'" "e \<noteq> Settled" "e \<noteq> SeeDone"
  shows "W_os d' = W_os d" "W_ipt d' = W_ipt d"
proof -
  have "W_os d' = W_os d \<and> W_ipt d' = W_ipt d"
  proof (cases e)
    case (Dialed net nc)
    then obtain t where t: "W_pc d = Dialing t" "d' = dialed env net nc t d"
      using assms by (auto split: pc.splits)
    show ?thesis using t by (cases rule: dialed_cases [of env net nc t d]) auto
  qed (use assms in \<open>auto simp: attempt_def health_def lost_def close_client_def split: pc.splits if_splits\<close>)
  then show "W_os d' = W_os d" "W_ipt d' = W_ipt d" by simp_all
qed

lemma tables_step:
  assumes net: "netfilter (E_os env) view" and clean: "untouched (iptablesCfg (E_cfg env)) v0"
    and res: "resources_ok env d" and tab: "tables_ok env view v0 d" and step: "loop_step env e d = Some d'"
  shows "tables_ok env view v0 d'"
proof (cases "e = Settled \<or> e = SeeDone")
  case False
  then show ?thesis using os_frame [OF step] tab by (simp add: tables_ok_def)
next
  case True
  obtain s p where os: "W_os d = (s, p)" by (cases "W_os d")
  have ov: "over (iptablesCfg (E_cfg env)) v0 (view s)" using tab os by (simp add: tables_ok_def)
  have restored: "over (iptablesCfg (E_cfg env)) v0 u" if "\<forall>t \<in> ipv4_tables. u t = v0 t" for u
    using over_same [OF untouched_over [OF clean]] that by blast
  show ?thesis
  proof (cases "e = Settled")
    case True
    then obtain b where b: "W_pc d = Settling b" "d' = settled env b d" using step by (auto split: pc.splits)
    obtain x s' p' where a: "Apply (E_os env) (iptablesCfg (E_cfg env)) b (s, p) = (x, s', p')" by (metis surj_pair)
    have "\<not> W_ipt d" using res b by (auto simp: resources_ok_def)
    then show ?thesis
      using netfilter.over_Apply [OF net clean ov a] restored b(2)
      by (cases x) (auto simp: settled_def os a tables_ok_def)
  next
    case False
    then have "W_ipt d' = False \<and>
        W_os d' = (if W_ipt d then Cleanup (E_os env) (iptablesCfg (E_cfg env)) (W_os d) else W_os d)"
      using step True by (auto simp: teardown_def close_client_def split: pc.splits if_splits)
    moreover from this have "\<forall>t \<in> ipv4_tables. view (fst (W_os d')) t = v0 t"
      using netfilter.Cleanup_restores [OF net ov, of _ p] tab os by (auto simp: tables_ok_def)
    ultimately show ?thesis using restored by (simp add: tables_ok_def)
  qed
qed

lemma loop_inv_step:
  assumes "netfilter (E_os env) view" "untouched (iptablesCfg (E_cfg env)) v0"
    and "loop_inv env view v0 d" "loop_step env e d = Some d'"
  shows "loop_inv env view v0 d'"
  using assms delay_step status_step resources_step tables_step unfolding loop_inv_def by blast

lemma loop_inv_run:
  assumes "netfilter (E_os env) view" "untouched (iptablesCfg (E_cfg env)) v0"
  shows "loop_inv env view v0 d \<Longrightarrow> loop_run env es d = Some d' \<Longrightarrow> loop_inv env view v0 d'"
proof (induction es arbitrary: d)
  case (Cons e es)
  then show ?case using loop_inv_step [OF assms] by (auto split: option.splits)
qed simp

lemma loop_inv_start:
  assumes "untouched (iptablesCfg (E_cfg env)) (view (fst os))"
    and "\<not> S_Connected (R_status rt)" "S_State (R_status rt) \<noteq> ''CONNECTED''"
  shows "loop_inv env view (view (fst os)) (loop_start rt os dns)"
  using assms delays untouched_over [OF assms(1)]
  by (simp add: loop_inv_def loop_start_def status_ok_def resources_ok_def tables_ok_def Let_def)

subsection \<open>Returning after the cancellation\<close>

text \<open>How many of its own steps the loop can still take once it is cancelled, health ticks aside.\<close>

fun rank :: "pc \<Rightarrow> nat" where
  "rank Returned = 0"
| "rank (Asleep t) = (if 0 < t then 1 else 5)"
| "rank Serving = 2"
| "rank (Settling b) = 3"
| "rank (Dialing t) = 4"

fun own_step :: "event \<Rightarrow> bool" where
  "own_step SeeDone = True"
| "own_step (Wake ri) = True"
| "own_step (Dialed net nc) = True"
| "own_step Settled = True"
| "own_step (ConnLost err) = True"
| "own_step e = False"

lemma cancelled_stays: "loop_step env e d = Some d' \<Longrightarrow> W_cancelled d \<Longrightarrow> W_cancelled d'"
proof (cases e)
  case (Dialed net nc)
  assume "loop_step env e d = Some d'" "W_cancelled d"
  then obtain t where t: "W_pc d = Dialing t" "d' = dialed env net nc t d"
    using Dialed by (auto split: pc.splits)
  show "W_cancelled d'" using t \<open>W_cancelled d\<close> by (cases rule: dialed_cases [of env net nc t d]) auto
qed (auto simp: attempt_def health_def lost_def close_client_def teardown_def settled_def
      split: pc.splits if_splits prod.splits option.splits)

lemma rank_step:
  assumes "loop_step env e d = Some d'" "W_cancelled d" "delay_ok (W_pc d)"
  shows "rank (W_pc d') + (if own_step e then 1 else 0) \<le> rank (W_pc d)"
proof (cases e)
  case (Dialed net nc)
  then obtain t where t: "W_pc d = Dialing t" "d' = dialed env net nc t d"
    using assms(1) by (auto split: pc.splits)
  show ?thesis using assms(3) t NextDelay_pos Dialed by (cases rule: dialed_cases [of env net nc t d]) auto
qed (use assms delays in \<open>auto simp: attempt_def health_def lost_def close_client_def teardown_def settled_def
      split: pc.splits if_splits prod.splits option.splits\<close>)

lemma rank_run:
  assumes "loop_run env es d = Some d'" "W_cancelled d" "delay_ok (W_pc d)"
  shows "rank (W_pc d') + length (filter own_step es) \<le> rank (W_pc d)"
  using assms
proof (induction es arbitrary: d)
  case (Cons e es)
  then obtain d1 where d1: "loop_step env e d = Some d1" "loop_run env es d1 = Some d'" by (auto split: option.splits)
  then have "rank (W_pc d') + length (filter own_step es) \<le> rank (W_pc d1)"
    using Cons cancelled_stays delay_step by metis
  then show ?case using rank_step [OF d1(1) Cons.prems(2,3)] by (auto split: if_splits)
qed simp

lemma own_step_possible:
  assumes "W_cancelled d" "W_pc d \<noteq> Returned"
  obtains e d' where "own_step e" "loop_step env e d = Some d'"
proof (cases "W_pc d")
  case (Asleep t)
  then show ?thesis using assms by (intro that [of SeeDone]) auto
next
  case (Dialing t)
  then show ?thesis by (intro that [of "Dialed net nc" for net nc]) auto
next
  case (Settling b)
  then show ?thesis by (intro that [of Settled]) auto
next
  case Serving
  then show ?thesis using assms by (intro that [of SeeDone]) auto
qed (use assms in simp)

subsection \<open>What is not undone\<close>

text \<open>Once the listeners are up the rules are not tried again: a failed installation leaves the daemon
  without rules for the rest of the run, through every reconnect.\<close>

lemma apply_never_retried:
  assumes "loop_step env e d = Some d'" "W_listeners d" "\<not> W_ipt d" "\<forall>b. W_pc d \<noteq> Settling b"
  shows "\<not> W_ipt d' \<and> (\<forall>b. W_pc d' \<noteq> Settling b)"
proof (cases e)
  case (Dialed net nc)
  then obtain t where t: "W_pc d = Dialing t" "d' = dialed env net nc t d"
    using assms(1) by (auto split: pc.splits)
  show ?thesis using t assms(2,3) by (cases rule: dialed_cases [of env net nc t d]) auto
qed (use assms in \<open>auto simp: attempt_def health_def lost_def close_client_def teardown_def settled_def
      split: pc.splits if_splits prod.splits option.splits\<close>)

text \<open>The reconnecting counter is set by the first loss and never reset.\<close>

lemma reconnecting_sticks:
  assumes "loop_step env e d = Some d'" "S_PoolReconnecting (R_pool (W_rt d)) = 1"
  shows "S_PoolReconnecting (R_pool (W_rt d')) = 1"
proof (cases e)
  case (Dialed net nc)
  then obtain t where t: "W_pc d = Dialing t" "d' = dialed env net nc t d"
    using assms(1) by (auto split: pc.splits)
  show ?thesis using t assms(2) by (cases rule: dialed_cases [of env net nc t d]) (auto simp: setter_defs)
qed (use assms in \<open>auto simp: attempt_def health_def lost_def close_client_def teardown_def settled_def setter_defs
      split: pc.splits if_splits prod.splits option.splits\<close>)

subsection \<open>A concrete run\<close>

definition direct_profile :: profile where
  "direct_profile =
     \<lparr>P_ID = ''a'', P_Name = ''a'', P_Selected = True,
      P_SSH = \<lparr>SSH_Host = ''1.2.3.4'', SSH_Port = 22, SSH_Username = ''u'', SSH_Password = ''p'',
               SSH_AuthType = ''password'', SSH_FallbackIPs = []\<rparr>,
      P_Transport = \<lparr>TR_Mode = ''direct'', TR_Chain = [''tcp'', ''ssh''], TR_HTTPProxy = None, TR_TLS = None,
        TR_Payload = \<lparr>PL_Enabled = False, PL_Template = '''', PL_SendTiming = '''', PL_ReadResponse = False,
                       PL_AllowStatuses = []\<rparr>\<rparr>\<rparr>"

definition direct_env :: "tables loop_env" where
  "direct_env = \<lparr>E_os = fw, E_cfg = DefaultConfig, E_sp = direct_profile, E_dial_msg = (\<lambda>_. ''dial''),
     E_apply_msg = (\<lambda>_. ''apply'')\<rparr>"

definition up_route :: route_info where
  "up_route = \<lparr>RI_Online = True, RI_Raw = ''192.168.1.5:4000'', RI_Iface = ''wlan0'', RI_Gw = '''', RI_Src = ''192.168.1.5''\<rparr>"

definition demo_events :: "event list" where
  "demo_events =
     [Wake up_route, Dialed demo_net (\<lambda>_ _ _ _. Some ()), Settled, Health 0, ConnLost (Some ''EOF''),
      Wake up_route, Dialed demo_net (\<lambda>_ _ _ _. Some ()), Health 7, Wake up_route,
      Dialed demo_net (\<lambda>_ _ _ _. None), CtxCancel, SeeDone]"

lemma direct_parse: "ParseIP ''1.2.3.4'' \<noteq> None"
  by code_simp

lemma direct_stages:
  "dialEndpoint direct_profile = Inr (''1.2.3.4'', 22)" "UsesTLS direct_profile = False"
  by code_simp+

lemma direct_dial:
  "\<exists>r. DialContext nc demo_net DefaultConfig direct_profile st =
     (case nc (JoinHostPort ''1.2.3.4'' (Itoa 22)) ''u'' ''p'' probe_conn of None \<Rightarrow> Inl None | Some c \<Rightarrow> Inr c, r)"
proof -
  have s: "stage_proxy direct_profile c = (None, c)" "stage_tls demo_net direct_profile c = (None, c)"
    "stage_payload demo_net direct_profile c = (Inr [], c)" for c
    using direct_stages by (simp_all add: stage_proxy_def stage_tls_def stage_payload_def direct_profile_def)
  have b: "stage_banner direct_profile [] c st = (None, [], c, st)" for c st
  proof -
    have "ExtractHTTPStatuses [] = []" by code_simp
    then show ?thesis by (simp add: stage_banner_def direct_profile_def)
  qed
  have d: "dial demo_net k t a = Inr probe_conn" for k t a by (simp add: demo_net_def)
  obtain i where i: "ParseIP ''1.2.3.4'' = Some i" using direct_parse by auto
  have "pr_error (openPreparedConn demo_net DefaultConfig direct_profile st) = None \<and>
      pr_conn (openPreparedConn demo_net DefaultConfig direct_profile st) = Some probe_conn"
    by (simp add: openPreparedConn_def direct_stages dialTCPResolved_def i s b d Let_def)
  then show ?thesis
    by (auto simp: DialContext_def Let_def direct_profile_def ssh_password_def split: option.split)
qed

lemma settled_simps [simp]:
  "W_pc (settled env b d) = Serving" "W_listeners (settled env b d) = W_listeners d"
  "W_opened (settled env b d) = W_opened d" "W_closed (settled env b d) = W_closed d"
  "W_cancelled (settled env b d) = W_cancelled d" "W_dns (settled env b d) = W_dns d"
  by (auto simp: settled_def split: prod.split option.split)

lemma demo_attempt:
  "W_pc (attempt up_route d t) = Dialing t" "W_listeners (attempt up_route d t) = W_listeners d"
  "W_opened (attempt up_route d t) = W_opened d" "W_closed (attempt up_route d t) = W_closed d"
  "W_cancelled (attempt up_route d t) = W_cancelled d"
  by (auto simp: attempt_def up_route_def)

lemma demo_dialed:
  "\<exists>b. W_pc (dialed direct_env demo_net (\<lambda>_ _ _ _. Some ()) t d) = (if W_listeners d then Serving else Settling b)"
  "W_listeners (dialed direct_env demo_net (\<lambda>_ _ _ _. Some ()) t d)"
  "W_opened (dialed direct_env demo_net (\<lambda>_ _ _ _. Some ()) t d) = Suc (W_opened d)"
  "W_closed (dialed direct_env demo_net (\<lambda>_ _ _ _. Some ()) t d) = W_closed d"
  "W_cancelled (dialed direct_env demo_net (\<lambda>_ _ _ _. Some ()) t d) = W_cancelled d"
proof -
  obtain r where "DialContext (\<lambda>_ _ _ _. Some ()) demo_net DefaultConfig direct_profile (W_dns d) = (Inr (), r)"
    using direct_dial [of "\<lambda>_ _ _ _. Some ()" "W_dns d"] by auto
  then show "\<exists>b. W_pc (dialed direct_env demo_net (\<lambda>_ _ _ _. Some ()) t d) = (if W_listeners d then Serving else Settling b)"
  "W_listeners (dialed direct_env demo_net (\<lambda>_ _ _ _. Some ()) t d)"
  "W_opened (dialed direct_env demo_net (\<lambda>_ _ _ _. Some ()) t d) = Suc (W_opened d)"
  "W_closed (dialed direct_env demo_net (\<lambda>_ _ _ _. Some ()) t d) = W_closed d"
  "W_cancelled (dialed direct_env demo_net (\<lambda>_ _ _ _. Some ()) t d) = W_cancelled d"
    by (auto simp: dialed_def direct_env_def Let_def DefaultConfig_def)
qed

lemma demo_dial_failed:
  "W_pc (dialed direct_env demo_net (\<lambda>_ _ _ _. None) t d) = Asleep (NextDelay t baseDelay maxDelay)"
  "W_opened (dialed direct_env demo_net (\<lambda>_ _ _ _. None) t d) = W_opened d"
  "W_closed (dialed direct_env demo_net (\<lambda>_ _ _ _. None) t d) = W_closed d"
proof -
  obtain r where "DialContext (\<lambda>_ _ _ _. None :: unit option) demo_net DefaultConfig direct_profile (W_dns d) = (Inl None, r)"
    using direct_dial [of "\<lambda>_ _ _ _. None" "W_dns d"] by auto
  then show "W_pc (dialed direct_env demo_net (\<lambda>_ _ _ _. None) t d) = Asleep (NextDelay t baseDelay maxDelay)"
  "W_opened (dialed direct_env demo_net (\<lambda>_ _ _ _. None) t d) = W_opened d"
  "W_closed (dialed direct_env demo_net (\<lambda>_ _ _ _. None) t d) = W_closed d"
    by (auto simp: dialed_def direct_env_def Let_def)
qed

lemma demo_loop_run:
  "\<exists>d. loop_run direct_env demo_events (loop_start rt os dns) = Some d \<and> W_pc d = Returned \<and> W_opened d = 2"
proof -
  have l: "W_pc (lost d) = Asleep baseDelay" "W_listeners (lost d) = W_listeners d" "W_opened (lost d) = W_opened d"
    "W_cancelled (lost d) = W_cancelled d" for d :: "tables daemon"
    by (simp_all add: lost_def close_client_def)
  have h: "health direct_env 0 d = update (set_streams (Active (W_tc d)) (max_streams (E_cfg direct_env))) d"
    "health direct_env 7 d = lost d" for d
    by (simp_all add: health_def)
  define d0 :: "tables daemon" where "d0 = loop_start rt os dns"
  define d1 where "d1 = attempt up_route d0 0"
  define d2 where "d2 = dialed direct_env demo_net (\<lambda>_ _ _ _. Some ()) 0 d1"
  have 1: "loop_step direct_env (Wake up_route) d0 = Some d1" "W_pc d1 = Dialing 0" "\<not> W_listeners d1"
    "W_opened d1 = 0" "\<not> W_cancelled d1"
    by (simp_all add: d1_def d0_def loop_start_def demo_attempt)
  obtain b where 2: "loop_step direct_env (Dialed demo_net (\<lambda>_ _ _ _. Some ())) d1 = Some d2"
    "W_pc d2 = Settling b" "W_listeners d2" "W_opened d2 = 1" "\<not> W_cancelled d2"
    using demo_dialed(1) [of 0 d1] 1 by (auto simp: d2_def demo_dialed)
  define d3 where "d3 = settled direct_env b d2"
  define d4 where "d4 = health direct_env 0 d3"
  define d5 where "d5 = lost d4"
  have 3: "loop_step direct_env Settled d2 = Some d3" "W_pc d3 = Serving" "W_listeners d3" "W_opened d3 = 1" "\<not> W_cancelled d3"
    using 2 by (simp_all add: d3_def)
  have 4: "loop_step direct_env (Health 0) d3 = Some d4" "W_pc d4 = Serving" "W_listeners d4" "W_opened d4 = 1" "\<not> W_cancelled d4"
    using 3 by (simp_all add: d4_def h)
  have 5: "loop_step direct_env (ConnLost (Some ''EOF'')) d4 = Some d5" "W_pc d5 = Asleep baseDelay" "W_listeners d5"
    "W_opened d5 = 1" "\<not> W_cancelled d5"
    using 4 by (simp_all add: d5_def l)
  define d6 where "d6 = attempt up_route d5 baseDelay"
  define d7 where "d7 = dialed direct_env demo_net (\<lambda>_ _ _ _. Some ()) baseDelay d6"
  define d8 where "d8 = health direct_env 7 d7"
  have 6: "loop_step direct_env (Wake up_route) d5 = Some d6" "W_pc d6 = Dialing baseDelay" "W_listeners d6"
    "W_opened d6 = 1" "\<not> W_cancelled d6"
    using 5 by (simp_all add: d6_def demo_attempt)
  have 7: "loop_step direct_env (Dialed demo_net (\<lambda>_ _ _ _. Some ())) d6 = Some d7"
    "W_pc d7 = Serving" "W_opened d7 = 2" "\<not> W_cancelled d7"
    using demo_dialed(1) [of baseDelay d6] 6 by (auto simp: d7_def demo_dialed)
  have 8: "loop_step direct_env (Health 7) d7 = Some d8" "W_pc d8 = Asleep baseDelay" "W_opened d8 = 2" "\<not> W_cancelled d8"
    using 7 by (simp_all add: d8_def h l)
  define d9 where "d9 = attempt up_route d8 baseDelay"
  define d10 where "d10 = dialed direct_env demo_net (\<lambda>_ _ _ _. None) baseDelay d9"
  have 9: "loop_step direct_env (Wake up_route) d8 = Some d9" "W_pc d9 = Dialing baseDelay" "W_opened d9 = 2"
    using 8 by (simp_all add: d9_def demo_attempt)
  have 10: "loop_step direct_env (Dialed demo_net (\<lambda>_ _ _ _. None)) d9 = Some d10"
    "W_pc d10 = Asleep (NextDelay baseDelay baseDelay maxDelay)" "W_opened d10 = 2"
    using 9 by (simp_all add: d10_def demo_dial_failed)
  have "loop_run direct_env demo_events d0 = Some (teardown direct_env (d10\<lparr>W_cancelled := True\<rparr>))"
    using 10(2) unfolding demo_events_def
    by (simp add: 1(1) 2(1) 3(1) 4(1) 5(1) 6(1) 7(1) 8(1) 9(1) 10(1) del: loop_step.simps(3-))
  then show ?thesis by (simp add: d0_def [symmetric] teardown_def 10)
qed

lemma basic_run:
  assumes "loop_run env es d = Some d'" "delay_ok (W_pc d) \<and> status_ok d \<and> resources_ok env d"
  shows "delay_ok (W_pc d') \<and> status_ok d' \<and> resources_ok env d'"
  using assms
proof (induction es arbitrary: d)
  case (Cons e es)
  then show ?case using delay_step status_step resources_step by (fastforce split: option.splits)
qed simp

lemma start_basic:
  assumes "\<not> S_Connected (R_status rt)" "S_State (R_status rt) \<noteq> ''CONNECTED''"
  shows "delay_ok (W_pc (loop_start rt os dns)) \<and> status_ok (loop_start rt os dns) \<and>
      resources_ok env (loop_start rt os dns)"
  using assms delays by (simp add: loop_start_def status_ok_def resources_ok_def Let_def)

lemma delay_run: "loop_run env es d = Some d' \<Longrightarrow> delay_ok (W_pc d) \<Longrightarrow> delay_ok (W_pc d')"
proof (induction es arbitrary: d)
  case (Cons e es)
  then show ?case using delay_step by (fastforce split: option.splits)
qed simp

section \<open>Properties\<close>





text \<open>C12. A cancelled loop returns: after the cancellation it takes at most five steps of its own, health
  ticks aside, whatever the waits bring (at most one more connection is made), and until it has
  returned a step of its own is always possible.\<close>

theorem tunnel_loop_stops:
  assumes "loop_run env es (loop_start rt os dns) = Some d" "W_cancelled d"
  shows "(\<forall>fs d'. loop_run env fs d = Some d' \<longrightarrow> length (filter own_step fs) \<le> 5) \<and>
         (W_pc d \<noteq> Returned \<longrightarrow> (\<exists>e d'. own_step e \<and> loop_step env e d = Some d'))"
proof -
  have ok: "delay_ok (W_pc d)" using assms(1) delay_run [of env es "loop_start rt os dns" d] delays
    by (simp add: loop_start_def)
  have "rank (W_pc d) \<le> 5" by (cases "W_pc d") auto
  then show ?thesis
    using rank_run [OF _ assms(2) ok] own_step_possible [OF assms(2)] by (metis le_trans add_leD2)
qed

theorem tunnel_loop_stops_witness:
  "\<forall>rt. \<exists>d. loop_run direct_env [CtxCancel, SeeDone] (loop_start rt (empty_tables, False) dns_init) = Some d \<and>
     W_pc d = Returned \<and> length (filter own_step [SeeDone]) \<le> 5"
proof
  fix rt
  let ?d = "(loop_start rt (empty_tables, False) dns_init)\<lparr>W_cancelled := True\<rparr>"
  have run: "loop_run direct_env [CtxCancel] (loop_start rt (empty_tables, False) dns_init) = Some ?d" by simp
  have nxt: "loop_run direct_env [SeeDone] ?d = Some (teardown direct_env ?d)" by (simp add: loop_start_def)
  then have "length (filter own_step [SeeDone]) \<le> 5" using tunnel_loop_stops [OF run] by simp
  with nxt show "\<exists>d. loop_run direct_env [CtxCancel, SeeDone] (loop_start rt (empty_tables, False) dns_init) = Some d \<and>
     W_pc d = Returned \<and> length (filter own_step [SeeDone]) \<le> 5"
    by (simp add: teardown_def)
qed

end
