(* ===== verification/Lifecycle.thy ===== *)
theory Lifecycle
  imports TunnelLoop
begin

text \<open>
  Starting and stopping the tunnel (\<open>startTunnel\<close>, \<open>stopTunnel\<close>, the control handler and the status
  watcher of \<^verbatim>\<open>cmd/sshcustomd/main.go\<close>): which goroutines run when, as steps over the variables they
  share. Every start begins a new generation with its own goroutine, context and done channel.
\<close>

section \<open>Definitions\<close>

text \<open>
  A goroutine is in \<open>tunnelLoop\<close>, has stored that the tunnel is not running and not yet updated the
  state, waits before it restarts, has ended (its done channel is closed), or ended by a recovered
  panic. \<open>L_stopping\<close> is the generation that a \<open>stopTunnel\<close> waits for; it holds the lifecycle mutex
  meanwhile.
\<close>

datatype gphase = Absent | Looping | Tail | Delaying duration | Ended | Panicked

record lifecycle =
  L_running :: bool
  L_explicit :: bool
  L_backoff :: duration
  L_ctx_done :: bool
  L_gens :: nat
  L_phase :: "nat \<Rightarrow> gphase"
  L_cancelled :: "nat \<Rightarrow> bool"
  L_stopping :: "nat option"
  L_rt :: runtime

definition set_no_profile :: "runtime \<Rightarrow> runtime" where
  "set_no_profile r = r\<lparr>R_status := (R_status r)\<lparr>S_LastError := ''no selected profile'',
     S_LastEvent := ''no profile selected''\<rparr>\<rparr>"

definition set_starting :: "instant \<Rightarrow> profile \<Rightarrow> runtime \<Rightarrow> runtime" where
  "set_starting now sp r =
     r\<lparr>R_status := (R_status r)\<lparr>S_Running := True, S_State := ''STARTING'', S_TunnelStartedAt := Some now,
         S_LastEvent := ''tunnel starting'', S_LastError := ''''\<rparr>,
       R_profile := (R_profile r)\<lparr>S_SelectedProfile := P_Name sp, S_SelectedMode := TR_Mode (P_Transport sp),
         S_TransportChain := Join (TR_Chain (P_Transport sp)) '' -> '',
         S_PayloadEnabled := PL_Enabled (TR_Payload (P_Transport sp))\<rparr>\<rparr>"

definition set_ended :: "runtime \<Rightarrow> runtime" where
  "set_ended r =
     (let st = (R_status r)\<lparr>S_Running := False, S_Connected := False, S_TunnelStartedAt := None\<rparr> in
      r\<lparr>R_status := (if S_State st \<noteq> ''IDLE''
                     then st\<lparr>S_State := ''IDLE'', S_LastEvent := ''tunnel stopped''\<rparr> else st)\<rparr>)"

definition set_stopped :: "runtime \<Rightarrow> runtime" where
  "set_stopped r =
     r\<lparr>R_status := (R_status r)\<lparr>S_Running := False, S_Connected := False, S_State := ''IDLE'',
         S_LastEvent := ''tunnel stopped and rules cleaned'', S_LastError := '''', S_TunnelStartedAt := None\<rparr>,
       R_pool := (R_pool r)\<lparr>S_PoolSize := 0, S_PoolHealthy := 0, S_PoolStreams := 0\<rparr>\<rparr>"

text \<open>\<open>pf\<close> is what \<^verbatim>\<open>GetProfiles\<close> returns after \<^verbatim>\<open>ReloadProfiles\<close>. \<open>startTunnel\<close> runs under the mutex.\<close>

definition startTunnel :: "profiles_file \<Rightarrow> instant \<Rightarrow> lifecycle \<Rightarrow> lifecycle" where
  "startTunnel pf now l =
     (if L_running l then l
      else (case SelectedProfile pf of
              None \<Rightarrow> l\<lparr>L_rt := set_no_profile (L_rt l)\<rparr>
            | Some sp \<Rightarrow>
                l\<lparr>L_running := True, L_explicit := False, L_backoff := 0, L_gens := Suc (L_gens l),
                  L_phase := (L_phase l)(L_gens l := Looping), L_cancelled := (L_cancelled l)(L_gens l := False),
                  L_rt := set_starting now sp (L_rt l)\<rparr>))"

text \<open>\<open>stopTunnel\<close> up to the wait for the done channel, and after it.\<close>

definition stop_begin :: "lifecycle \<Rightarrow> lifecycle" where
  "stop_begin l =
     (if \<not> L_running l then l
      else let g = L_gens l - 1 in
        l\<lparr>L_explicit := True, L_cancelled := (L_cancelled l)(g := True), L_stopping := Some g\<rparr>)"

definition stop_end :: "lifecycle \<Rightarrow> lifecycle" where
  "stop_end l = l\<lparr>L_stopping := None, L_rt := set_stopped (L_rt l)\<rparr>"

text \<open>The delay before an automatic restart, and the one after it.\<close>

definition restart_delay :: "duration \<Rightarrow> duration" where
  "restart_delay b = (if b \<le> 0 then 2 * second else b)"

definition next_restart :: "duration \<Rightarrow> duration" where
  "next_restart d = (let b = wrap64 (d * 2) in if b > 60 * second then 60 * second else b)"

text \<open>The goroutine after \<open>tunnelLoop\<close> returned, and after its delay.\<close>

definition loop_returned :: "nat \<Rightarrow> lifecycle \<Rightarrow> lifecycle" where
  "loop_returned g l =
     (if L_explicit l \<or> L_ctx_done l
      then l\<lparr>L_running := False, L_phase := (L_phase l)(g := Tail)\<rparr>
      else let d = restart_delay (L_backoff l) in
        l\<lparr>L_running := False, L_backoff := next_restart d, L_phase := (L_phase l)(g := Delaying d)\<rparr>)"

definition delay_over :: "profiles_file \<Rightarrow> instant \<Rightarrow> nat \<Rightarrow> lifecycle \<Rightarrow> lifecycle" where
  "delay_over pf now g l =
     (let l1 = (if \<not> L_ctx_done l \<and> \<not> L_explicit l then startTunnel pf now l else l) in
      l1\<lparr>L_phase := (L_phase l1)(g := Ended)\<rparr>)"

text \<open>
  The steps. \<open>tunnelLoop\<close> returns only when its context, or the daemon's, is cancelled; a stop waits
  for the done channel or five seconds. Control actions are goroutines of their own, so starts and
  stops come in any order, but a start and a stop exclude each other by the mutex.
\<close>

inductive life_step :: "lifecycle \<Rightarrow> lifecycle \<Rightarrow> bool" where
  start: "L_stopping l = None \<Longrightarrow> life_step l (startTunnel pf now l)"
| stop: "L_stopping l = None \<Longrightarrow> life_step l (stop_begin l)"
| stop_done: "L_stopping l = Some g \<Longrightarrow> life_step l (stop_end l)"
| shutdown: "life_step l (l\<lparr>L_ctx_done := True\<rparr>)"
| return: "L_phase l g = Looping \<Longrightarrow> L_cancelled l g \<or> L_ctx_done l \<Longrightarrow> life_step l (loop_returned g l)"
| panic: "L_phase l g = Looping \<Longrightarrow> life_step l (l\<lparr>L_phase := (L_phase l)(g := Panicked)\<rparr>)"
| finish: "L_phase l g = Tail \<Longrightarrow>
    life_step l (l\<lparr>L_phase := (L_phase l)(g := Ended), L_rt := set_ended (L_rt l)\<rparr>)"
| restart: "L_phase l g = Delaying d \<Longrightarrow> L_stopping l = None \<or> L_ctx_done l \<or> L_explicit l \<Longrightarrow>
    life_step l (delay_over pf now g l)"

definition life_init :: "runtime \<Rightarrow> lifecycle" where
  "life_init rt =
     \<lparr>L_running = False, L_explicit = False, L_backoff = 0, L_ctx_done = False, L_gens = 0,
      L_phase = (\<lambda>_. Absent), L_cancelled = (\<lambda>_. False), L_stopping = None, L_rt = rt\<rparr>"

text \<open>The actions of the control handler, as the operations they run in order.\<close>

datatype life_op = OpStart | OpStop | OpSleep duration

definition control :: "string \<Rightarrow> life_op list" where
  "control action =
     (if action = ''start'' then [OpStart]
      else if action = ''stop'' then [OpStop]
      else if action = ''restart'' then [OpStop, OpSleep (500 * millisecond), OpStart]
      else [])"

subsection \<open>The module description\<close>

definition mod_desc :: "string \<Rightarrow> string" where
  "mod_desc status =
     (if status = ''running'' then ''description=[*] SSHCustom-Magisk - running''
      else if status = ''standby'' then ''description=[~] SSHCustom-Magisk - standby''
      else ''description=[ ] SSHCustom-Magisk - disconnected'')"

fun replace_desc :: "string \<Rightarrow> string list \<Rightarrow> string list" where
  "replace_desc desc [] = []"
| "replace_desc desc (l # ls) =
     (if HasPrefix l ''description='' then desc # ls else l # replace_desc desc ls)"

text \<open>\<open>setModDesc\<close> as a function of the file: \<open>None\<close> when it cannot be read, and then nothing is written.\<close>

definition setModDesc :: "string \<Rightarrow> string option \<Rightarrow> string option" where
  "setModDesc status file =
     map_option (\<lambda>data. Join (replace_desc (mod_desc status) (Split nl data)) [nl]) file"

text \<open>One turn of the watcher: the status it derives from the snapshot, and whether it writes.\<close>

definition watch_status :: "(string \<times> val) list \<Rightarrow> string" where
  "watch_status snap =
     (if as_bool (lookup snap ''connected'') then ''running''
      else if as_bool (lookup snap ''running'') then ''running''
      else ''disconnected'')"

definition watch :: "(string \<times> val) list \<Rightarrow> string \<times> string option \<Rightarrow> string \<times> string option" where
  "watch snap = (\<lambda>(last, file).
     let status = watch_status snap in
     if status \<noteq> last then (status, case setModDesc status file of None \<Rightarrow> file | f \<Rightarrow> f) else (last, file))"

section \<open>Lemmas\<close>

text \<open>\<open>tunnelLoop\<close> returns only after its context was cancelled, as the step \<open>return\<close> says.\<close>

lemma loop_returns_cancelled:
  "loop_run env es d = Some d' \<Longrightarrow> W_pc d = Returned \<longrightarrow> W_cancelled d \<Longrightarrow> W_pc d' = Returned \<longrightarrow> W_cancelled d'"
proof (induction es arbitrary: d)
  case (Cons e es)
  then obtain d1 where d1: "loop_step env e d = Some d1" "loop_run env es d1 = Some d'" by (auto split: option.splits)
  have "W_pc d1 = Returned \<longrightarrow> W_cancelled d1"
  proof (cases e)
    case (Dialed net nc)
    then obtain t where t: "W_pc d = Dialing t" "d1 = dialed env net nc t d" using d1(1) by (auto split: pc.splits)
    then show ?thesis by (cases rule: dialed_cases [of env net nc t d]) auto
  qed (use Cons.prems(2) d1(1) in \<open>auto simp: attempt_def health_def lost_def close_client_def teardown_def
        split: pc.splits if_splits\<close>)
  with d1(2) show ?case by (rule Cons.IH)
qed simp

text \<open>The restart delay is a bounded backoff.\<close>

interpretation restart_backoff: backoff next_restart "2 * second" "60 * second"
proof unfold_locales
  fix d assume d: "2 * second \<le> d" "d \<le> 60 * second"
  then have "wrap64 (d * 2) = d * 2" by (intro wrap64_id) (auto simp: second_def)
  then show "next_restart d = min (2 * d) (60 * second)" by (auto simp: next_restart_def Let_def)
qed (simp_all add: second_def)

subsection \<open>The invariant of the life cycle\<close>

definition current :: "lifecycle \<Rightarrow> nat" where
  "current l = L_gens l - 1"

definition live :: "gphase \<Rightarrow> bool" where
  "live p \<longleftrightarrow> p = Looping \<or> p = Panicked"

definition life_inv :: "lifecycle \<Rightarrow> bool" where
  "life_inv l \<longleftrightarrow>
     (\<forall>g. live (L_phase l g) \<longleftrightarrow> L_running l \<and> 0 < L_gens l \<and> g = current l) \<and>
     (L_running l \<longrightarrow> 0 < L_gens l) \<and>
     (\<forall>g. L_phase l g = Looping \<and> L_cancelled l g \<longrightarrow> L_explicit l) \<and>
     (\<forall>g d. L_phase l g \<noteq> Delaying d) \<and>
     (\<forall>g \<ge> L_gens l. L_phase l g = Absent) \<and>
     (S_Running (R_status (L_rt l)) \<longrightarrow> L_running l \<or> (\<exists>g. L_phase l g = Tail))"

lemma set_rt_simps [simp]:
  "S_Running (R_status (set_no_profile r)) = S_Running (R_status r)"
  "S_Running (R_status (set_starting now sp r))" "\<not> S_Running (R_status (set_ended r))"
  "\<not> S_Running (R_status (set_stopped r))"
  by (simp_all add: set_no_profile_def set_starting_def set_ended_def set_stopped_def Let_def)

lemma life_inv_init: "\<not> S_Running (R_status rt) \<Longrightarrow> life_inv (life_init rt)"
  by (simp add: life_inv_def life_init_def live_def)

lemma life_inv_step: "life_step l l' \<Longrightarrow> life_inv l \<Longrightarrow> life_inv l'"
proof (induction rule: life_step.induct)
  case (start l pf now)
  then show ?case
    by (auto simp: life_inv_def startTunnel_def live_def current_def split: option.split)
next
  case (stop l)
  then show ?case by (auto simp: life_inv_def stop_begin_def live_def current_def Let_def)
next
  case (return l g)
  then have g: "g = current l" "L_running l" "0 < L_gens l" and e: "L_explicit l \<or> L_ctx_done l"
    unfolding life_inv_def live_def by blast+
  have only: "L_phase l h = Looping \<or> L_phase l h = Panicked \<longleftrightarrow> h = g" for h
    using return g unfolding life_inv_def live_def by blast
  have "loop_returned g l = l\<lparr>L_running := False, L_phase := (L_phase l)(g := Tail)\<rparr>"
    using e by (simp add: loop_returned_def)
  then show ?case using return(3) only g by (auto simp: life_inv_def live_def current_def)
next
  case (panic l g)
  then show ?case by (auto simp: life_inv_def live_def current_def)
next
  case (finish l g)
  have "\<not> live (L_phase l g)" using finish by (simp add: live_def)
  then have "\<not> (L_running l \<and> g = current l)" using finish(2) unfolding life_inv_def by blast
  then show ?case using finish by (auto simp: life_inv_def live_def current_def)
next
  case (restart l g d pf now)
  then show ?case by (auto simp: life_inv_def)
qed (auto simp: life_inv_def stop_end_def live_def current_def)

lemma life_reach: "life_step\<^sup>*\<^sup>* l l' \<Longrightarrow> life_inv l \<Longrightarrow> life_inv l'"
  by (induction rule: rtranclp_induct) (auto intro: life_inv_step)

subsection \<open>The module description\<close>

lemma replace_desc_same_length [simp]: "length (replace_desc desc ls) = length ls"
  by (induction ls) auto

lemma replace_desc_first:
  "i < length ls \<Longrightarrow> replace_desc desc ls ! i =
     (if HasPrefix (ls ! i) ''description='' \<and> (\<forall>j < i. \<not> HasPrefix (ls ! j) ''description='') then desc else ls ! i)"
proof (induction ls arbitrary: i)
  case (Cons l ls)
  show ?case
  proof (cases i)
    case 0
    then show ?thesis by simp
  next
    case (Suc k)
    then show ?thesis using Cons by (auto simp: All_less_Suc2)
  qed
qed simp

lemma mod_desc_prefix: "HasPrefix (mod_desc status) ''description=''"
  by (simp add: mod_desc_def HasPrefix_def)

lemma mod_desc_line: "nl \<notin> set (mod_desc status)"
  by (simp add: mod_desc_def nl_def)

lemma replace_desc_idem: "replace_desc (mod_desc st) (replace_desc (mod_desc st') ls) = replace_desc (mod_desc st) ls"
  by (induction ls) (simp_all add: mod_desc_prefix)

lemma Split_nl: "l \<in> set (Split nl s) \<Longrightarrow> nl \<notin> set l"
  using Split_pieces by blast

text \<open>A later status overwrites an earlier one, and nothing else in the file changes twice.\<close>

lemma setModDesc_overwrites: "setModDesc st (setModDesc st' fl) = setModDesc st fl"
proof (cases fl)
  case (Some data)
  let ?ls = "replace_desc (mod_desc st') (Split nl data)"
  have "?ls \<noteq> []" using Split_nonempty [of nl data] by (metis length_0_conv replace_desc_same_length)
  moreover have "\<forall>l \<in> set ?ls. nl \<notin> set l"
  proof
    fix l assume "l \<in> set ?ls"
    then obtain i where i: "i < length (Split nl data)" "l = ?ls ! i" by (auto simp: in_set_conv_nth)
    then show "nl \<notin> set l"
      using Split_nl [of "Split nl data ! i" data] mod_desc_line by (auto simp: replace_desc_first)
  qed
  ultimately have "Split nl (Join ?ls [nl]) = ?ls" by (rule Split_Join)
  then show ?thesis by (simp add: setModDesc_def Some replace_desc_idem)
qed (simp add: setModDesc_def)

subsection \<open>A stop that times out\<close>

definition two_profiles :: profiles_file where
  "two_profiles = \<lparr>SelectedID = ''a'', Profiles = [direct_profile]\<rparr>"

lemma two_selected: "SelectedProfile two_profiles = Some direct_profile"
  by code_simp

text \<open>When the loop needs more than five seconds to return, the state update of its goroutine can come
  after the next start: the tunnel runs, and the state says that it does not.\<close>

lemma late_end_hides_running_tunnel:
  "\<exists>l. life_step\<^sup>*\<^sup>* (life_init rt) l \<and> L_phase l 1 = Looping \<and> L_running l \<and> \<not> S_Running (R_status (L_rt l))"
proof -
  define l1 where "l1 = startTunnel two_profiles 0 (life_init rt)"
  define l2 where "l2 = stop_begin l1"
  define l3 where "l3 = stop_end l2"
  define l4 where "l4 = loop_returned 0 l3"
  define l5 where "l5 = startTunnel two_profiles 6 l4"
  define l6 where "l6 = l5\<lparr>L_phase := (L_phase l5)(0 := Ended), L_rt := set_ended (L_rt l5)\<rparr>"
  note d = startTunnel_def stop_begin_def stop_end_def loop_returned_def two_selected life_init_def
  have s: "life_step (life_init rt) l1" "life_step l1 l2" "life_step l2 l3" "life_step l3 l4" "life_step l4 l5" "life_step l5 l6"
    unfolding l1_def l2_def l3_def l4_def l5_def l6_def
    by (rule life_step.intros; simp add: d)+
  have "life_step\<^sup>*\<^sup>* (life_init rt) l6"
    using s by (meson converse_rtranclp_into_rtranclp rtranclp.rtrancl_refl)
  moreover have "L_phase l6 1 = Looping \<and> L_running l6 \<and> \<not> S_Running (R_status (L_rt l6))"
    by (simp add: l6_def l5_def l4_def l3_def l2_def l1_def d)
  ultimately show ?thesis by blast
qed

lemma life_inv_loops:
  assumes "life_inv l"
  shows "(\<forall>g h. L_phase l g = Looping \<and> L_phase l h = Looping \<longrightarrow> g = h) \<and>
         (L_running l \<longleftrightarrow> (\<exists>g. L_phase l g = Looping \<or> L_phase l g = Panicked)) \<and>
         (S_Running (R_status (L_rt l)) \<longrightarrow> L_running l \<or> (\<exists>g. L_phase l g = Tail)) \<and>
         (\<forall>g d. L_phase l g \<noteq> Delaying d)"
proof -
  have live: "L_phase l g = Looping \<or> L_phase l g = Panicked \<longleftrightarrow> L_running l \<and> 0 < L_gens l \<and> g = current l" for g
    using assms by (simp add: life_inv_def live_def)
  have "\<forall>g h. L_phase l g = Looping \<and> L_phase l h = Looping \<longrightarrow> g = h" using live by metis
  moreover have "L_running l \<longrightarrow> 0 < L_gens l" "\<forall>g d. L_phase l g \<noteq> Delaying d"
    "S_Running (R_status (L_rt l)) \<longrightarrow> L_running l \<or> (\<exists>g. L_phase l g = Tail)"
    using assms by (simp_all add: life_inv_def)
  ultimately show ?thesis using live by blast
qed

section \<open>Properties\<close>



end
