(* ===== verification/Daemon.thy ===== *)
theory Daemon
  imports Lifecycle
begin

text \<open>
  The rest of \<^verbatim>\<open>cmd/sshcustomd\<close>: the command line and the initial state (\<^verbatim>\<open>main.go\<close>), the DNS forwarder
  (\<^verbatim>\<open>dns.go\<close>), the handler of redirected connections (\<^verbatim>\<open>transparent.go\<close>, and the address decoding of
  \<^verbatim>\<open>platform_linux.go\<close>) and the route cache (\<^verbatim>\<open>route.go\<close>). Sockets, the clock and the system calls
  are parameters.
\<close>

section \<open>Definitions\<close>

subsection \<open>Command line\<close>

fun flagArg :: "string list \<Rightarrow> string \<Rightarrow> string \<Rightarrow> string" where
  "flagArg (a # b # as) flag def = (if a = flag then b else flagArg (b # as) flag def)"
| "flagArg as flag def = def"

definition hasFlag :: "string list \<Rightarrow> string \<Rightarrow> bool" where
  "hasFlag as flag = list_ex (\<lambda>a. a = flag) as"

datatype validate_error = BadFile file_error | NoProfile | BadHostPort | EmptyChain

definition validateCmd ::
  "(string \<Rightarrow> config option) \<Rightarrow> (string \<Rightarrow> profiles_file option) \<Rightarrow> fs \<Rightarrow> string list
     \<Rightarrow> validate_error option" where
  "validateCmd unc unp f as =
     (let cfgPath = flagArg as ''-c'' ''config.json''; pfPath = flagArg as ''-p'' ''profiles.json'' in
      case LoadConfig unc cfgPath f of
        Inl e \<Rightarrow> Some (BadFile e)
      | Inr _ \<Rightarrow>
          (case LoadProfiles unp pfPath f of
             Inl e \<Rightarrow> Some (BadFile e)
           | Inr pf \<Rightarrow>
               (case SelectedProfile pf of
                  None \<Rightarrow> Some NoProfile
                | Some sp \<Rightarrow>
                    if SSH_Host (P_SSH sp) = '''' \<or> SSH_Port (P_SSH sp) \<le> 0 then Some BadHostPort
                    else if length (TR_Chain (P_Transport sp)) = 0 then Some EmptyChain
                    else None)))"

text \<open>The state that \<open>run\<close> builds before it starts the server and the tunnel; what it does not set is
  the zero value \<open>z\<close>.\<close>

definition with_profile :: "profile option \<Rightarrow> runtime \<Rightarrow> runtime" where
  "with_profile sp r =
     (case sp of
        None \<Rightarrow> r
      | Some p \<Rightarrow> r\<lparr>R_profile := (R_profile r)\<lparr>S_SelectedProfile := P_Name p,
          S_SelectedMode := TR_Mode (P_Transport p), S_TransportChain := Join (TR_Chain (P_Transport p)) '' -> '',
          S_PayloadEnabled := PL_Enabled (TR_Payload (P_Transport p))\<rparr>\<rparr>)"

definition initial_state ::
  "runtime \<Rightarrow> instant \<Rightarrow> string \<times> string \<times> string \<Rightarrow> string \<times> string \<times> string \<Rightarrow> bool \<Rightarrow> config
     \<Rightarrow> route_info \<Rightarrow> profile option \<Rightarrow> runtime" where
  "initial_state z now = (\<lambda>(version, goos, goarch) (workDir, cfgPath, pfPath) idleMode cfg ri sp.
     with_profile sp (z\<lparr>
       R_status := (R_status z)\<lparr>S_StartedAt := Some now, S_Running := \<not> idleMode,
         S_State := (if idleMode then ''IDLE'' else ''STARTING'')\<rparr>,
       R_paths := (R_paths z)\<lparr>S_Version := version, S_GOOS := goos, S_GOARCH := goarch,
         S_WorkDir := workDir, S_ConfigPath := cfgPath, S_ProfilesPath := pfPath\<rparr>,
       R_net := (R_net z)\<lparr>S_NetworkOnline := RI_Online ri, S_Interface := RI_Iface ri,
         S_Gateway := RI_Gw ri, S_SourceIP := RI_Src ri, S_DNSMode := DNS_Mode (CDNS cfg),
         S_DNSServers := DNS_Servers (CDNS cfg)\<rparr>,
       R_proxy := (R_proxy z)\<lparr>S_HotspotEnabled := Hotspot_Enabled (CHotspot cfg),
         S_SocksEnabled := SocksEnabled (CLocalProxy cfg), S_SocksAddr := socksAddr cfg,
         S_TransparentEnabled := TP_Enabled (CTransparentProxy cfg),
         S_TransparentAddr := transparentAddr cfg\<rparr>\<rparr>))"

subsection \<open>Routes\<close>

record route_cache =
  RC_ri :: route_info
  RC_expires :: instant

fun find_iface :: "string \<Rightarrow> (string \<times> string list) list \<Rightarrow> string" where
  "find_iface src [] = ''''"
| "find_iface src ((name, addrs) # ifs) =
     (let iface = (if list_ex (\<lambda>a. HasPrefix a (src @ ''/'') \<or> HasPrefix a src) addrs then name else '''') in
      if iface \<noteq> '''' then iface else find_iface src ifs)"

text \<open>The clock when the cache is read and when it is written, the local address of the probe socket
  (\<open>None\<close> when the dial fails), and the interfaces with their addresses.\<close>

definition routeInfo ::
  "instant \<Rightarrow> instant \<Rightarrow> string option \<Rightarrow> (string \<times> string list) list \<Rightarrow> route_cache
     \<Rightarrow> route_info \<times> route_cache" where
  "routeInfo t1 t2 laddr ifs rc =
     (if t1 < RC_expires rc then (RC_ri rc, rc)
      else
        let ri = (case laddr of
            None \<Rightarrow> \<lparr>RI_Online = False, RI_Raw = '''', RI_Iface = '''', RI_Gw = '''', RI_Src = ''''\<rparr>
          | Some a \<Rightarrow>
              let src = (case SplitHostPort a of None \<Rightarrow> '''' | Some (h, _) \<Rightarrow> h) in
              \<lparr>RI_Online = True, RI_Raw = a, RI_Iface = (if src \<noteq> '''' then find_iface src ifs else ''''),
               RI_Gw = '''', RI_Src = src\<rparr>) in
        (ri, \<lparr>RC_ri = ri, RC_expires = t2 + 5 * second\<rparr>))"

subsection \<open>DNS forwarder\<close>

text \<open>
  One query. \<open>client k\<close> says whether the \<open>k\<close>-th look at the client pointer finds one, \<open>gone k\<close>
  whether the context is done in the \<open>k\<close>-th wait; \<open>ch\<close> is the channel to the resolver. The result
  is the answer sent to the client, and the channel.
\<close>

fun await_client :: "(nat \<Rightarrow> bool) \<Rightarrow> (nat \<Rightarrow> bool) \<Rightarrow> nat list \<Rightarrow> bool" where
  "await_client client gone [] = False"
| "await_client client gone (i # is) =
     (if gone i then False else if client (Suc i) then True else await_client client gone is)"

definition dns_frame :: "byte list \<Rightarrow> byte list" where
  "dns_frame query = put_be16 (of_nat (length query)) @ query"

definition dns_exchange :: "byte list \<Rightarrow> conn \<Rightarrow> (io_error option + byte list) \<times> conn" where
  "dns_exchange query c0 =
     (case write_all (dns_frame query) c0 of
        (Inl e, c) \<Rightarrow> (Inl (Some e), c)
      | (Inr _, c) \<Rightarrow>
          (case read_full 2 c of
             (Inl e, c1) \<Rightarrow> (Inl (Some e), c1)
           | (Inr hdr, c1) \<Rightarrow>
               let respLen = unat (get_be16 (hdr ! 0) (hdr ! 1)) in
               if respLen < 12 \<or> respLen > 65535 then (Inl None, c1)
               else (case read_full respLen c1 of
                       (Inl e, c2) \<Rightarrow> (Inl (Some e), c2)
                     | (Inr resp, c2) \<Rightarrow> (Inr resp, c2))))"

definition forwardOneDNSQuery ::
  "(nat \<Rightarrow> bool) \<Rightarrow> (nat \<Rightarrow> bool) \<Rightarrow> conn option \<Rightarrow> byte list \<Rightarrow> byte list option \<times> conn option" where
  "forwardOneDNSQuery client gone ch query =
     (if \<not> (client 0 \<or> await_client client gone [0..<4]) then (None, None)
      else (case ch of
              None \<Rightarrow> (None, None)
            | Some c0 \<Rightarrow>
                (case dns_exchange query c0 of
                   (r, c) \<Rightarrow> (case r of Inl _ \<Rightarrow> None | Inr resp \<Rightarrow> Some resp, Some (close_conn c)))))"

text \<open>The receive loop hands on every datagram of at least 12 bytes, cut to the buffer.\<close>

definition dns_datagram :: "byte list \<Rightarrow> byte list option" where
  "dns_datagram pkt = (let q = take 1500 pkt in if length q < 12 then None else Some q)"

datatype dns_event = DnsPacket "byte list" | DnsTimeout | DnsError | DnsCtxDone

fun serveDNSForward :: "dns_event list \<Rightarrow> byte list list \<times> bool option" where
  "serveDNSForward [] = ([], None)"
| "serveDNSForward (DnsPacket pkt # es) =
     (case serveDNSForward es of (qs, r) \<Rightarrow> (case dns_datagram pkt of None \<Rightarrow> qs | Some q \<Rightarrow> q # qs, r))"
| "serveDNSForward (DnsTimeout # es) = serveDNSForward es"
| "serveDNSForward (DnsError # es) = ([], Some False)"
| "serveDNSForward (DnsCtxDone # es) = ([], Some True)"

subsection \<open>Redirected connections\<close>

text \<open>The socket address of \<^verbatim>\<open>SO_ORIGINAL_DST\<close>: family, port as the little-endian machine reads it,
  address bytes.\<close>

definition swap_port :: "u16 \<Rightarrow> u16" where
  "swap_port p = push_bit 8 (p AND 0xFF) OR drop_bit 8 p"

definition originalDst :: "u16 \<Rightarrow> u16 \<Rightarrow> byte list \<Rightarrow> string option" where
  "originalDst family port addr =
     (if family \<noteq> 2 then None
      else Some (JoinHostPort (IP_String (IPv4 (addr ! 0) (addr ! 1) (addr ! 2) (addr ! 3)))
                   (Itoa (uint (swap_port port)))))"

definition isLocalTarget :: "string \<Rightarrow> config \<Rightarrow> bool" where
  "isLocalTarget target cfg =
     (case SplitHostPort target of
        None \<Rightarrow> True
      | Some (h, p) \<Rightarrow>
          (case ParseIP h of
             None \<Rightarrow> False
           | Some i \<Rightarrow>
               let port = (case Atoi p of None \<Rightarrow> 0 | Some n \<Rightarrow> n) in
               list_ex (\<lambda>q. q > 0 \<and> port = q)
                 [API_Port (CAPI cfg), SocksPort (CLocalProxy cfg), TP_TCPPort (CTransparentProxy cfg)] \<or>
               IsLoopback i \<or> IsUnspecified i \<or> IsMulticast i))"

definition maxTransparentConns :: nat where "maxTransparentConns = 2048"

datatype 'c transparent_result =
    LimitReached
  | NoTarget
  | LocalTarget string
  | NotConnected
  | StreamFailed string bool
  | ClientGone 'c
  | Piped string 'c int duration

definition transparent_buffer :: "config \<Rightarrow> int" where
  "transparent_buffer cfg =
     (let n = SecondsDefault (BufferSize (CPerformance cfg)) (128 * 1024) in
      if n < 32 * 1024 then 128 * 1024 else n)"

definition transparent_idle :: "config \<Rightarrow> duration" where
  "transparent_idle cfg = wrap64 (SecondsDefault (StreamIdleTimeoutSec (CPerformance cfg)) 120 * second)"

text \<open>
  The handler, with the slots in use when it starts, the original destination (\<open>None\<close> when it is not a
  TCP connection or the lookup fails), the two looks at the client pointer, and the dials of the
  stream. The flag of a failed stream says whether it counts as a transport error.
\<close>

definition handleTransparentConn ::
  "nat \<Rightarrow> string option \<Rightarrow> config \<Rightarrow> bool \<Rightarrow> (nat \<Rightarrow> string + 'c) \<Rightarrow> bool \<Rightarrow> 'c transparent_result" where
  "handleTransparentConn slots dst cfg client1 attempts client2 =
     (if slots \<ge> maxTransparentConns then LimitReached
      else (case dst of
              None \<Rightarrow> NoTarget
            | Some target \<Rightarrow>
                if isLocalTarget target cfg then LocalTarget target
                else if \<not> client1 then NotConnected
                else (case DialStreamWithRetry attempts of
                        (Inl err, _) \<Rightarrow> StreamFailed target (IsTransportError (Some err))
                      | (Inr remote, _) \<Rightarrow>
                          if \<not> client2 then ClientGone remote
                          else Piped target remote (transparent_buffer cfg) (transparent_idle cfg))))"

section \<open>Lemmas\<close>

lemma initial_not_connected:
  "S_Connected (R_status z) = False \<Longrightarrow>
   \<not> S_Connected (R_status (initial_state z now v p idle cfg ri sp)) \<and>
   S_State (R_status (initial_state z now v p idle cfg ri sp)) \<noteq> ''CONNECTED''"
  by (cases v; cases p) (auto simp: initial_state_def with_profile_def split: option.split)

text \<open>Within five seconds a lookup is answered from the cache, and it agrees with the last probe.\<close>

lemma routeInfo_cached:
  assumes "routeInfo t1 t2 laddr ifs rc = (ri, rc')" "t1 \<ge> RC_expires rc" "t3 < t2 + 5 * second"
  shows "routeInfo t3 t4 laddr' ifs' rc' = (ri, rc')"
  using assms by (auto simp: routeInfo_def Let_def)

text \<open>The interface is found by a prefix of the text: an address that continues the source address
  matches as well.\<close>

lemma find_iface_prefix:
  "find_iface ''10.0.0.1'' [(''wlan0'', [''10.0.0.12/24'']), (''rmnet0'', [''10.0.0.1/30''])] = ''wlan0''"
  by code_simp

subsection \<open>DNS\<close>

lemma dns_exchange_iff:
  "fst (dns_exchange query c) = Inr resp \<longleftrightarrow>
     0 < writes_left c \<and> 12 \<le> length resp \<and> length resp \<le> 65535 \<and>
     (\<exists>rest. inp c = put_be16 (of_nat (length resp)) @ resp @ rest)"
  (is "?l \<longleftrightarrow> ?r")
proof
  assume ?l
  then have w: "0 < writes_left c" by (cases "writes_left c") (auto simp: dns_exchange_def write_all_def)
  define c1 where "c1 = c\<lparr>outp := outp c @ dns_frame query, writes_left := writes_left c - 1\<rparr>"
  have 1: "write_all (dns_frame query) c = (Inr (), c1)" using w by (simp add: write_all_ok c1_def)
  show ?r
  proof (cases "inp c")
    case Nil
    then show ?thesis using \<open>?l\<close> by (simp add: dns_exchange_def 1 read_full_def c1_def)
  next
    case (Cons a as)
    show ?thesis
    proof (cases as)
      case Nil
      then show ?thesis using \<open>?l\<close> Cons by (simp add: dns_exchange_def 1 read_full_def c1_def)
    next
      case (Cons b rest)
      let ?n = "unat (get_be16 a b)"
      have i: "inp c = a # b # rest" using Cons \<open>inp c = a # as\<close> by simp
      have "12 \<le> ?n" "?n \<le> 65535" "?n \<le> length rest" "resp = take ?n rest"
        using \<open>?l\<close> i by (auto simp: dns_exchange_def 1 read_full_def c1_def Let_def split: if_splits)
      moreover from this have "put_be16 (of_nat (length resp)) = [a, b]" by simp
      ultimately show ?thesis using w i by (intro conjI exI [of _ "drop ?n rest"]) simp_all
    qed
  qed
next
  assume r: ?r
  then obtain rest where rest: "inp c = put_be16 (of_nat (length resp)) @ resp @ rest" by blast
  have "unat (of_nat (length resp) :: u16) = length resp" using r by (simp add: unat_of_nat)
  then show ?l using r rest
    by (simp add: dns_exchange_def write_all_ok read_full_def put_be16_def Let_def)
qed

lemma dns_exchange_sent:
  "0 < writes_left c \<Longrightarrow> outp (snd (dns_exchange query c)) = outp c @ dns_frame query"
  by (auto simp: dns_exchange_def write_all_ok Let_def read_full_def split: if_splits)

lemma await_client_undisturbed:
  "\<forall>i. \<not> gone i \<Longrightarrow> await_client client gone [0..<4] \<longleftrightarrow> client 1 \<or> client 2 \<or> client 3 \<or> client 4"
  by (simp add: upt_rec numeral_eq_Suc)

lemma forward_reply:
  "fst (forwardOneDNSQuery client gone ch query) = Some resp \<longleftrightarrow>
     (client 0 \<or> await_client client gone [0..<4]) \<and>
     (\<exists>c. ch = Some c \<and> fst (dns_exchange query c) = Inr resp)"
  by (auto simp: forwardOneDNSQuery_def split: option.splits prod.splits sum.splits)

subsection \<open>Targets\<close>

text \<open>The port bytes in memory, in network order, as the little-endian machine reads them.\<close>

lemma swap_port_bytes: "swap_port (get_be16 lo hi) = get_be16 hi lo"
proof -
  have "(0xFF :: u16) = mask 8" by (simp add: mask_eq_exp_minus_1)
  then have "swap_port (get_be16 lo hi) = push_bit 8 (take_bit 8 (get_be16 lo hi)) OR drop_bit 8 (get_be16 lo hi)"
    by (simp add: swap_port_def take_bit_eq_mask)
  also have "\<dots> = get_be16 hi lo"
    unfolding get_be16_def by (rule bit_word_eqI) (auto simp: bit_simps dest: bit_imp_le_length)
  finally show ?thesis .
qed

lemma uint_port: "- (2 ^ 63) \<le> uint (w :: u16)" "uint (w :: u16) < 2 ^ 63"
proof -
  have "- (2 ^ 63) \<le> (0 :: int)" by simp
  then show "- (2 ^ 63) \<le> uint w" using uint_ge_0 [of w] by (rule order_trans)
  show "uint w < 2 ^ 63" using uint_bounded [of w] by simp
qed

lemma isLocalTarget_v4:
  "isLocalTarget (JoinHostPort (IP_String (IPv4 a b c d)) (Itoa (uint (w :: u16)))) cfg \<longleftrightarrow>
     a = 127 \<or> a AND 0xF0 = 0xE0 \<or> [a, b, c, d] = [0, 0, 0, 0] \<or>
     (0 < uint w \<and> uint w \<in> {API_Port (CAPI cfg), SocksPort (CLocalProxy cfg), TP_TCPPort (CTransparentProxy cfg)})"
proof -
  have split: "SplitHostPort (JoinHostPort (dotted [a, b, c, d]) (Itoa (uint w))) = Some (dotted [a, b, c, d], Itoa (uint w))"
    by (rule SplitHostPort_Itoa) (rule dotted_not_mem; simp add: is_digit_def)+
  have at: "Atoi (Itoa (uint w)) = Some (uint w)" by (intro Atoi_Itoa uint_port)
  have "IsUnspecified (IPv4 a b c d) \<longleftrightarrow> [a, b, c, d] = [0, 0, 0, 0]"
    by (auto simp: IsUnspecified_def IP_Equal_def IPv4_def v4InV6Prefix_def numeral_eq_Suc)
  then show ?thesis
    by (auto simp: isLocalTarget_def split ParseIP_dotted at Let_def IsLoopback_def IsMulticast_def)
qed

section \<open>Properties\<close>

text \<open>C38. The DNS forwarder speaks DNS over TCP: it answers with \<open>resp\<close> exactly when a client turned up in
  time, the query could be written, and the resolver's stream starts with a two-byte length followed
  by \<open>resp\<close> of that length, at least 12 bytes; it never answers with anything else. What it writes is
  the length-prefixed query, and it closes the channel whatever happens.\<close>

theorem forwardOneDNSQuery_correct:
  "(fst (forwardOneDNSQuery client gone (Some c) query) = Some resp \<longleftrightarrow>
      (client 0 \<or> await_client client gone [0..<4]) \<and> 0 < writes_left c \<and>
      12 \<le> length resp \<and> length resp \<le> 65535 \<and>
      (\<exists>rest. inp c = put_be16 (of_nat (length resp)) @ resp @ rest)) \<and>
   (\<forall>c'. snd (forwardOneDNSQuery client gone (Some c) query) = Some c' \<longrightarrow>
      closed c' \<and> (0 < writes_left c \<longrightarrow> outp c' = outp c @ put_be16 (of_nat (length query)) @ query))"
proof (intro conjI allI impI)
  show "fst (forwardOneDNSQuery client gone (Some c) query) = Some resp \<longleftrightarrow>
      (client 0 \<or> await_client client gone [0..<4]) \<and> 0 < writes_left c \<and>
      12 \<le> length resp \<and> length resp \<le> 65535 \<and>
      (\<exists>rest. inp c = put_be16 (of_nat (length resp)) @ resp @ rest)"
    by (simp add: forward_reply dns_exchange_iff)
next
  fix c' assume "snd (forwardOneDNSQuery client gone (Some c) query) = Some c'"
  then have c': "c' = close_conn (snd (dns_exchange query c))"
    by (auto simp: forwardOneDNSQuery_def split: prod.splits if_splits)
  show "closed c'" by (simp add: c' close_conn_def)
  show "outp c' = outp c @ put_be16 (of_nat (length query)) @ query" if "0 < writes_left c"
    using dns_exchange_sent [OF that, of query] by (simp add: c' close_conn_def dns_frame_def)
qed

definition demo_answer :: "byte list" where
  "demo_answer = [0xAB, 0xCD, 0x81, 0x80, 0, 1, 0, 1, 0, 0, 0, 0, 7]"

definition demo_channel :: conn where
  "demo_channel = \<lparr>inp = [0, 13] @ demo_answer @ [9, 9], outp = [], writes_left = 1, closed = False\<rparr>"

theorem forwardOneDNSQuery_correct_witness:
  "fst (forwardOneDNSQuery (\<lambda>k. k = 2) (\<lambda>_. False) (Some demo_channel) (replicate 12 1)) = Some demo_answer \<and>
   map_option outp (snd (forwardOneDNSQuery (\<lambda>k. k = 2) (\<lambda>_. False) (Some demo_channel) (replicate 12 1))) =
     Some ([0, 12] @ replicate 12 1)"
proof -
  let ?f = "forwardOneDNSQuery (\<lambda>k. k = 2) (\<lambda>_. False) (Some demo_channel) (replicate 12 1)"
  note p = forwardOneDNSQuery_correct [of "\<lambda>k. k = 2" "\<lambda>_. False" demo_channel "replicate 12 1" demo_answer]
  have "put_be16 13 = [0, 13]" "put_be16 12 = [0, 12]" by code_simp+
  moreover have a: "await_client (\<lambda>k. k = 2) (\<lambda>_. False) [0..<4]" by (simp add: await_client_undisturbed)
  moreover have "length demo_answer = 13" by (simp add: demo_answer_def)
  ultimately have "fst ?f = Some demo_answer" using p by (simp add: demo_channel_def)
  moreover obtain c' where c': "snd ?f = Some c'"
    using a by (cases "dns_exchange (replicate 12 1) demo_channel") (auto simp: forwardOneDNSQuery_def)
  moreover have "outp c' = [0, 12] @ replicate 12 1"
    using p c' \<open>put_be16 12 = [0, 12]\<close> by (simp add: demo_channel_def del: replicate.simps)
  ultimately show ?thesis by simp
qed

text \<open>C39. A redirected connection is relayed to the address it was made for, decoded from the socket
  address byte by byte, unless the limit of 2048 connections is reached or that address is one of the
  daemon's own ports or a loopback, multicast or unspecified address: such a connection is dropped, so
  that the proxy never connects to itself. The relay's buffer is at least 32 KiB.\<close>

theorem handleTransparentConn_target:
  "handleTransparentConn slots (originalDst 2 (get_be16 lo hi) [a, b, c, d]) cfg True (\<lambda>_. Inr ch) True =
     (let p = uint (get_be16 hi lo); t = dotted [a, b, c, d] @ '':'' @ Itoa p in
      if maxTransparentConns \<le> slots then LimitReached
      else if a = 127 \<or> a AND 0xF0 = 0xE0 \<or> [a, b, c, d] = [0, 0, 0, 0] \<or>
              0 < p \<and> p \<in> {API_Port (CAPI cfg), SocksPort (CLocalProxy cfg), TP_TCPPort (CTransparentProxy cfg)}
      then LocalTarget t
      else Piped t ch (transparent_buffer cfg) (transparent_idle cfg)) \<and>
   32 * 1024 \<le> transparent_buffer cfg"
proof -
  have "CHR '':'' \<notin> set (dotted [a, b, c, d])" by (rule dotted_not_mem) (simp_all add: is_digit_def)
  then have t: "JoinHostPort (dotted [a, b, c, d]) (Itoa p) = dotted [a, b, c, d] @ '':'' @ Itoa p" for p
    by (simp add: JoinHostPort_def)
  have "DialStreamWithRetry (\<lambda>_. Inr ch) = (Inr ch, [])" by (simp add: DialStreamWithRetry_def)
  then show ?thesis
    using isLocalTarget_v4 [of a b c d "get_be16 hi lo" cfg]
    by (auto simp: handleTransparentConn_def originalDst_def swap_port_bytes t Let_def transparent_buffer_def)
qed

end
