(* ===== verification/Listeners.thy ===== *)
theory Listeners
  imports Daemon Socks5
begin

text \<open>
  The accept loops: \<open>Serve\<close> of \<^verbatim>\<open>internal/socks5/socks5.go\<close> and \<open>serveTransparentTCP\<close> of
  \<^verbatim>\<open>cmd/sshcustomd/transparent.go\<close>, with the handlers that they start and the slots that bound the
  redirected connections. The handlers' own behaviour is that of theories Socks5 and Daemon; here
  they run side by side, one event at a time.
\<close>

section \<open>Definitions\<close>

subsection \<open>An accept loop\<close>

text \<open>
  The loop accepts until \<^verbatim>\<open>Accept\<close> fails; a goroutine of its own closes the listener when the context
  ends. \<open>A_result\<close> is what the loop returned, \<open>True\<close> for \<^verbatim>\<open>nil\<close>.
\<close>

record 'h accept_loop =
  A_open :: bool
  A_cancelled :: bool
  A_result :: "bool option"
  A_handlers :: "'h list"

datatype 'h accept_event = CtxEnds | ListenerClosed | Accepted 'h | AcceptError

definition accept_start :: "'h accept_loop" where
  "accept_start = \<lparr>A_open = True, A_cancelled = False, A_result = None, A_handlers = []\<rparr>"

fun accept_step :: "(bool \<Rightarrow> bool) \<Rightarrow> 'h accept_event \<Rightarrow> 'h accept_loop \<Rightarrow> 'h accept_loop option" where
  "accept_step nil_on CtxEnds l = Some (l\<lparr>A_cancelled := True\<rparr>)"
| "accept_step nil_on ListenerClosed l = (if A_cancelled l then Some (l\<lparr>A_open := False\<rparr>) else None)"
| "accept_step nil_on (Accepted h) l =
     (if A_result l = None \<and> A_open l then Some (l\<lparr>A_handlers := A_handlers l @ [h]\<rparr>) else None)"
| "accept_step nil_on AcceptError l =
     (if A_result l = None then Some (l\<lparr>A_result := Some (nil_on (A_cancelled l))\<rparr>) else None)"

text \<open>\<open>h\<close> is handler \<open>i\<close>; the result is the loop with handler \<open>i\<close> replaced.\<close>

definition handler :: "nat \<Rightarrow> 'h accept_loop \<Rightarrow> 'h option" where
  "handler i l = (if i < length (A_handlers l) then Some (A_handlers l ! i) else None)"

definition set_handler :: "nat \<Rightarrow> 'h \<Rightarrow> 'h accept_loop \<Rightarrow> 'h accept_loop" where
  "set_handler i h l = l\<lparr>A_handlers := (A_handlers l)[i := h]\<rparr>"

subsection \<open>The SOCKS5 server\<close>

datatype socks_handler = Handshaking conn | SocksRelay string conn conn | SocksOver handle_outcome

datatype socks_event =
    SocksLoop "socks_handler accept_event"
  | SocksHandle nat "string \<Rightarrow> conn option"
  | SocksPipeOver nat "byte list" "byte list"

text \<open>\<open>Serve\<close> after a successful \<^verbatim>\<open>Listen\<close>: an error is \<^verbatim>\<open>nil\<close> when the context has ended.\<close>

fun socks_serve :: "socks_event \<Rightarrow> socks_handler accept_loop \<Rightarrow> socks_handler accept_loop option" where
  "socks_serve (SocksLoop e) l =
     (case e of
        Accepted h \<Rightarrow> (case h of Handshaking c \<Rightarrow> accept_step (\<lambda>done. done) e l | _ \<Rightarrow> None)
      | _ \<Rightarrow> accept_step (\<lambda>done. done) e l)"
| "socks_serve (SocksHandle i dialer) l =
     (case handler i l of
        Some (Handshaking c) \<Rightarrow>
          Some (set_handler i
            (case handle_conn dialer c of
               Relaying target c' remote \<Rightarrow> SocksRelay target c' remote
             | outcome \<Rightarrow> SocksOver outcome) l)
      | _ \<Rightarrow> None)"
| "socks_serve (SocksPipeOver i up down) l =
     (case handler i l of
        Some (SocksRelay target c remote) \<Rightarrow>
          Some (set_handler i
            (SocksOver (Relaying target (close_conn (c\<lparr>outp := outp c @ down\<rparr>))
              (close_conn (remote\<lparr>outp := outp remote @ up\<rparr>)))) l)
      | _ \<Rightarrow> None)"

fun socks_run :: "socks_event list \<Rightarrow> socks_handler accept_loop \<Rightarrow> socks_handler accept_loop option" where
  "socks_run [] l = Some l"
| "socks_run (e # es) l = (case socks_serve e l of None \<Rightarrow> None | Some l' \<Rightarrow> socks_run es l')"

subsection \<open>The redirected connections\<close>

text \<open>
  A handler has not tried for a slot yet, holds one (with the number of slots in use when it took it),
  relays with its slot, or has ended. \<open>T_sem\<close> are the slots in use, by these handlers and by
  \<open>T_others\<close>, the handlers of earlier listeners: the semaphore is a variable of the package.
\<close>

datatype 'c tproxy_handler =
  Fresh | Slotted nat | Relayed "'c transparent_result" | Over "'c transparent_result"

record 'c tproxy =
  T_loop :: "'c tproxy_handler accept_loop"
  T_running :: bool
  T_sem :: nat
  T_others :: nat

datatype 'c tproxy_event =
    TProxyLoop "'c tproxy_handler accept_event"
  | TakeSlot nat
  | HandleConn nat "string option" bool "nat \<Rightarrow> string + 'c" bool
  | PipeOver nat
  | OtherEnds

text \<open>\<open>serveTransparentTCP\<close> up to its loop: the error of \<^verbatim>\<open>Listen\<close>, or the running loop.\<close>

definition tproxy_start :: "bool \<Rightarrow> nat \<Rightarrow> 'c tproxy" where
  "tproxy_start listens used =
     \<lparr>T_loop = (if listens then accept_start else accept_start\<lparr>A_open := False, A_result := Some False\<rparr>),
      T_running = listens, T_sem = used, T_others = used\<rparr>"

fun serveTransparentTCP :: "config \<Rightarrow> 'c tproxy_event \<Rightarrow> 'c tproxy \<Rightarrow> 'c tproxy option" where
  "serveTransparentTCP cfg (TProxyLoop e) t =
     (case e of
        Accepted h \<Rightarrow>
          (if h = Fresh then map_option (\<lambda>l. t\<lparr>T_loop := l\<rparr>) (accept_step (\<lambda>_. True) e (T_loop t)) else None)
      | AcceptError \<Rightarrow> map_option (\<lambda>l. t\<lparr>T_loop := l, T_running := False\<rparr>) (accept_step (\<lambda>_. True) e (T_loop t))
      | _ \<Rightarrow> map_option (\<lambda>l. t\<lparr>T_loop := l\<rparr>) (accept_step (\<lambda>_. True) e (T_loop t)))"
| "serveTransparentTCP cfg (TakeSlot i) t =
     (case handler i (T_loop t) of
        Some Fresh \<Rightarrow>
          (if T_sem t \<ge> maxTransparentConns
           then Some (t\<lparr>T_loop := set_handler i (Over LimitReached) (T_loop t)\<rparr>)
           else Some (t\<lparr>T_loop := set_handler i (Slotted (T_sem t)) (T_loop t), T_sem := Suc (T_sem t)\<rparr>))
      | _ \<Rightarrow> None)"
| "serveTransparentTCP cfg (HandleConn i orig client1 attempts client2) t =
     (case handler i (T_loop t) of
        Some (Slotted n) \<Rightarrow>
          (let r = handleTransparentConn n orig cfg client1 attempts client2 in
           case r of
             Piped target remote buf idle \<Rightarrow> Some (t\<lparr>T_loop := set_handler i (Relayed r) (T_loop t)\<rparr>)
           | _ \<Rightarrow> Some (t\<lparr>T_loop := set_handler i (Over r) (T_loop t), T_sem := T_sem t - 1\<rparr>))
      | _ \<Rightarrow> None)"
| "serveTransparentTCP cfg (PipeOver i) t =
     (case handler i (T_loop t) of
        Some (Relayed r) \<Rightarrow> Some (t\<lparr>T_loop := set_handler i (Over r) (T_loop t), T_sem := T_sem t - 1\<rparr>)
      | _ \<Rightarrow> None)"
| "serveTransparentTCP cfg OtherEnds t =
     (if T_others t = 0 then None else Some (t\<lparr>T_others := T_others t - 1, T_sem := T_sem t - 1\<rparr>))"

fun tproxy_run :: "config \<Rightarrow> 'c tproxy_event list \<Rightarrow> 'c tproxy \<Rightarrow> 'c tproxy option" where
  "tproxy_run cfg [] t = Some t"
| "tproxy_run cfg (e # es) t = (case serveTransparentTCP cfg e t of None \<Rightarrow> None | Some t' \<Rightarrow> tproxy_run cfg es t')"

subsection \<open>The invariant of the slots\<close>

definition holds_slot :: "'c tproxy_handler \<Rightarrow> bool" where
  "holds_slot h \<longleftrightarrow> (case h of Slotted n \<Rightarrow> True | Relayed r \<Rightarrow> True | _ \<Rightarrow> False)"

definition handler_ok :: "config \<Rightarrow> 'c tproxy_handler \<Rightarrow> bool" where
  "handler_ok cfg h \<longleftrightarrow>
     (case h of
        Slotted n \<Rightarrow> n < maxTransparentConns
      | Relayed r \<Rightarrow>
          (\<exists>target remote buf idle. r = Piped target remote buf idle \<and> \<not> isLocalTarget target cfg \<and> 32 * 1024 \<le> buf)
      | _ \<Rightarrow> True)"

definition slots_held :: "'c tproxy \<Rightarrow> nat" where
  "slots_held t = length (filter holds_slot (A_handlers (T_loop t)))"

definition tproxy_ok :: "config \<Rightarrow> 'c tproxy \<Rightarrow> bool" where
  "tproxy_ok cfg t \<longleftrightarrow>
     T_sem t = T_others t + slots_held t \<and> T_sem t \<le> maxTransparentConns \<and>
     (T_running t \<longleftrightarrow> A_result (T_loop t) = None) \<and> list_all (handler_ok cfg) (A_handlers (T_loop t))"

section \<open>Lemmas\<close>

lemma handler_Some: "handler i l = Some h \<longleftrightarrow> i < length (A_handlers l) \<and> A_handlers l ! i = h"
  by (auto simp: handler_def)

lemma set_handler_simps [simp]:
  "A_open (set_handler i h l) = A_open l" "A_cancelled (set_handler i h l) = A_cancelled l"
  "A_result (set_handler i h l) = A_result l" "A_handlers (set_handler i h l) = (A_handlers l)[i := h]"
  by (simp_all add: set_handler_def)

lemma holds_simps [simp]:
  "\<not> holds_slot Fresh" "holds_slot (Slotted n)" "holds_slot (Relayed r)" "\<not> holds_slot (Over r)"
  by (simp_all add: holds_slot_def)

lemma handler_ok_simps [simp]:
  "handler_ok cfg Fresh" "handler_ok cfg (Slotted n) \<longleftrightarrow> n < maxTransparentConns" "handler_ok cfg (Over r)"
  by (simp_all add: handler_ok_def)

lemma length_filter_update:
  "i < length xs \<Longrightarrow> length (filter P (xs[i := y])) + of_bool (P (xs ! i)) = length (filter P xs) + of_bool (P y)"
proof (induction xs arbitrary: i)
  case (Cons x xs)
  then show ?case using Cons.IH [of "i - 1"] by (cases i) auto
qed simp

lemma slots_set:
  "handler i (T_loop t) = Some h \<Longrightarrow>
   slots_held (t\<lparr>T_loop := set_handler i h' (T_loop t)\<rparr>) + of_bool (holds_slot h) = slots_held t + of_bool (holds_slot h')"
  using length_filter_update [of i "A_handlers (T_loop t)" holds_slot h'] by (auto simp: slots_held_def handler_Some)

lemma slots_update [simp]:
  "slots_held (t\<lparr>T_loop := l, T_sem := n\<rparr>) = slots_held (t\<lparr>T_loop := l\<rparr>)"
  "slots_held (t\<lparr>T_loop := l, T_running := b\<rparr>) = slots_held (t\<lparr>T_loop := l\<rparr>)"
  "slots_held (t\<lparr>T_others := n, T_sem := m\<rparr>) = slots_held t"
  by (simp_all add: slots_held_def)

lemma accept_step_handlers:
  "accept_step f e l = Some l' \<Longrightarrow> A_handlers l' = A_handlers l @ (case e of Accepted h \<Rightarrow> [h] | _ \<Rightarrow> [])"
  by (cases e) (auto split: if_splits)

lemma accept_step_result:
  "accept_step f e l = Some l' \<Longrightarrow> A_result l' = (if e = AcceptError then Some (f (A_cancelled l)) else A_result l)"
  by (cases e) (auto split: if_splits)

text \<open>A handler that relays has passed the checks.\<close>

lemma piped_ok:
  "handleTransparentConn n orig cfg client1 attempts client2 = Piped target remote buf idle \<Longrightarrow>
   \<not> isLocalTarget target cfg \<and> 32 * 1024 \<le> buf"
  by (auto simp: handleTransparentConn_def transparent_buffer_def Let_def
      split: if_splits option.splits prod.splits sum.splits)

lemma handlers_ok_set:
  "list_all (handler_ok cfg) hs \<Longrightarrow> handler_ok cfg h \<Longrightarrow> list_all (handler_ok cfg) (hs[i := h])"
  by (cases "i < length hs") (auto simp: list_all_length nth_list_update list_update_beyond)

lemma tproxy_ok_step:
  assumes ok: "tproxy_ok cfg t" and st: "serveTransparentTCP cfg e t = Some t'"
  shows "tproxy_ok cfg t'"
proof (cases e)
  case (TProxyLoop a)
  obtain l where l: "accept_step (\<lambda>_. True) a (T_loop t) = Some l"
    "t' = t\<lparr>T_loop := l\<rparr> \<and> a \<noteq> AcceptError \<or> t' = t\<lparr>T_loop := l, T_running := False\<rparr> \<and> a = AcceptError"
    using st TProxyLoop by (cases a) (auto split: if_splits)
  have "case a of Accepted h \<Rightarrow> h = Fresh | _ \<Rightarrow> True"
    using st TProxyLoop by (cases a) (auto split: if_splits)
  then show ?thesis
    using ok l accept_step_handlers [OF l(1)] accept_step_result [OF l(1)]
    by (cases a) (auto simp: tproxy_ok_def slots_held_def)
next
  case (TakeSlot i)
  then have h: "handler i (T_loop t) = Some Fresh" using st by (auto split: option.splits tproxy_handler.splits)
  then show ?thesis
    using st ok TakeSlot slots_set [OF h, of "Over LimitReached"] slots_set [OF h, of "Slotted (T_sem t)"]
    by (auto simp: tproxy_ok_def handlers_ok_set split: if_splits)
next
  case (HandleConn i orig client1 attempts client2)
  then obtain n where h: "handler i (T_loop t) = Some (Slotted n)"
    using st by (auto split: option.splits tproxy_handler.splits)
  define r where "r = handleTransparentConn n orig cfg client1 attempts client2"
  have "handler_ok cfg (Relayed r)" if "r = Piped target remote buf idle" for target remote buf idle
    using piped_ok [of n orig cfg client1 attempts client2 target remote buf idle] that by (simp add: handler_ok_def r_def)
  then show ?thesis
    using st ok HandleConn h slots_set [OF h, of "Over r"] slots_set [OF h, of "Relayed r"]
    by (cases r) (auto simp: tproxy_ok_def handlers_ok_set simp flip: r_def)
next
  case (PipeOver i)
  then obtain r where h: "handler i (T_loop t) = Some (Relayed r)" "t' =
      t\<lparr>T_loop := set_handler i (Over r) (T_loop t), T_sem := T_sem t - 1\<rparr>"
    using st by (auto split: option.splits tproxy_handler.splits)
  then show ?thesis
    using ok slots_set [OF h(1), of "Over r"] by (auto simp: tproxy_ok_def handlers_ok_set)
next
  case OtherEnds
  then show ?thesis using st ok by (auto simp: tproxy_ok_def split: if_splits)
qed

lemma tproxy_ok_run: "tproxy_run cfg es t = Some t' \<Longrightarrow> tproxy_ok cfg t \<Longrightarrow> tproxy_ok cfg t'"
  by (induction es arbitrary: t) (auto split: option.splits dest: tproxy_ok_step)

lemma tproxy_ok_start: "used \<le> maxTransparentConns \<Longrightarrow> tproxy_ok cfg (tproxy_start listens used)"
  by (simp add: tproxy_ok_def tproxy_start_def slots_held_def accept_start_def)

subsection \<open>The SOCKS5 server\<close>

text \<open>The connections of an ended handler are closed.\<close>

definition outcome_closed :: "handle_outcome \<Rightarrow> bool" where
  "outcome_closed r \<longleftrightarrow>
     (case r of Rejected e c \<Rightarrow> closed c | Unreachable t c \<Rightarrow> closed c | Relaying t c remote \<Rightarrow> closed c \<and> closed remote)"

definition socks_ok :: "socks_handler accept_loop \<Rightarrow> bool" where
  "socks_ok l \<longleftrightarrow>
     (A_result l = Some True \<longrightarrow> A_cancelled l) \<and> (\<not> A_open l \<longrightarrow> A_cancelled l) \<and>
     (\<forall>r. SocksOver r \<in> set (A_handlers l) \<longrightarrow> outcome_closed r)"

lemma handle_conn_closed:
  "handle_conn dialer c = r \<Longrightarrow> (\<forall>t c' remote. r \<noteq> Relaying t c' remote) \<Longrightarrow> outcome_closed r"
  by (auto simp: handle_conn_def outcome_closed_def close_conn_def split: prod.splits sum.splits option.splits)

lemma socks_ok_step:
  assumes ok: "socks_ok l" and st: "socks_serve e l = Some l'"
  shows "socks_ok l'"
proof (cases e)
  case (SocksLoop a)
  then show ?thesis using ok st
    by (cases a) (auto simp: socks_ok_def split: if_splits socks_handler.splits)
next
  case (SocksHandle i dialer)
  then obtain c where c: "handler i l = Some (Handshaking c)"
    using st by (auto split: option.splits socks_handler.splits)
  show ?thesis
    using ok st SocksHandle c handle_conn_closed [of dialer c]
    by (cases "handle_conn dialer c") (auto simp: socks_ok_def dest!: set_update_subset_insert [THEN subsetD])
next
  case (SocksPipeOver i up down)
  then show ?thesis using ok st
    by (auto simp: socks_ok_def outcome_closed_def close_conn_def split: option.splits socks_handler.splits
        dest!: set_update_subset_insert [THEN subsetD])
qed

text \<open>A served SOCKS5 listener reports an error only for a failed accept, and leaves no connection open.\<close>

lemma socks_run_ok: "socks_run es l = Some l' \<Longrightarrow> socks_ok l \<Longrightarrow> socks_ok l'"
  by (induction es arbitrary: l) (auto split: option.splits dest: socks_ok_step)

lemma socks_ok_start: "socks_ok accept_start"
  by (simp add: socks_ok_def accept_start_def)

text \<open>Where a handler comes from, in a run with the events \<open>E\<close>: an accepted connection, and for a relay
  also a call of the dialer.\<close>

definition traced :: "socks_event set \<Rightarrow> socks_handler \<Rightarrow> bool" where
  "traced E h \<longleftrightarrow>
     (case h of
        Handshaking c \<Rightarrow> SocksLoop (Accepted (Handshaking c)) \<in> E
      | SocksRelay target c remote \<Rightarrow>
          (\<exists>c0 i dialer. SocksLoop (Accepted (Handshaking c0)) \<in> E \<and> SocksHandle i dialer \<in> E \<and>
             handle_conn dialer c0 = Relaying target c remote)
      | SocksOver r \<Rightarrow> True)"

lemma traced_simps [simp]:
  "traced E (Handshaking c) \<longleftrightarrow> SocksLoop (Accepted (Handshaking c)) \<in> E" "traced E (SocksOver r)"
  by (simp_all add: traced_def)

lemma traced_set:
  "\<forall>h \<in> set hs. traced E h \<Longrightarrow> traced E x \<Longrightarrow> \<forall>h \<in> set (hs[i := x]). traced E h"
  using set_update_subset_insert [of hs i x] by blast

lemma traced_step:
  assumes tr: "\<forall>h \<in> set (A_handlers l). traced E h" and e: "e \<in> E" and st: "socks_serve e l = Some l'"
  shows "\<forall>h \<in> set (A_handlers l'). traced E h"
proof (cases e)
  case (SocksLoop a)
  then have s: "accept_step (\<lambda>done. done) a l = Some l'" and f: "\<And>b. a = Accepted b \<Longrightarrow> \<exists>c. b = Handshaking c"
    using st by (auto simp del: accept_step.simps split: accept_event.splits socks_handler.splits)
  show ?thesis
  proof (cases a)
    case (Accepted b)
    then obtain c where "b = Handshaking c" using f by blast
    then show ?thesis using accept_step_handlers [OF s] tr e SocksLoop Accepted by simp
  qed (use accept_step_handlers [OF s] tr in simp_all)
next
  case (SocksHandle i dialer)
  then obtain c where c: "i < length (A_handlers l)" "A_handlers l ! i = Handshaking c"
    using st by (auto simp: handler_Some split: option.splits socks_handler.splits)
  then have "traced E (Handshaking c)" using tr by (metis nth_mem)
  then have acc: "SocksLoop (Accepted (Handshaking c)) \<in> E" by simp
  define x where "x = (case handle_conn dialer c of
      Relaying target c' remote \<Rightarrow> SocksRelay target c' remote | r \<Rightarrow> SocksOver r)"
  have "traced E x"
  proof (cases "handle_conn dialer c")
    case (Relaying target c' remote)
    then show ?thesis using acc e SocksHandle unfolding traced_def x_def by auto
  qed (simp_all add: x_def)
  moreover have "A_handlers l' = (A_handlers l)[i := x]" using st SocksHandle c by (auto simp: handler_def x_def)
  ultimately show ?thesis using traced_set [OF tr] by simp
next
  case (SocksPipeOver i up down)
  then obtain r where "A_handlers l' = (A_handlers l)[i := SocksOver r]"
    using st by (auto split: option.splits socks_handler.splits)
  then show ?thesis using tr traced_set [of "A_handlers l" E "SocksOver r"] by simp
qed

lemma traced_run:
  "socks_run es l = Some l' \<Longrightarrow> set es \<subseteq> E \<Longrightarrow> \<forall>h \<in> set (A_handlers l). traced E h \<Longrightarrow>
   \<forall>h \<in> set (A_handlers l'). traced E h"
proof (induction es arbitrary: l)
  case (Cons e es)
  then obtain l1 where l1: "socks_serve e l = Some l1" "socks_run es l1 = Some l'" by (auto split: option.splits)
  have "e \<in> E" "set es \<subseteq> E" using Cons.prems(2) by auto
  with l1 Cons.prems(3) show ?case using traced_step Cons.IH by metis
qed simp

text \<open>A relay starts only after a request of the grammar, for the target in it.\<close>

lemma relaying_request:
  assumes "handle_conn dialer c0 = Relaying target c remote"
  shows "dialer target = Some remote \<and>
    (\<exists>r rest. wf_request r \<and> inp c0 = encode_request r @ rest \<and> target = request_target r \<and> inp c = rest)"
proof -
  obtain c1 where h: "handshake c0 = (Inr target, c1)" "dialer target = Some remote" "c = reply repSuccess c1"
    using assms by (auto simp: handle_conn_def split: prod.splits sum.splits option.splits)
  moreover have "inp (reply x c1) = inp c1" for x
    by (simp add: reply_def write_all_def split: nat.split)
  ultimately show ?thesis using handshake_iff [of c0 target c1] by auto
qed

section \<open>Properties\<close>

text \<open>C13. The redirected connections never hold more than 2048 slots, counting those of earlier
  listeners: the slots in use are exactly those of the running handlers, so that none is lost on any
  way a handler can end, and a new connection is dropped exactly when all 2048 are taken. A connection is
  relayed only to a target that is not the daemon itself, and the listener counts as running exactly
  until its loop returns.\<close>

theorem redirected_slots:
  assumes "tproxy_run cfg es (tproxy_start listens used) = Some t" "used \<le> maxTransparentConns"
  shows "T_sem t = T_others t + length (filter holds_slot (A_handlers (T_loop t))) \<and> T_sem t \<le> maxTransparentConns \<and>
    (\<forall>i. handler i (T_loop t) = Some Fresh \<longrightarrow>
       (\<exists>t'. serveTransparentTCP cfg (TakeSlot i) t = Some t' \<and>
          (handler i (T_loop t') = Some (Over LimitReached) \<longleftrightarrow>
             T_others t + length (filter holds_slot (A_handlers (T_loop t))) = maxTransparentConns))) \<and>
    (\<forall>i target remote buf idle. handler i (T_loop t) = Some (Relayed (Piped target remote buf idle)) \<longrightarrow>
       \<not> isLocalTarget target cfg \<and> 32 * 1024 \<le> buf) \<and>
    (T_running t \<longleftrightarrow> A_result (T_loop t) = None)"
proof -
  have ok: "tproxy_ok cfg t" using tproxy_ok_run [OF assms(1) tproxy_ok_start [OF assms(2)]] .
  have "\<not> isLocalTarget target cfg \<and> 32 * 1024 \<le> buf"
    if "handler i (T_loop t) = Some (Relayed (Piped target remote buf idle))" for i target remote buf idle
  proof -
    have "handler_ok cfg (Relayed (Piped target remote buf idle))"
      using ok that unfolding tproxy_ok_def handler_Some by (metis list_all_length)
    then show ?thesis by (simp add: handler_ok_def)
  qed
  moreover have "\<exists>t'. serveTransparentTCP cfg (TakeSlot i) t = Some t' \<and>
      (handler i (T_loop t') = Some (Over LimitReached) \<longleftrightarrow> T_sem t \<ge> maxTransparentConns)"
    if "handler i (T_loop t) = Some Fresh" for i
    using that by (auto simp: handler_def split: if_splits)
  ultimately show ?thesis using ok by (fastforce simp: tproxy_ok_def slots_held_def)
qed

definition demo_redirect :: "unit tproxy_event list" where
  "demo_redirect =
     [TProxyLoop (Accepted Fresh), TProxyLoop (Accepted Fresh), TakeSlot 0, TakeSlot 1,
      HandleConn 0 (originalDst 2 0x5000 [1, 2, 3, 4]) True (\<lambda>_. Inr ()) True]"

lemma demo_redirect_run:
  "map_option (\<lambda>t. (T_sem t, A_handlers (T_loop t))) (tproxy_run DefaultConfig demo_redirect (tproxy_start True 2047)) =
     Some (2048, [Relayed (Piped ''1.2.3.4:80'' () (128 * 1024) (120 * second)), Over LimitReached])"
  by code_simp

theorem redirected_slots_witness:
  "\<exists>t :: unit tproxy. tproxy_run DefaultConfig demo_redirect (tproxy_start True 2047) = Some t \<and>
     T_sem t = 2048 \<and> T_others t = 2047 \<and> \<not> isLocalTarget ''1.2.3.4:80'' DefaultConfig"
proof -
  obtain t where t: "tproxy_run DefaultConfig demo_redirect (tproxy_start True 2047) = Some t" "T_sem t = 2048"
    "A_handlers (T_loop t) = [Relayed (Piped ''1.2.3.4:80'' () (128 * 1024) (120 * second)), Over LimitReached]"
    using demo_redirect_run by auto
  have "handler 0 (T_loop t) = Some (Relayed (Piped ''1.2.3.4:80'' () (128 * 1024) (120 * second)))"
    using t(3) by (simp add: handler_def)
  moreover have "(2047 :: nat) \<le> maxTransparentConns" by (simp add: maxTransparentConns_def)
  note p = redirected_slots [OF t(1) this]
  moreover have "T_others t = 2047" using p t(2,3) by simp
  ultimately show ?thesis using t(1,2) by blast
qed

text \<open>C15. The SOCKS5 server, with any number of connections at once, relays only what was asked for: a
  relay's target is the one of a complete request of the grammar that one of the accepted connections
  sent, its far end is what the dialer gave for that target, and the bytes after the request are still
  to be relayed. Every handler that ended has closed its connections, and the server returns without
  an error only when its context has ended.\<close>

theorem socks_server_relays_requests:
  assumes "socks_run es accept_start = Some l"
  shows "(\<forall>i target c remote. handler i l = Some (SocksRelay target c remote) \<longrightarrow>
       (\<exists>c0 j dialer r rest. SocksLoop (Accepted (Handshaking c0)) \<in> set es \<and> SocksHandle j dialer \<in> set es \<and>
          wf_request r \<and> inp c0 = encode_request r @ rest \<and> target = request_target r \<and>
          inp c = rest \<and> dialer target = Some remote)) \<and>
    (\<forall>i r. handler i l = Some (SocksOver r) \<longrightarrow> outcome_closed r) \<and>
    (A_result l = Some True \<longrightarrow> A_cancelled l)"
proof (intro conjI allI impI)
  fix i target c remote assume "handler i l = Some (SocksRelay target c remote)"
  then have "SocksRelay target c remote \<in> set (A_handlers l)" by (metis handler_Some nth_mem)
  moreover have "\<forall>h \<in> set (A_handlers l). traced (set es) h"
    using traced_run [OF assms subset_refl] by (simp add: accept_start_def)
  ultimately have "traced (set es) (SocksRelay target c remote)" by blast
  then obtain c0 j dialer where o: "SocksLoop (Accepted (Handshaking c0)) \<in> set es" "SocksHandle j dialer \<in> set es"
    "handle_conn dialer c0 = Relaying target c remote" by (auto simp: traced_def)
  then show "\<exists>c0 j dialer r rest. SocksLoop (Accepted (Handshaking c0)) \<in> set es \<and> SocksHandle j dialer \<in> set es \<and>
      wf_request r \<and> inp c0 = encode_request r @ rest \<and> target = request_target r \<and>
      inp c = rest \<and> dialer target = Some remote"
    using relaying_request [OF o(3)] by blast
next
  fix i r assume "handler i l = Some (SocksOver r)"
  then show "outcome_closed r"
    using socks_run_ok [OF assms socks_ok_start] unfolding socks_ok_def handler_Some by (metis nth_mem)
next
  assume "A_result l = Some True"
  then show "A_cancelled l" using socks_run_ok [OF assms socks_ok_start] by (simp add: socks_ok_def)
qed

definition demo_socks :: "socks_event list" where
  "demo_socks =
     [SocksLoop (Accepted (Handshaking interop_srv)), SocksHandle 0 (\<lambda>t. Some interop_cli), SocksLoop CtxEnds,
      SocksPipeOver 0 [1, 2] [3], SocksLoop ListenerClosed, SocksLoop AcceptError]"

lemma demo_socks_run:
  "map_option (\<lambda>l. (A_result l, length (A_handlers l))) (socks_run demo_socks accept_start) = Some (Some True, 1)"
  by code_simp

theorem socks_server_relays_requests_witness:
  "\<exists>l. socks_run demo_socks accept_start = Some l \<and> A_result l = Some True \<and> A_cancelled l"
  using demo_socks_run socks_server_relays_requests [of demo_socks] by auto

end
