(* ===== verification/Metrics.thy ===== *)
theory Metrics
  imports Complex_Main GoStrings
begin

text \<open>
  \<^verbatim>\<open>internal/metrics/metrics.go\<close>: the sampler of \<^verbatim>\<open>/proc\<close>. A file is its content, \<open>None\<close> when it cannot
  be read. Counters are 64-bit words and wrap; a \<^verbatim>\<open>float64\<close> is its rational value, so the rounding of
  the divisions themselves is not modelled. What Go makes of a float that does not fit an integer
  depends on the machine and is the parameter \<open>big\<close>.
\<close>

section \<open>Definitions\<close>

record sampler =
  lastSysTicks :: u64
  lastProcTicks :: u64

record sample =
  CPUPercent :: rat
  MemoryRSSBytes :: u64
  MemoryRSSMB :: rat
  SystemMemTotal :: u64
  SystemMemAvail :: u64
  SystemMemUsedPct :: rat
  Goroutines :: int

record proc_files =
  F_stat :: "string option"
  F_self_stat :: "string option"
  F_statm :: "string option"
  F_meminfo :: "string option"

definition to_int :: "(rat \<Rightarrow> int) \<Rightarrow> rat \<Rightarrow> int" where
  "to_int big v = (if v < 2 ^ 63 then \<lfloor>v\<rfloor> else big v)"

definition round1 :: "(rat \<Rightarrow> int) \<Rightarrow> rat \<Rightarrow> rat" where
  "round1 big v0 = (let v = (if v0 < 0 then 0 else v0) in of_int (to_int big ((v + 1 / 20) * 10)) / 10)"

definition float :: "u64 \<Rightarrow> rat" where
  "float w = of_nat (unat w)"

definition sum_ticks :: "string list \<Rightarrow> u64" where
  "sum_ticks fs = foldl (\<lambda>n f. case ParseUint64 f of None \<Rightarrow> n | Some v \<Rightarrow> n + v) 0 fs"

text \<open>The readers give the value and whether it is valid.\<close>

definition readSystemCPUTicks :: "string option \<Rightarrow> u64 \<times> bool" where
  "readSystemCPUTicks file =
     (case file of
        None \<Rightarrow> (0, False)
      | Some b \<Rightarrow>
          let lines = Split nl b in
          if length lines = 0 \<or> \<not> HasPrefix (hd lines) ''cpu '' then (0, False)
          else let n = sum_ticks (tl (Fields (hd lines))) in (n, n > 0))"

definition readProcessCPUTicks :: "string option \<Rightarrow> u64 \<times> bool" where
  "readProcessCPUTicks file =
     (case file of
        None \<Rightarrow> (0, False)
      | Some s \<Rightarrow>
          (case LastIndexByte s (CHR '')'') of
             None \<Rightarrow> (0, False)
           | Some idx \<Rightarrow>
               if idx + 2 \<ge> length s then (0, False)
               else
                 let fs = Fields (drop (idx + 2) s) in
                 if length fs < 13 then (0, False)
                 else (case (ParseUint64 (fs ! 11), ParseUint64 (fs ! 12)) of
                         (Some utime, Some stime) \<Rightarrow> (utime + stime, True)
                       | _ \<Rightarrow> (0, False))))"

definition readRSSBytes :: "u64 \<Rightarrow> string option \<Rightarrow> u64" where
  "readRSSBytes pagesize file =
     (case file of
        None \<Rightarrow> 0
      | Some b \<Rightarrow>
          let fs = Fields b in
          if length fs < 2 then 0
          else (case ParseUint64 (fs ! 1) of None \<Rightarrow> 0 | Some pages \<Rightarrow> pages * pagesize))"

definition TrimSuffix :: "string \<Rightarrow> string \<Rightarrow> string" where
  "TrimSuffix s x = (if suffix x s then take (length s - length x) s else s)"

fun meminfo_loop :: "u64 \<Rightarrow> u64 \<Rightarrow> string list \<Rightarrow> u64 \<times> u64" where
  "meminfo_loop tot avail [] = (tot, avail)"
| "meminfo_loop tot avail (line # lines) =
     (let fs = Fields line in
      if length fs < 2 then meminfo_loop tot avail lines
      else (case ParseUint64 (fs ! 1) of
              None \<Rightarrow> meminfo_loop tot avail lines
            | Some v \<Rightarrow>
                let k = TrimSuffix (fs ! 0) '':'' in
                if k = ''MemTotal'' then meminfo_loop (v * 1024) avail lines
                else if k = ''MemAvailable'' then meminfo_loop tot (v * 1024) lines
                else meminfo_loop tot avail lines))"

definition readMemInfoBytes :: "string option \<Rightarrow> u64 \<times> u64" where
  "readMemInfoBytes file =
     (case file of None \<Rightarrow> (0, 0) | Some b \<Rightarrow> meminfo_loop 0 0 (Split nl b))"

definition cpu_percent :: "(rat \<Rightarrow> int) \<Rightarrow> sampler \<Rightarrow> u64 \<times> bool \<Rightarrow> u64 \<times> bool \<Rightarrow> rat" where
  "cpu_percent big s = (\<lambda>(sys, okSys) (pr, okProc).
     if okSys \<and> okProc \<and> lastSysTicks s > 0 \<and> sys > lastSysTicks s
     then let dt = sys - lastSysTicks s; dp = pr - lastProcTicks s in round1 big (float dp / float dt * 100)
     else 0)"

definition Sample :: "(rat \<Rightarrow> int) \<Rightarrow> u64 \<Rightarrow> int \<Rightarrow> proc_files \<Rightarrow> sampler \<Rightarrow> sample \<times> sampler" where
  "Sample big pagesize goroutines f s =
     (let (sys, okSys) = readSystemCPUTicks (F_stat f);
          (pr, okProc) = readProcessCPUTicks (F_self_stat f);
          rss = readRSSBytes pagesize (F_statm f);
          (mem, avail) = readMemInfoBytes (F_meminfo f) in
      (\<lparr>CPUPercent = cpu_percent big s (sys, okSys) (pr, okProc),
        MemoryRSSBytes = rss, MemoryRSSMB = round1 big (float rss / 1024 / 1024),
        SystemMemTotal = mem, SystemMemAvail = avail,
        SystemMemUsedPct = (if mem > 0 \<and> avail \<le> mem
                            then round1 big (float (mem - avail) / float mem * 100) else 0),
        Goroutines = goroutines\<rparr>,
       \<lparr>lastSysTicks = (if okSys then sys else lastSysTicks s),
        lastProcTicks = (if okProc then pr else lastProcTicks s)\<rparr>))"

section \<open>Lemmas\<close>

definition small :: "rat \<Rightarrow> bool" where
  "small v \<longleftrightarrow> v \<le> 2 ^ 48"

lemma round1_small: "0 \<le> v \<Longrightarrow> small v \<Longrightarrow> round1 big v = of_int \<lfloor>(v + 1 / 20) * 10\<rfloor> / 10"
  by (simp add: round1_def to_int_def small_def)

lemma round1_nonneg: "0 \<le> v \<Longrightarrow> small v \<Longrightarrow> 0 \<le> round1 big v"
  by (simp add: round1_small)

lemma round1_near: "0 \<le> v \<Longrightarrow> small v \<Longrightarrow> \<bar>round1 big v - v\<bar> \<le> 1 / 20"
proof -
  assume v: "0 \<le> v" "small v"
  define t where "t = (v + 1 / 20) * 10"
  define n where "n = (of_int \<lfloor>t\<rfloor> :: rat)"
  have "n \<le> t" "t < n + 1" unfolding n_def by linarith+
  moreover have "t = 10 * v + 1 / 2" by (simp add: t_def)
  ultimately have "n / 10 - v \<le> 1 / 20" "v - n / 10 \<le> 1 / 20" by linarith+
  moreover have "round1 big v = n / 10" using round1_small [OF v] by (simp only: n_def t_def)
  ultimately show ?thesis by (simp only: abs_le_iff minus_diff_eq)
qed

lemma round1_100: "0 \<le> v \<Longrightarrow> v \<le> 100 \<Longrightarrow> round1 big v \<le> 100"
proof -
  assume v: "0 \<le> v" "v \<le> 100"
  then have "(v + 1 / 20) * 10 < 1001" by simp
  then have "\<lfloor>(v + 1 / 20) * 10\<rfloor> < 1001" by (simp add: floor_less_iff)
  then have "\<lfloor>(v + 1 / 20) * 10\<rfloor> \<le> 1000" by linarith
  then have "(of_int \<lfloor>(v + 1 / 20) * 10\<rfloor> :: rat) \<le> 1000" by (metis of_int_le_iff of_int_numeral)
  then show ?thesis using v by (simp add: round1_small small_def)
qed

lemma float_sub: "x \<le> y \<Longrightarrow> float (y - x) = float y - float x"
  by (simp add: float_def unat_sub of_nat_diff word_le_nat_alt)

lemma float_nonneg: "0 \<le> float w"
  unfolding float_def by (rule of_nat_0_le_iff)

lemma float_mono: "x \<le> y \<longleftrightarrow> float x \<le> float y"
  by (simp only: float_def word_le_nat_alt of_nat_le_iff)

lemma ratio_100: "x \<le> y \<Longrightarrow> 0 \<le> float x / float y * 100 \<and> float x / float y * 100 \<le> 100"
proof -
  assume "x \<le> y"
  then have "float x \<le> float y" by (simp add: float_mono)
  then show ?thesis
    using float_nonneg [of x] float_nonneg [of y] by (cases "float y = 0") (auto simp: divide_le_eq)
qed

lemma megabytes_small: "small (float w / 1024 / 1024)"
proof -
  have "unat w < 2 ^ LENGTH(64)" by (rule unsigned_less)
  then have "unat w < 2 ^ 64" by simp
  then have "float w < of_nat (2 ^ 64)" by (simp only: float_def of_nat_less_iff)
  then show ?thesis by (simp add: small_def)
qed

text \<open>A process counter that went back wraps: the quotient is astronomically large, and the clamp of
  \<open>round1\<close> at zero never sees a negative number.\<close>

lemma backward_counter_wraps:
  "cpu_percent big \<lparr>lastSysTicks = 100, lastProcTicks = 7\<rparr> (200, True) (6, True) =
     of_int (big (184467440737095516150 + 1 / 2)) / 10"
proof -
  have "(6 :: u64) - 7 = - 1" "(200 :: u64) - 100 = 100" by simp_all
  moreover have "unat (- 1 :: u64) = 18446744073709551615" "unat (100 :: u64) = 100"
    by (simp_all add: unsigned_minus_1_eq_mask mask_eq_exp_minus_1)
  then have "float (- 1) = 18446744073709551615" "float 100 = 100" by (simp_all only: float_def of_nat_numeral)
  ultimately have "cpu_percent big \<lparr>lastSysTicks = 100, lastProcTicks = 7\<rparr> (200, True) (6, True) =
      round1 big (18446744073709551615 / 100 * 100)"
    by (simp only: cpu_percent_def Let_def prod.case sampler.select_convs) simp
  then show ?thesis by (simp add: round1_def to_int_def)
qed

section \<open>Properties\<close>


definition demo_files :: proc_files where
  "demo_files = \<lparr>F_stat = Some ''cpu  150 50'', F_self_stat = Some ''7 (a) S 1 1 1 1 1 1 1 1 1 1 20 5'',
     F_statm = None, F_meminfo = None\<rparr>"

lemma demo_ticks:
  "readSystemCPUTicks (F_stat demo_files) = (200, True)" "readProcessCPUTicks (F_self_stat demo_files) = (25, True)"
proof -
  have "Split nl ''cpu  150 50'' = [''cpu  150 50'']" "Fields ''cpu  150 50'' = [''cpu'', ''150'', ''50'']"
    "HasPrefix ''cpu  150 50'' ''cpu ''"
    by code_simp+
  moreover have p: "digits ''150'' = Some 150" "digits ''50'' = Some 50" "digits ''20'' = Some 20" "digits ''5'' = Some 5"
    by code_simp+
  ultimately show "readSystemCPUTicks (F_stat demo_files) = (200, True)"
    by (simp add: demo_files_def readSystemCPUTicks_def Let_def sum_ticks_def ParseUint64_def)
  have "LastIndexByte ''7 (a) S 1 1 1 1 1 1 1 1 1 1 20 5'' (CHR '')'') = Some 4"
    "Fields ''S 1 1 1 1 1 1 1 1 1 1 20 5'' =
      [''S'', ''1'', ''1'', ''1'', ''1'', ''1'', ''1'', ''1'', ''1'', ''1'', ''1'', ''20'', ''5'']"
    by code_simp+
  then show "readProcessCPUTicks (F_self_stat demo_files) = (25, True)"
    using p by (simp add: demo_files_def readProcessCPUTicks_def Let_def ParseUint64_def del: LastIndexByte.simps)
qed


end
