(* ===== verification/Startup.thy ===== *)
theory Startup
  imports Daemon Metrics
begin

text \<open>
  The commands of \<^verbatim>\<open>cmd/sshcustomd/main.go\<close> and the start of the daemon: \<open>main\<close>, \<open>probeCmd\<close>, \<open>run\<close> up to
  the first tunnel and after its context has ended, and the metrics sampler. They put the other
  components together: the files of theory Config, the dialer of theory Transport, the life cycle.
\<close>

section \<open>Definitions\<close>

subsection \<open>Commands\<close>

datatype command =
    ShowUsage
  | ShowVersion
  | RunDaemon "string list"
  | Validate "string list"
  | DumpRules
  | ProbeServer "string list"
  | UnknownCommand string

text \<open>The arguments after the program's name.\<close>

definition main_command :: "string list \<Rightarrow> command" where
  "main_command as =
     (case as of
        [] \<Rightarrow> ShowUsage
      | c # rest \<Rightarrow>
          if c = ''version'' then ShowVersion
          else if c = ''run'' then RunDaemon rest
          else if c = ''validate'' then Validate rest
          else if c = ''iptables-dump'' then DumpRules
          else if c = ''probe'' then ProbeServer rest
          else UnknownCommand c)"

definition exit_status :: "command \<Rightarrow> int" where
  "exit_status c = (case c of ShowUsage \<Rightarrow> 2 | UnknownCommand _ \<Rightarrow> 2 | _ \<Rightarrow> 0)"

definition max_procs :: "int \<Rightarrow> int" where
  "max_procs cpus = (let mp = (if cpus > 8 then 8 else cpus) in if mp < 1 then 1 else mp)"

text \<open>The memory limit in bytes that \<open>main\<close> sets (\<open>None\<close> when the variable \<^verbatim>\<open>GOMEMLIMIT\<close> has a value, which
  the Go runtime reads itself) and the one after \<open>run\<close> has read the configuration.\<close>

definition main_memory :: "string \<Rightarrow> int option" where
  "main_memory gomemlimit = (if gomemlimit = '''' then Some (96 * 1024 * 1024) else None)"

definition run_memory :: "config \<Rightarrow> int option \<Rightarrow> int option" where
  "run_memory cfg bound =
     (let mb = MemoryLimitMB (CPerformance cfg) in if mb > 0 then Some (wrap64 (mb * 1024 * 1024)) else bound)"

subsection \<open>The probe\<close>

datatype probe_result =
    ProbeBadFile file_error
  | ProbeNoProfile
  | ProbeFailed "transport_error option" string "int list" string
  | ProbeOK string "int list" string string "string list"

definition probeCmd ::
  "(string \<Rightarrow> config option) \<Rightarrow> (string \<Rightarrow> profiles_file option) \<Rightarrow> fs
     \<Rightarrow> (string \<Rightarrow> string \<Rightarrow> string \<Rightarrow> tconn \<Rightarrow> 'client option) \<Rightarrow> net_env \<Rightarrow> dns_state \<Rightarrow> string list \<Rightarrow> probe_result" where
  "probeCmd unc unp f new_client net dns as =
     (let cfgPath = flagArg as ''-c'' ''config.json''; pfPath = flagArg as ''-p'' ''profiles.json'' in
      case LoadConfig unc cfgPath f of
        Inl e \<Rightarrow> ProbeBadFile e
      | Inr cfg \<Rightarrow>
          (case LoadProfiles unp pfPath f of
             Inl e \<Rightarrow> ProbeBadFile e
           | Inr pf \<Rightarrow>
               (case SelectedProfile pf of
                  None \<Rightarrow> ProbeNoProfile
                | Some sp \<Rightarrow>
                    (case DialContext new_client net cfg sp dns of
                       (Inl err, r) \<Rightarrow>
                         ProbeFailed err (Banner (pr_result r)) (Statuses (pr_result r)) (ResolvedDial (pr_result r))
                     | (Inr _, r) \<Rightarrow>
                         ProbeOK (Banner (pr_result r)) (Statuses (pr_result r)) (ResolvedDial (pr_result r))
                           (ResolverMethod (pr_result r)) (ResolvedIPs (pr_result r))))))"

subsection \<open>The start of the daemon\<close>

datatype start_error = LogFileFailed | StartBadFile file_error | NoSelectedProfile

record started =
  RS_cfg :: config
  RS_idle :: bool
  RS_paths :: "string \<times> string \<times> string"
  RS_addr :: string
  RS_rt :: runtime

definition api_addr :: "config \<Rightarrow> string" where
  "api_addr cfg = JoinHostPort (API_Host (CAPI cfg)) (Itoa (if API_Port (CAPI cfg) \<le> 0 then 9190 else API_Port (CAPI cfg)))"

text \<open>
  \<open>run\<close> up to the life cycle. \<open>logs\<close> says that the log file could be opened, \<open>ri\<close> is the route found,
  \<open>z\<close> the zero value of the state.
\<close>

definition run_start ::
  "(string \<Rightarrow> config option) \<Rightarrow> (string \<Rightarrow> profiles_file option) \<Rightarrow> fs \<Rightarrow> bool \<Rightarrow> instant
     \<Rightarrow> string \<times> string \<times> string \<Rightarrow> route_info \<Rightarrow> runtime \<Rightarrow> string list \<Rightarrow> start_error + started" where
  "run_start unc unp f logs now version ri z as =
     (let cfgPath = flagArg as ''-c'' ''/data/adb/sshcustom/config.json'';
          pfPath = flagArg as ''-p'' ''/data/adb/sshcustom/profiles.json'';
          workDir = flagArg as ''-w'' ''/data/adb/sshcustom'';
          idleMode = hasFlag as ''--idle'' in
      if \<not> logs then Inl LogFileFailed
      else (case LoadConfig unc cfgPath f of
              Inl e \<Rightarrow> Inl (StartBadFile e)
            | Inr cfg \<Rightarrow>
                (case LoadProfiles unp pfPath f of
                   Inl e \<Rightarrow> Inl (StartBadFile e)
                 | Inr pf \<Rightarrow>
                     let sp = SelectedProfile pf in
                     if sp = None \<and> \<not> idleMode then Inl NoSelectedProfile
                     else
                       let st = initial_state z now version (workDir, cfgPath, pfPath) idleMode cfg ri sp;
                           st1 = st\<lparr>R_paths := (R_paths st)\<lparr>S_APIAddr := api_addr cfg\<rparr>\<rparr> in
                       Inr \<lparr>RS_cfg = cfg, RS_idle = idleMode, RS_paths = (workDir, cfgPath, pfPath),
                            RS_addr = api_addr cfg, RS_rt = st1\<rparr>)))"

text \<open>The life cycle after it: a daemon that is not idle starts the tunnel, with the profiles as they are
  read again.\<close>

definition run_tunnel :: "profiles_file \<Rightarrow> instant \<Rightarrow> started \<Rightarrow> lifecycle" where
  "run_tunnel pf now rs =
     (if RS_idle rs then life_init (RS_rt rs) else startTunnel pf now (life_init (RS_rt rs)))"

text \<open>The end of \<open>run\<close>, when its context is done.\<close>

definition run_stopped :: "runtime \<Rightarrow> runtime" where
  "run_stopped r = r\<lparr>R_status := (R_status r)\<lparr>S_State := ''STOPPED'', S_Running := False\<rparr>\<rparr>"

subsection \<open>Metrics\<close>

definition apply_sample :: "sample \<Rightarrow> runtime \<Rightarrow> runtime" where
  "apply_sample s r =
     r\<lparr>R_metrics := \<lparr>S_CPUPercent = CPUPercent s, S_MemoryRSSBytes = MemoryRSSBytes s,
       S_MemoryRSSMB = MemoryRSSMB s, S_SystemMemTotalBytes = SystemMemTotal s,
       S_SystemMemAvailBytes = SystemMemAvail s, S_SystemMemUsedPct = SystemMemUsedPct s,
       S_Goroutines = Goroutines s\<rparr>\<rparr>"

text \<open>\<open>startMetricsSampler\<close>: one sample at once and one for every tick until the context is done, over what
  the files and the number of goroutines are each time.\<close>

fun startMetricsSampler ::
  "(rat \<Rightarrow> int) \<Rightarrow> u64 \<Rightarrow> (int \<times> proc_files) list \<Rightarrow> sampler \<Rightarrow> runtime \<Rightarrow> sampler \<times> runtime" where
  "startMetricsSampler big pagesize [] s r = (s, r)"
| "startMetricsSampler big pagesize ((n, files) # ticks) s r =
     (case Sample big pagesize n files s of
        (m, s') \<Rightarrow> startMetricsSampler big pagesize ticks s' (apply_sample m r))"

section \<open>Lemmas\<close>

lemma max_procs_range: "1 \<le> max_procs n \<and> max_procs n \<le> 8"
  by (simp add: max_procs_def Let_def)

text \<open>What \<open>validate\<close> accepts, \<open>run\<close> starts with, when both read the same files.\<close>

lemma validated_daemon_starts:
  assumes "validateCmd unc unp f as = None"
    and "flagArg as ''-c'' ''config.json'' = flagArg as ''-c'' ''/data/adb/sshcustom/config.json''"
    and "flagArg as ''-p'' ''profiles.json'' = flagArg as ''-p'' ''/data/adb/sshcustom/profiles.json''"
  shows "\<exists>rs. run_start unc unp f True now version ri z as = Inr rs"
  using assms by (auto simp: validateCmd_def run_start_def Let_def split: sum.splits option.splits if_splits)

lemma run_start_state:
  assumes "run_start unc unp f logs now version ri z as = Inr rs"
  shows "S_Running (R_status (RS_rt rs)) \<longleftrightarrow> \<not> RS_idle rs"
    "S_State (R_status (RS_rt rs)) = (if RS_idle rs then ''IDLE'' else ''STARTING'')"
    "S_Connected (R_status (RS_rt rs)) = S_Connected (R_status z)"
  using assms
  by (cases version; auto simp: run_start_def Let_def initial_state_def with_profile_def
      split: sum.splits option.splits if_splits)+

text \<open>A fresh life cycle whose state already says running is sound as soon as the tunnel starts.\<close>

lemma life_inv_first_start:
  "SelectedProfile pf \<noteq> None \<Longrightarrow> life_inv (startTunnel pf now (life_init rt))"
  by (auto simp: startTunnel_def life_init_def life_inv_def live_def current_def split: if_splits)

lemma life_inv_run_tunnel:
  assumes "run_start unc unp f logs now version ri z as = Inr rs" "RS_idle rs \<or> SelectedProfile pf \<noteq> None"
  shows "life_inv (run_tunnel pf t rs)"
  using assms(2) run_start_state(1) [OF assms(1)] life_inv_first_start [of pf t] life_inv_init [of "RS_rt rs"]
  by (auto simp: run_tunnel_def)

lemma startMetricsSampler_append:
  "startMetricsSampler big p (ts @ us) s r =
     (case startMetricsSampler big p ts s r of (s', r') \<Rightarrow> startMetricsSampler big p us s' r')"
  by (induction big p ts s r rule: startMetricsSampler.induct) (auto split: prod.split)

text \<open>The sampler changes only the metrics, and they are those of the last sample.\<close>

lemma startMetricsSampler_frame:
  "startMetricsSampler big p ts s r = (s', r') \<Longrightarrow> \<exists>m. r' = r\<lparr>R_metrics := m\<rparr>"
proof (induction big p ts s r rule: startMetricsSampler.induct)
  case (1 big pagesize s r)
  then show ?case by (intro exI [of _ "R_metrics r"]) simp
next
  case (2 big pagesize n files ticks s r)
  obtain m s1 where m: "Sample big pagesize n files s = (m, s1)" by (cases "Sample big pagesize n files s")
  show ?case using "2.IH" [OF m [symmetric]] "2.prems" by (auto simp: m apply_sample_def)
qed

section \<open>Properties\<close>

text \<open>C17. From the command line to the tunnel: a daemon that starts is consistent from its first state on,
  although the state it shows says "running" before there is a tunnel. An idle daemon has no tunnel loop
  until it is told to start one; any other has exactly one, of the first generation; and whatever starts,
  stops and failures follow, at most one loop runs, exactly while the tunnel counts as running, and
  nothing is restarted by itself.\<close>

theorem daemon_comes_up:
  assumes "run_start unc unp f logs now version ri z as = Inr rs" "RS_idle rs \<or> SelectedProfile pf \<noteq> None"
    and "life_step\<^sup>*\<^sup>* (run_tunnel pf t rs) l"
  shows "(\<forall>g. L_phase (run_tunnel pf t rs) g = (if g = 0 \<and> \<not> RS_idle rs then Looping else Absent)) \<and>
    (\<forall>g h. L_phase l g = Looping \<and> L_phase l h = Looping \<longrightarrow> g = h) \<and>
    (L_running l \<longleftrightarrow> (\<exists>g. L_phase l g = Looping \<or> L_phase l g = Panicked)) \<and>
    (S_Running (R_status (L_rt l)) \<longrightarrow> L_running l \<or> (\<exists>g. L_phase l g = Tail)) \<and>
    (\<forall>g d. L_phase l g \<noteq> Delaying d)"
proof -
  have inv: "life_inv l" using life_reach [OF assms(3) life_inv_run_tunnel [OF assms(1,2)]] .
  have "L_phase (run_tunnel pf t rs) g = (if g = 0 \<and> \<not> RS_idle rs then Looping else Absent)" for g
    using assms(2) by (auto simp: run_tunnel_def startTunnel_def life_init_def)
  then show ?thesis using life_inv_loops [OF inv] by blast
qed

definition start_files :: fs where
  "start_files = \<lparr>disk = [''/c'' \<mapsto> ''cfg'', ''/p'' \<mapsto> ''pf''], wr_fault = (\<lambda>_. None), mv_fault = (\<lambda>_. False)\<rparr>"

definition start_args :: "string list" where
  "start_args = [''-c'', ''/c'', ''-p'', ''/p'']"

abbreviation demo_start :: "route_info \<Rightarrow> runtime \<Rightarrow> start_error + started" where
  "demo_start ri z \<equiv>
     run_start (\<lambda>_. Some DefaultConfig) (\<lambda>_. Some two_profiles) start_files True 0 ('''', '''', '''') ri z start_args"

lemma demo_start_run: "\<exists>rs. demo_start ri z = Inr rs \<and> \<not> RS_idle rs"
  by (simp add: run_start_def start_args_def start_files_def LoadConfig_def LoadProfiles_def load_doc_def
      two_selected hasFlag_def Let_def)

theorem daemon_comes_up_witness:
  "\<forall>ri z. \<exists>rs. demo_start ri z = Inr rs \<and> L_phase (run_tunnel two_profiles 1 rs) 0 = Looping \<and>
     L_phase (run_tunnel two_profiles 1 rs) 1 = Absent"
proof (intro allI)
  fix ri z
  obtain rs where rs: "demo_start ri z = Inr rs" "\<not> RS_idle rs" using demo_start_run by blast
  have "RS_idle rs \<or> SelectedProfile two_profiles \<noteq> None" by (simp add: two_selected)
  from daemon_comes_up [OF rs(1) this rtranclp.rtrancl_refl] rs
  show "\<exists>rs. demo_start ri z = Inr rs \<and> L_phase (run_tunnel two_profiles 1 rs) 0 = Looping \<and>
     L_phase (run_tunnel two_profiles 1 rs) 1 = Absent" by auto
qed

end
