(* ===== verification/Spec2Isabelle.thy ===== *)
theory Spec2Isabelle
  imports Socks5 Relay UdpgwLoop EventStream Listeners Startup
begin

text \<open>
  A verification library for SSHCustom-Magisk, the daemon of a root module for Android that tunnels the
  device's traffic through one SSH connection. The Go sources are under \<^verbatim>\<open>src/\<close>; this development
  models the packages of \<^verbatim>\<open>internal/\<close> and of \<^verbatim>\<open>cmd/sshcustomd/\<close>.

  \<^bold>\<open>The program.\<close> A client program connects to the local SOCKS5 proxy (\<^verbatim>\<open>internal/socks5\<close>) or is redirected
  to the daemon by rules of the kernel's packet filter (\<^verbatim>\<open>internal/iptables\<close>, \<^verbatim>\<open>transparent.go\<close>). Each such
  connection becomes a stream over the SSH client (\<^verbatim>\<open>internal/tunnel\<close>) and is copied both ways by the relay
  \<^verbatim>\<open>PipeBoth\<close>. The SSH connection is made by \<^verbatim>\<open>internal/transport\<close>: resolve the host (\<^verbatim>\<open>internal/dnsx\<close>), dial,
  pass an HTTP proxy, TLS and a payload that imitates an HTTP request, then speak SSH. The reconnect
  loop of \<^verbatim>\<open>main.go\<close> makes and replaces it, starts the listeners and installs the rules; start and stop
  arrive over the HTTP API (\<^verbatim>\<open>internal/api\<close>), which also edits the configuration and the profiles
  (\<^verbatim>\<open>internal/config\<close>) and streams the runtime state to the pages of \<^verbatim>\<open>internal/webui\<close>. DNS queries of the
  device go through \<^verbatim>\<open>dns.go\<close>; \<^verbatim>\<open>internal/metrics\<close> samples the process; \<^verbatim>\<open>internal/udpgw\<close> is a client for a UDP
  gateway that the daemon no longer starts.

  \<^bold>\<open>The theories.\<close>
  \<^item> \<open>Prelude\<close>: bytes, 64-bit wrap-around, connections as byte streams, association lists for Go maps, and two
    interfaces, \<open>backoff\<close> (interpreted by the reconnect delay, the gateway's and the restart's) and
    \<open>collector\<close> (the list builders of the resolver).
  \<^item> \<open>GoStrings\<close>, \<open>GoNet\<close>: what the sources use of \<^verbatim>\<open>strings\<close>, \<^verbatim>\<open>strconv\<close>, \<^verbatim>\<open>unicode\<close> and \<^verbatim>\<open>net\<close>, with the laws the
    other theories need (splitting and joining, printing and parsing numbers and addresses).
  \<^item> \<open>Socks5\<close>: the server's handshake and connection handler (\<^verbatim>\<open>socks5.go\<close>) and the API's own client
    (\<^verbatim>\<open>socksclient.go\<close>). The handshake accepts exactly a grammar; client and server understand each other.
  \<^item> \<open>Config\<close>: the types, defaults, selection, deletion, ids and atomic saving of \<^verbatim>\<open>config.go\<close>. The interface
    \<open>document_store\<close> states what saving and loading promise.
  \<^item> \<open>Tunnel\<close>: keepalive, stream retry, error classes, delays of \<^verbatim>\<open>tunnel.go\<close>; \<open>Relay\<close>: \<^verbatim>\<open>PipeBoth\<close> and the
    proxy's own \<^verbatim>\<open>pipe\<close> as step relations over two pumps and a supervisor, with the invariants that no byte
    is lost, doubled or reordered and that the connections are closed for the right reason.
  \<^item> \<open>Dnsx\<close>: the resolver's cache, server lists, carrier servers and fallbacks; \<open>Transport\<close>: the prepared
    connection stage by stage, payload templates, the probe that must not eat the SSH banner.
  \<^item> \<open>Udpgw\<close>: frames, connection ids, the read loop, the janitor, keepalives and reconnect delays of
    \<^verbatim>\<open>udpgw.go\<close>, with an invariant over the interleavings of their critical sections; \<open>UdpgwLoop\<close>: \<open>Serve\<close>,
    the two loops of every session, the tickers and \<open>Shutdown\<close> as events of one state, with the connections
    that are open, what a cancellation ends and what a shutdown does not.
  \<^item> \<open>Profiles\<close>: \<^verbatim>\<open>upsertProfile\<close> and \<^verbatim>\<open>buildTransport\<close> of \<^verbatim>\<open>api.go\<close>, and the typing of profiles;
    \<open>ProfileHeap\<close>: the same edits on Go slices that share arrays, refined to the operations on lists.
  \<^item> \<open>Runtime\<close>: the API's \<^verbatim>\<open>State\<close>, its snapshot, and the event streams as a step relation; \<open>Web\<close>: response
    writer, envelopes, CORS, routes, log paths; \<open>Server\<close>: every handler, the routing and the server's
    variables. The interface \<open>list_edit\<close> is what the three profile requests share.
  \<^item> \<open>EventStream\<close>: the bytes of the event stream that \<^verbatim>\<open>handleEvents\<close> writes, and how a page reads them.
  \<^item> \<open>Iptables\<close>: every command of \<^verbatim>\<open>iptables.go\<close> in order, over an operating system \<open>ex\<close> that runs argument
    vectors; the locale \<open>netfilter\<close> states what the manual page promises of the commands on the rule
    tables, including that appending and inserting may fail. \<open>TransparentRules\<close>: what installing and
    removing do to the tables, and the locale \<open>reliable_netfilter\<close> without failures; both are interpreted
    on a concrete rule table that parses the argument vectors.
  \<^item> \<open>TunnelLoop\<close>: the reconnect loop as a step function over events, composed with the models of transport,
    resolver, rules and runtime state; \<open>Lifecycle\<close>: \<^verbatim>\<open>startTunnel\<close>, \<^verbatim>\<open>stopTunnel\<close> and the goroutine between them
    as a step relation, the control handler and the status watcher; \<open>Daemon\<close>: command line, initial
    state, route cache, DNS forwarder, redirected connections.
  \<^item> \<open>Listeners\<close>: the accept loops of the SOCKS5 server and of the redirected connections with their handlers
    side by side, and the slots that bound the latter.
  \<^item> \<open>Metrics\<close>: the sampler and its parsers of \<^verbatim>\<open>/proc\<close>; \<open>Startup\<close>: the commands of \<^verbatim>\<open>main\<close>, the probe, the
    start of the daemon from its files to the first tunnel, and the sampler's loop.

  \<^bold>\<open>Conventions.\<close> Definitions carry the names of the functions they translate. Go strings are byte strings
  (lists of characters), \<^verbatim>\<open>int\<close> is \<open>int\<close> with \<open>wrap64\<close> where a product or sum may leave 64 bits, fixed-width
  counters are words. A fallible function returns a sum or an option, with one constructor per error;
  state is a record that is passed and returned. A Go map is an association list whose order stands for
  the iteration order. Mutexes make the code between lock and unlock one step; everything else that
  goroutines do may interleave. Time enters as parameters or events. In each theory the definitions come
  first, then the lemmas, then the properties, numbered C1 to C40 across the theories.

  \<^bold>\<open>What the properties show.\<close> The wire formats are exact (the SOCKS5 handshake, the frames of the
  gateway and of the DNS forwarder). Stored documents and profiles keep their invariants under every request and every fault
  of the file system, and the in-place edits refine the list operations. The relay, the event streams,
  the gateway, the listeners, the reconnect loop and the life cycle keep their invariants under all
  interleavings, also from the first state of a daemon that has just started. The
  transport closes what it opened and keeps the SSH stream intact. The rules of the packet filter are
  removed exactly, whatever fails, which with the reconnect loop gives that the tables after a run
  are those before it.

  \<^bold>\<open>Bounds and termination.\<close> No fuel is used: the loops of the sources are structural, or recursive functions
  with a measure (the bytes left to read, the remaining input), or step relations whose runs are
  finite lists of events. The loop of \<^verbatim>\<open>UniqueProfileID\<close> stops at 9999 as the source does. The reconnect
  loop is meant to run for ever; that it returns after a cancellation is proved with a rank, and so is the end of the
  gateway and of all its loops.

  \<^bold>\<open>Parameters and hypotheses.\<close> The SSH and TLS libraries, the JSON codecs, \<^verbatim>\<open>crypto/rand\<close>, the clock, dials, file
  contents and faults, shell commands and system calls are parameters. Where a theorem needs a fact
  about one (a codec decodes what it encoded, the commands of \<^verbatim>\<open>iptables\<close> behave as documented) it is
  a hypothesis with that content, and the witness instantiates it.

  \<^bold>\<open>Not modelled.\<close> The vendored \<^verbatim>\<open>golang.org/x/crypto\<close> (third-party code); the HTTP server of the standard
  library that \<^verbatim>\<open>api.go\<close> starts; options set on accepted sockets; signals and the log file; the stubs for other operating systems; \<^verbatim>\<open>version.go\<close>; the names of TLS
  versions in log lines; the rounding of floating-point divisions in the metrics; the Android scripts and
  the web pages.
\<close>

end
